(* ===== verification/Prelude.thy ===== *)
theory Prelude
  imports Main "HOL-Library.Word" "HOL-Library.Multiset"
begin

text \<open>
  Shared ground of the development: the machine-integer types of the sources, the result
  type of operations that may fail, loops over a list that may stop with a fault, and the
  two shapes of container the sources use most (unordered sets and FIFO queues), with the
  generic lemmas the component theories rest on.
\<close>

named_theorems result_simps "equations and inversions of the result type"
named_theorems fifo_simps "equations of bounded queues and unordered sets"

section \<open>Machine integers\<close>

type_synonym int32 = "32 word"
type_synonym uint8 = "8 word"
type_synonym uint16 = "16 word"
type_synonym uint32 = "32 word"
type_synonym uint64 = "64 word"

section \<open>Results: a fault on the left, a value on the right\<close>

text \<open>
  \<open>rbind m f\<close> runs \<open>m\<close> and, unless it faulted, continues with \<open>f\<close>: the sequencing of
  two C++ statements of which the first may throw, abort or be undefined.
\<close>

definition rbind :: "'e + 'a \<Rightarrow> ('a \<Rightarrow> 'e + 'b) \<Rightarrow> 'e + 'b" where
  "rbind m f = (case m of Inl e \<Rightarrow> Inl e | Inr x \<Rightarrow> f x)"

lemma rbind_Inl [simp, result_simps]: "rbind (Inl e) f = Inl e"
  by (simp add: rbind_def)

lemma rbind_Inr [simp, result_simps]: "rbind (Inr x) f = f x"
  by (simp add: rbind_def)

lemma rbind_eq_Inr [result_simps]: "rbind m f = Inr y \<longleftrightarrow> (\<exists>x. m = Inr x \<and> f x = Inr y)"
  by (cases m) auto

lemma rbind_eq_Inl [result_simps]:
  "rbind m f = Inl e \<longleftrightarrow> m = Inl e \<or> (\<exists>x. m = Inr x \<and> f x = Inl e)"
  by (cases m) auto

lemma rbind_assoc: "rbind (rbind m f) g = rbind m (\<lambda>x. rbind (f x) g)"
  by (cases m) auto

lemma rbind_cong [fundef_cong]:
  "m = m' \<Longrightarrow> (\<And>x. m' = Inr x \<Longrightarrow> f x = g x) \<Longrightarrow> rbind m f = rbind m' g"
  by (cases m') auto

text \<open>A for-loop over a list whose body may fault; it stops at the first fault.\<close>

fun rfold :: "('a \<Rightarrow> 's \<Rightarrow> 'e + 's) \<Rightarrow> 'a list \<Rightarrow> 's \<Rightarrow> 'e + 's" where
  "rfold f [] s = Inr s"
| "rfold f (x # xs) s = rbind (f x s) (rfold f xs)"

lemma rfold_append: "rfold f (xs @ ys) s = rbind (rfold f xs s) (rfold f ys)"
proof (induction xs arbitrary: s)
  case (Cons x xs)
  then show ?case by (cases "f x s") auto
qed simp

lemma rfold_cong [fundef_cong]:
  "xs = ys \<Longrightarrow> s = t \<Longrightarrow> (\<And>x s. x \<in> set ys \<Longrightarrow> f x s = g x s) \<Longrightarrow> rfold f xs s = rfold g ys t"
  by (induction ys arbitrary: xs s t) (auto intro!: rbind_cong)

text \<open>Partial correctness of a loop: an invariant its body keeps whenever it does not fault.\<close>

lemma rfold_invariant:
  assumes "rfold f xs s = Inr t" and "P s"
    and "\<And>x s t. x \<in> set xs \<Longrightarrow> P s \<Longrightarrow> f x s = Inr t \<Longrightarrow> P t"
  shows "P t"
  using assms by (induction xs arbitrary: s) (auto simp: rbind_eq_Inr)

text \<open>Total correctness: the body never faults under the invariant, so neither does the loop.\<close>

lemma rfold_total:
  assumes "P s" and "\<And>x s. x \<in> set xs \<Longrightarrow> P s \<Longrightarrow> \<exists>t. f x s = Inr t \<and> P t"
  shows "\<exists>t. rfold f xs s = Inr t \<and> P t"
  using assms
proof (induction xs arbitrary: s)
  case Nil
  then show ?case by simp
next
  case (Cons x xs)
  then obtain t where "f x s = Inr t" "P t" by fastforce
  with Cons show ?case by fastforce
qed

text \<open>
  Total correctness with a postcondition on each element that later iterations keep.
\<close>

lemma rfold_establishes:
  assumes "P s"
    and "\<And>x s. x \<in> set xs \<Longrightarrow> P s \<Longrightarrow> \<exists>t. f x s = Inr t \<and> P t \<and> Q x t \<and> (\<forall>y. Q y s \<longrightarrow> Q y t)"
  shows "\<exists>t. rfold f xs s = Inr t \<and> P t \<and> (\<forall>x \<in> set xs. Q x t) \<and> (\<forall>y. Q y s \<longrightarrow> Q y t)"
  using assms
proof (induction xs arbitrary: s)
  case Nil
  then show ?case by simp
next
  case (Cons x xs)
  have "x \<in> set (x # xs)" by simp
  from Cons.prems(2) [OF this Cons.prems(1)] obtain t where
    t: "f x s = Inr t" "P t" "Q x t" "\<forall>y. Q y s \<longrightarrow> Q y t"
    by blast
  have "\<exists>u. rfold f xs t = Inr u \<and> P u \<and> (\<forall>x \<in> set xs. Q x u) \<and> (\<forall>y. Q y t \<longrightarrow> Q y u)"
    by (rule Cons.IH [OF t(2)]) (rule Cons.prems(2), simp_all)
  then obtain u where
    u: "rfold f xs t = Inr u" "P u" "\<forall>x \<in> set xs. Q x u" "\<forall>y. Q y t \<longrightarrow> Q y u"
    by blast
  show ?case
    using t u by auto
qed

section \<open>Unordered sets\<close>

text \<open>
  An \<open>std::unordered_set\<close> of pointers is the list of its elements without repetition; the
  order of the list is the (unspecified) order in which a range-for visits them.
  \<open>insert\<close> returns the set and whether the element was new, as the pair of the library.
\<close>

definition uset_insert :: "'a \<Rightarrow> 'a list \<Rightarrow> 'a list \<times> bool" where
  "uset_insert x xs = (if x \<in> set xs then (xs, False) else (xs @ [x], True))"

definition uset_erase :: "'a \<Rightarrow> 'a list \<Rightarrow> 'a list" where
  "uset_erase x xs = removeAll x xs"

lemma set_uset_insert [simp, fifo_simps]: "set (fst (uset_insert x xs)) = insert x (set xs)"
  by (auto simp: uset_insert_def)

lemma snd_uset_insert [simp, fifo_simps]: "snd (uset_insert x xs) \<longleftrightarrow> x \<notin> set xs"
  by (auto simp: uset_insert_def)

lemma distinct_uset_insert [simp, fifo_simps]: "distinct (fst (uset_insert x xs)) \<longleftrightarrow> distinct xs"
  by (auto simp: uset_insert_def)

lemma set_uset_erase [simp, fifo_simps]: "set (uset_erase x xs) = set xs - {x}"
  by (auto simp: uset_erase_def)

lemma distinct_uset_erase [simp]: "distinct xs \<Longrightarrow> distinct (uset_erase x xs)"
  by (simp add: uset_erase_def distinct_removeAll)

section \<open>Queues\<close>

text \<open>
  The contract of \<^verbatim>\<open>boost::lockfree::queue\<close> as the sources use it, seen through the list
  of queued elements, oldest first: \<open>push\<close> appends unless the queue is full and says
  whether it did, \<open>pop\<close> takes the oldest element and says whether there was one.
\<close>

locale boost_queue =
  fixes push :: "'a \<Rightarrow> 'q \<Rightarrow> 'q \<times> bool"
    and pop :: "'q \<Rightarrow> ('q \<times> 'a) option"
    and contents :: "'q \<Rightarrow> 'a list"
    and full :: "'q \<Rightarrow> bool"
  assumes push_ok: "\<not> full q \<Longrightarrow> snd (push x q) \<and> contents (fst (push x q)) = contents q @ [x]"
    and push_full: "full q \<Longrightarrow> push x q = (q, False)"
    and pop_None: "pop q = None \<longleftrightarrow> contents q = []"
    and pop_Some: "pop q = Some (q', x) \<Longrightarrow> contents q = x # contents q'"
begin

lemma pop_nonempty: "contents q \<noteq> [] \<Longrightarrow> \<exists>q' x. pop q = Some (q', x)"
  using pop_None by fastforce

lemma length_push: "length (contents (fst (push x q))) =
    length (contents q) + (if snd (push x q) then 1 else 0)"
  using push_ok [of q x] push_full [of q x] by (cases "full q") auto

lemma push_pop_fifo:
  assumes "contents q = []" and "\<not> full q"
  shows "\<exists>q'. pop (fst (push x q)) = Some (q', x) \<and> contents q' = []"
proof -
  have c: "contents (fst (push x q)) = [x]" using assms push_ok by fastforce
  then obtain q' y where "pop (fst (push x q)) = Some (q', y)" using pop_nonempty by fastforce
  with c pop_Some show ?thesis by fastforce
qed

end

text \<open>
  The list model: \<open>cap = None\<close> is a queue that grows (constructed with an initial size),
  \<open>cap = Some n\<close> a queue of fixed capacity \<open>n\<close> (\<^verbatim>\<open>boost::lockfree::capacity<n>\<close>).
\<close>

record 'a bqueue =
  cap :: "nat option"
  items :: "'a list"

definition bq_full :: "'a bqueue \<Rightarrow> bool" where
  "bq_full q = (case cap q of None \<Rightarrow> False | Some n \<Rightarrow> n \<le> length (items q))"

definition bq_push :: "'a \<Rightarrow> 'a bqueue \<Rightarrow> 'a bqueue \<times> bool" where
  "bq_push x q = (if bq_full q then (q, False) else (q\<lparr>items := items q @ [x]\<rparr>, True))"

definition bq_pop :: "'a bqueue \<Rightarrow> ('a bqueue \<times> 'a) option" where
  "bq_pop q = (case items q of [] \<Rightarrow> None | x # xs \<Rightarrow> Some (q\<lparr>items := xs\<rparr>, x))"

interpretation bq: boost_queue bq_push bq_pop items bq_full
  by unfold_locales (auto simp: bq_push_def bq_pop_def split: list.splits)

lemma cap_bq_push [simp, fifo_simps]: "cap (fst (bq_push x q)) = cap q"
  by (simp add: bq_push_def)

end
