(* ===== verification/Float_Model.thy ===== *)
theory Float_Model
  imports Complex_Main Prelude
begin

text \<open>
  The floating-point arithmetic of the sources. A finite \<^verbatim>\<open>float\<close> or \<^verbatim>\<open>double\<close> is the
  rational number it stands for, and every C++ operation is the exact operation followed by
  IEEE-754 rounding to nearest, ties to even, with gradual underflow. Infinities and NaNs
  are not values of the model: a division by zero has no result, and the range of the
  exponent is not bounded above.
\<close>

section \<open>Rounding to the nearest integer\<close>

definition round_half_even :: "rat \<Rightarrow> int" where
  "round_half_even x =
     (let f = \<lfloor>x\<rfloor>; r = x - of_int f
      in if r < 1 / 2 then f else if 1 / 2 < r then f + 1 else if even f then f else f + 1)"

lemma round_half_even_of_int [simp]: "round_half_even (of_int k) = k"
  by (simp add: round_half_even_def)

lemma round_half_even_bounds:
  "of_int (round_half_even x) - 1 / 2 \<le> x" "x \<le> of_int (round_half_even x) + 1 / 2"
  unfolding round_half_even_def Let_def by (auto; linarith)+

lemma round_half_even_le_of_int: "x \<le> of_int k \<Longrightarrow> round_half_even x \<le> k"
proof -
  assume "x \<le> of_int k"
  with round_half_even_bounds(1) [of x] have "of_int (round_half_even x) \<le> of_int k + (1 / 2 :: rat)"
    by linarith
  then have "of_int (round_half_even x) < (of_int (k + 1) :: rat)" by simp
  then show ?thesis by (simp only: of_int_less_iff)
qed

lemma round_half_even_mono: "x \<le> y \<Longrightarrow> round_half_even x \<le> round_half_even y"
proof -
  assume le: "x \<le> y"
  then consider "\<lfloor>x\<rfloor> = \<lfloor>y\<rfloor>" | "\<lfloor>x\<rfloor> + 1 \<le> \<lfloor>y\<rfloor>"
    using floor_mono by fastforce
  then show ?thesis
  proof cases
    case 1
    with le show ?thesis unfolding round_half_even_def Let_def by auto
  next
    case 2
    have "round_half_even x \<le> \<lfloor>x\<rfloor> + 1" by (simp add: round_half_even_def Let_def)
    also have "\<dots> \<le> \<lfloor>y\<rfloor>" by (rule 2)
    also have "\<dots> \<le> round_half_even y" by (simp add: round_half_even_def Let_def)
    finally show ?thesis .
  qed
qed

lemma round_half_even_minus: "round_half_even (- x) = - round_half_even x"
proof (cases "x = of_int \<lfloor>x\<rfloor>")
  case True
  then have "round_half_even (- x) = round_half_even (of_int (- \<lfloor>x\<rfloor>))" by simp
  also have "\<dots> = - \<lfloor>x\<rfloor>" by (rule round_half_even_of_int)
  also have "\<dots> = - round_half_even x" using True by (metis round_half_even_of_int)
  finally show ?thesis .
next
  case False
  have "\<lfloor>- x\<rfloor> = - \<lfloor>x\<rfloor> - 1" using False by (simp add: floor_eq_iff) linarith
  then show ?thesis by (simp add: round_half_even_def Let_def)
qed

section \<open>The exponent of a rational\<close>

function bit_length :: "int \<Rightarrow> int" where
  "bit_length n = (if n \<le> 0 then 0 else 1 + bit_length (n div 2))"
  by pat_completeness auto
termination
  by (relation "measure nat") auto

declare bit_length.simps [simp del]

definition ilog2 :: "rat \<Rightarrow> int" where
  "ilog2 x =
     (let (n, d) = quotient_of x; e = bit_length n - bit_length d
      in if 2 powi e \<le> x then e else e - 1)"

lemma bit_length_nonneg: "0 \<le> bit_length n"
  by (induction n rule: bit_length.induct) (subst bit_length.simps, auto)

lemma bit_length_bounds:
  "0 < n \<Longrightarrow> 2 powi (bit_length n - 1) \<le> (of_int n :: rat) \<and> of_int n < (2 :: rat) powi bit_length n"
proof (induction n rule: bit_length.induct)
  case (1 n)
  have eq: "bit_length n = 1 + bit_length (n div 2)"
    using "1.prems" by (simp add: bit_length.simps [of n])
  show ?case
  proof (cases "n = 1")
    case True
    then show ?thesis by (simp add: bit_length.simps)
  next
    case False
    with "1.prems" have "0 < n div 2" by linarith
    with "1.IH" "1.prems" have IH: "2 powi (bit_length (n div 2) - 1) \<le> (of_int (n div 2) :: rat)"
      "of_int (n div 2) < (2 :: rat) powi bit_length (n div 2)"
      by simp_all
    obtain k where k: "bit_length (n div 2) = int k"
      using nonneg_int_cases [OF bit_length_nonneg] .
    have "of_int (n div 2) < (of_int (2 ^ k) :: rat)"
      using IH(2) k by simp
    then have up: "n div 2 + 1 \<le> 2 ^ k"
      by (simp only: of_int_less_iff add1_zle_eq)
    have A: "2 powi bit_length (n div 2) \<le> (of_int n :: rat)"
    proof -
      have "(2 :: rat) powi bit_length (n div 2) = 2 * 2 powi (bit_length (n div 2) - 1)"
        by (simp add: power_int_diff)
      also have "\<dots> \<le> 2 * of_int (n div 2)" using IH(1) by simp
      also have "\<dots> = of_int (2 * (n div 2))" by simp
      also have "\<dots> \<le> of_int n" by (subst of_int_le_iff) linarith
      finally show ?thesis .
    qed
    have "of_int n < (of_int (2 * 2 ^ k) :: rat)"
      by (subst of_int_less_iff) (use up in linarith)
    then have B: "of_int n < (2 :: rat) powi (1 + bit_length (n div 2))"
      by (simp add: k power_int_add)
    from A B show ?thesis by (simp add: eq)
  qed
qed

lemma ilog2_bounds:
  assumes "0 < x"
  shows "2 powi ilog2 x \<le> x" "x < 2 powi (ilog2 x + 1)"
proof -
  obtain n d where nd: "quotient_of x = (n, d)" by (cases "quotient_of x")
  then have x: "x = of_int n / of_int d" and d: "0 < d"
    by (simp_all add: quotient_of_div quotient_of_denom_pos)
  with assms have n: "0 < n" by (simp add: zero_less_divide_iff)
  define a where "a = bit_length n"
  define b where "b = bit_length d"
  have N: "2 powi (a - 1) \<le> (of_int n :: rat)" "of_int n < (2 :: rat) powi a"
    using bit_length_bounds [OF n] by (simp_all add: a_def)
  have D: "2 powi (b - 1) \<le> (of_int d :: rat)" "of_int d < (2 :: rat) powi b"
    using bit_length_bounds [OF d] by (simp_all add: b_def)
  have lo: "2 powi (a - b - 1) \<le> x"
  proof -
    have "(2 :: rat) powi (a - b - 1) = 2 powi (a - 1) / 2 powi b"
      by (simp add: power_int_diff)
    also have "\<dots> \<le> of_int n / of_int d"
      using N(1) D(2) d n by (intro frac_le) (auto simp: less_imp_le)
    finally show ?thesis by (simp add: x)
  qed
  have hi: "x < 2 powi (a - b + 1)"
  proof -
    have "x < 2 powi a / 2 powi (b - 1)"
      unfolding x using N(2) D(1) d n by (intro frac_less) auto
    also have "\<dots> = (2 :: rat) powi (a - b + 1)" by (simp add: power_int_diff power_int_add)
    finally show ?thesis .
  qed
  have e: "ilog2 x = (if 2 powi (a - b) \<le> x then a - b else a - b - 1)"
    by (simp add: ilog2_def nd Let_def a_def b_def)
  show "2 powi ilog2 x \<le> x" using lo by (simp add: e)
  show "x < 2 powi (ilog2 x + 1)" using hi by (simp add: e)
qed

lemma powi2_le_iff [simp]: "(2 :: rat) powi i \<le> 2 powi j \<longleftrightarrow> i \<le> j"
  by (metis linorder_not_less one_less_numeral_iff power_int_strict_increasing power_int_increasing
      less_imp_le semiring_norm(76) order.refl)

lemma powi2_less_iff [simp]: "(2 :: rat) powi i < 2 powi j \<longleftrightarrow> i < j"
  by (meson linorder_not_less powi2_le_iff)

lemma ilog2_less_iff: "0 < x \<Longrightarrow> ilog2 x < e \<longleftrightarrow> x < 2 powi e"
  using ilog2_bounds [of x]
  by (metis linorder_not_le order_less_le_trans order_le_less_trans powi2_le_iff zle_add1_eq_le
      powi2_less_iff)

lemma ilog2_mono: "0 < x \<Longrightarrow> x \<le> y \<Longrightarrow> ilog2 x \<le> ilog2 y"
  by (metis ilog2_bounds(2) ilog2_less_iff leD linorder_le_less_linear order.strict_trans1
      order_less_le_trans zle_add1_eq_le)

section \<open>Rounding to a format\<close>

text \<open>
  A binary format has \<open>p\<close> significand bits and a least exponent \<open>emin\<close> of the last bit.
\<close>

definition ulp_exp :: "nat \<Rightarrow> int \<Rightarrow> rat \<Rightarrow> int" where
  "ulp_exp p emin x = max (ilog2 \<bar>x\<bar> - (int p - 1)) emin"

definition rnd :: "nat \<Rightarrow> int \<Rightarrow> rat \<Rightarrow> rat" where
  "rnd p emin x =
     (if x = 0 then 0
      else let u = 2 powi ulp_exp p emin x in u * of_int (round_half_even (x / u)))"

lemma rnd_zero [simp]: "rnd p emin 0 = 0"
  by (simp add: rnd_def)

lemma rnd_minus: "rnd p emin (- x) = - rnd p emin x"
  by (simp add: rnd_def ulp_exp_def Let_def round_half_even_minus)

text \<open>Rounding does not cross a multiple of the unit in the last place.\<close>

lemma grid_multiple:
  assumes "a \<le> e"
  obtains m where "of_int k * (2 :: rat) powi e = 2 powi a * of_int m"
proof
  have "(2 :: rat) powi e = 2 powi a * 2 powi (e - a)"
    by (simp flip: power_int_add)
  also have "\<dots> = 2 powi a * of_int (2 ^ nat (e - a))"
    using assms by (simp add: power_int_def)
  finally show "of_int k * (2 :: rat) powi e = 2 powi a * of_int (k * 2 ^ nat (e - a))"
    by simp
qed

lemma rnd_le_grid:
  assumes "0 < x" and "x \<le> of_int k * 2 powi e" and "ulp_exp p emin x \<le> e"
  shows "rnd p emin x \<le> of_int k * 2 powi e"
proof -
  define u :: rat where "u = 2 powi ulp_exp p emin x"
  have u: "0 < u" by (simp add: u_def)
  obtain m where grid: "of_int k * 2 powi e = u * of_int m"
    unfolding u_def using grid_multiple [OF assms(3)] .
  with assms(2) u have "x / u \<le> of_int m" by (simp add: divide_le_eq mult.commute)
  then have "round_half_even (x / u) \<le> m" by (rule round_half_even_le_of_int)
  then have "u * of_int (round_half_even (x / u)) \<le> u * of_int m"
    using u by (simp only: mult_le_cancel_left_pos of_int_le_iff)
  with assms(1) show ?thesis unfolding grid by (simp add: rnd_def Let_def u_def)
qed

lemma rnd_ge_grid:
  assumes "0 < x" and "of_int k * 2 powi e \<le> x" and "ulp_exp p emin x \<le> e"
  shows "of_int k * 2 powi e \<le> rnd p emin x"
proof -
  define u :: rat where "u = 2 powi ulp_exp p emin x"
  have u: "0 < u" by (simp add: u_def)
  obtain m where grid: "of_int k * 2 powi e = u * of_int m"
    unfolding u_def using grid_multiple [OF assms(3)] .
  with assms(2) u have "of_int m \<le> x / u" by (simp add: le_divide_eq mult.commute)
  then have "m \<le> round_half_even (x / u)" using round_half_even_mono by (metis round_half_even_of_int)
  then have "u * of_int m \<le> u * of_int (round_half_even (x / u))"
    using u by (simp only: mult_le_cancel_left_pos of_int_le_iff)
  with assms(1) show ?thesis unfolding grid by (simp add: rnd_def Let_def u_def)
qed

lemma rnd_nonneg: "0 \<le> x \<Longrightarrow> 0 \<le> rnd p emin x"
  using rnd_ge_grid [of x 0 "ulp_exp p emin x" p emin] by (cases "x = 0") auto

lemma rnd_mono_pos:
  assumes "0 < p" and "0 < x" and "x \<le> y"
  shows "rnd p emin x \<le> rnd p emin y"
proof (cases "ulp_exp p emin x = ulp_exp p emin y")
  case True
  from assms(3) have "x / 2 powi ulp_exp p emin y \<le> y / 2 powi ulp_exp p emin y"
    by (simp add: divide_right_mono)
  from round_half_even_mono [OF this] True assms show ?thesis
    by (simp add: rnd_def Let_def)
next
  case False
  from assms have y: "0 < y" by simp
  have le: "ilog2 x \<le> ilog2 y" using assms(2,3) by (rule ilog2_mono)
  with False assms(2) y have uy: "ulp_exp p emin y = ilog2 y - (int p - 1)"
    and lt: "ilog2 x < ilog2 y" and ux: "ulp_exp p emin x \<le> ulp_exp p emin y"
    by (auto simp: ulp_exp_def max_def split: if_splits)
  then have uy': "ulp_exp p emin y \<le> ilog2 y" and ux': "ulp_exp p emin x \<le> ilog2 y"
    using assms(1) by linarith+
  have "x \<le> of_int 1 * 2 powi ilog2 y" using lt ilog2_less_iff [OF assms(2)] by simp
  from rnd_le_grid [OF assms(2) this ux'] have "rnd p emin x \<le> 2 powi ilog2 y" by simp
  also have "\<dots> \<le> rnd p emin y"
    using rnd_ge_grid [OF y _ uy', of 1] ilog2_bounds(1) [OF y] by simp
  finally show ?thesis .
qed

lemma rnd_mono:
  assumes "0 < p" and "x \<le> y"
  shows "rnd p emin x \<le> rnd p emin y"
proof -
  consider "0 < x" | "y < 0" | "x \<le> 0" "0 \<le> y" by linarith
  then show ?thesis
  proof cases
    case 1
    with assms show ?thesis by (blast intro: rnd_mono_pos)
  next
    case 2
    with assms have "rnd p emin (- y) \<le> rnd p emin (- x)" by (intro rnd_mono_pos) auto
    then show ?thesis by (simp add: rnd_minus)
  next
    case 3
    with rnd_nonneg [of "- x"] rnd_nonneg [of y] show ?thesis by (simp add: rnd_minus) (metis
      add_increasing2 add.right_neutral order.trans)
  qed
qed

text \<open>Values of the format are the multiples of a power of two with at most \<open>p\<close> bits.\<close>

lemma rnd_exact_pos:
  assumes "0 < k" and "k < 2 ^ p" and "emin \<le> e"
  shows "rnd p emin (of_int k * 2 powi e) = of_int k * 2 powi e"
proof -
  let ?x = "of_int k * (2 :: rat) powi e"
  have x: "0 < ?x" using assms(1) by simp
  have "(of_int k :: rat) < of_int (2 ^ p)" using assms(2) by (simp only: of_int_less_iff)
  then have "?x < 2 powi int p * 2 powi e" by simp
  also have "\<dots> = (2 :: rat) powi (int p + e)" by (simp add: power_int_add)
  finally have "ilog2 ?x < int p + e" using ilog2_less_iff [OF x] by simp
  with assms(3) x have "ulp_exp p emin ?x \<le> e" by (simp add: ulp_exp_def)
  from rnd_le_grid [OF x order.refl this] rnd_ge_grid [OF x order.refl this] show ?thesis by simp
qed

lemma rnd_exact:
  assumes "\<bar>k\<bar> \<le> 2 ^ p" and "emin \<le> e" and "0 < p"
  shows "rnd p emin (of_int k * 2 powi e) = of_int k * 2 powi e"
proof -
  have pos: "rnd p emin (of_int j * 2 powi e) = of_int j * 2 powi e" if "0 < j" "j \<le> 2 ^ p" for j
  proof (cases "j = 2 ^ p")
    case True
    obtain q where q: "p = Suc q" using assms(3) gr0_implies_Suc by blast
    have "of_int j * (2 :: rat) powi e = of_int (2 ^ q) * 2 powi (e + 1)"
      by (simp add: True q power_int_add)
    with rnd_exact_pos [of "2 ^ q" p emin "e + 1"] assms(2) show ?thesis by (simp add: q)
  next
    case False
    with that assms(2) show ?thesis by (intro rnd_exact_pos) auto
  qed
  consider "k = 0" | "0 < k" | "0 < - k" by linarith
  then show ?thesis
  proof cases
    case 3
    with pos [of "- k"] assms(1) show ?thesis by (simp add: rnd_minus)
  qed (use pos assms(1) in auto)
qed

lemma abs_round_half_even_le: "\<bar>x\<bar> \<le> of_int k \<Longrightarrow> \<bar>round_half_even x\<bar> \<le> k"
  using round_half_even_le_of_int [of x k] round_half_even_le_of_int [of "- x" k]
  by (simp add: round_half_even_minus abs_le_iff)

lemma rnd_idem:
  assumes "0 < p"
  shows "rnd p emin (rnd p emin x) = rnd p emin x"
proof (cases "x = 0")
  case False
  define u :: rat where "u = 2 powi ulp_exp p emin x"
  have u: "0 < u" by (simp add: u_def)
  have "\<bar>x\<bar> < 2 powi (ilog2 \<bar>x\<bar> + 1)" using False by (intro ilog2_bounds) simp
  also have "\<dots> \<le> (2 :: rat) powi (int p + ulp_exp p emin x)" by (simp add: ulp_exp_def)
  also have "\<dots> = of_int (2 ^ p) * u" by (simp add: u_def power_int_add)
  finally have "\<bar>x / u\<bar> \<le> of_int (2 ^ p)" using u by (simp add: abs_divide divide_le_eq less_imp_le)
  then have "\<bar>round_half_even (x / u)\<bar> \<le> 2 ^ p" by (rule abs_round_half_even_le)
  moreover have "emin \<le> ulp_exp p emin x" by (simp add: ulp_exp_def)
  ultimately have "rnd p emin (of_int (round_half_even (x / u)) * u) = of_int (round_half_even (x / u)) * u"
    unfolding u_def using assms by (rule rnd_exact)
  moreover have "rnd p emin x = of_int (round_half_even (x / u)) * u"
    using False by (simp add: rnd_def Let_def u_def)
  ultimately show ?thesis by simp
qed simp

text \<open>The rounding error: half a unit in the last place, relative to the value or absolute.\<close>

lemma rnd_error:
  assumes "0 < p"
  shows "\<bar>rnd p emin x - x\<bar> \<le> \<bar>x\<bar> * 2 powi (- int p) + 2 powi (emin - 1)"
proof (cases "x = 0")
  case False
  define u :: rat where "u = 2 powi ulp_exp p emin x"
  have u: "0 < u" by (simp add: u_def)
  have "\<bar>of_int (round_half_even (x / u)) - x / u\<bar> \<le> 1 / 2"
    using round_half_even_bounds [of "x / u"] by linarith
  then have "\<bar>of_int (round_half_even (x / u)) - x / u\<bar> * u \<le> 1 / 2 * u"
    using u by (intro mult_right_mono) auto
  moreover have "\<bar>of_int (round_half_even (x / u)) - x / u\<bar> * u = \<bar>rnd p emin x - x\<bar>"
  proof -
    have "\<bar>of_int (round_half_even (x / u)) - x / u\<bar> * u =
        \<bar>(of_int (round_half_even (x / u)) - x / u) * u\<bar>" using u by (simp add: abs_mult)
    also have "(of_int (round_half_even (x / u)) - x / u) * u = rnd p emin x - x"
      using u False by (simp add: rnd_def Let_def u_def [symmetric] algebra_simps)
    finally show ?thesis .
  qed
  ultimately have err: "\<bar>rnd p emin x - x\<bar> \<le> u / 2" by simp
  have half: "u / 2 = 2 powi (ulp_exp p emin x - 1)" by (simp add: u_def power_int_diff)
  have nn: "0 \<le> \<bar>x\<bar> * 2 powi (- int p)" "(0 :: rat) \<le> 2 powi (emin - 1)" by simp_all
  show ?thesis
  proof (cases "ulp_exp p emin x = emin")
    case True
    with err half have "\<bar>rnd p emin x - x\<bar> \<le> 2 powi (emin - 1)" by simp
    with nn show ?thesis by linarith
  next
    case False
    then have "ulp_exp p emin x = ilog2 \<bar>x\<bar> - int p + 1" by (simp add: ulp_exp_def)
    then have "u / 2 = 2 powi (ilog2 \<bar>x\<bar>) * 2 powi (- int p)"
      using half by (simp flip: power_int_add)
    also have "\<dots> \<le> \<bar>x\<bar> * 2 powi (- int p)"
      using \<open>x \<noteq> 0\<close> by (intro mult_right_mono ilog2_bounds) auto
    finally show ?thesis using err nn by linarith
  qed
qed simp

section \<open>The contract of a rounding mode\<close>

text \<open>
  What the components rely on: rounding is monotone and odd, leaves its own results and the
  integers up to \<open>bound\<close> unchanged, and its error is at most \<open>eps\<close> relative to the
  value plus \<open>eta\<close>.
\<close>

locale rounding =
  fixes fl :: "rat \<Rightarrow> rat" and bound :: int and eps :: rat and eta :: rat
  assumes mono: "x \<le> y \<Longrightarrow> fl x \<le> fl y"
    and odd: "fl (- x) = - fl x"
    and idem: "fl (fl x) = fl x"
    and small_int: "\<bar>k\<bar> \<le> bound \<Longrightarrow> fl (of_int k) = of_int k"
    and err: "\<bar>fl x - x\<bar> \<le> \<bar>x\<bar> * eps + eta"
begin

lemma fl_zero: "fl 0 = 0"
  using odd [of 0] by simp

lemma nonneg: "0 \<le> x \<Longrightarrow> 0 \<le> fl x"
  using mono [of 0 x] by (simp add: fl_zero)

lemma nonpos: "x \<le> 0 \<Longrightarrow> fl x \<le> 0"
  using mono [of x 0] by (simp add: fl_zero)

lemma le_fl: "fl y = y \<Longrightarrow> y \<le> x \<Longrightarrow> y \<le> fl x"
  using mono [of y x] by simp

lemma fl_le: "fl y = y \<Longrightarrow> x \<le> y \<Longrightarrow> fl x \<le> y"
  using mono [of x y] by simp

lemma add_nonneg_grows: "fl x = x \<Longrightarrow> 0 \<le> d \<Longrightarrow> x \<le> fl (x + d)"
  using le_fl [of x "x + d"] by simp

lemma abs_fl: "\<bar>fl x\<bar> = fl \<bar>x\<bar>"
  using nonneg [of x] nonpos [of x] odd [of x] by (cases "0 \<le> x") auto

lemma abs_fl_le: "fl b = b \<Longrightarrow> \<bar>x\<bar> \<le> b \<Longrightarrow> \<bar>fl x\<bar> \<le> b"
  using mono [of "\<bar>x\<bar>" b] by (simp add: abs_fl)

text \<open>The error of rounding an approximation: what was there before, plus what is added.\<close>

lemma err_trans:
  assumes "\<bar>x - y\<bar> \<le> d" and "\<bar>y\<bar> + d \<le> b" and "b * eps + eta \<le> c" and "0 \<le> eps"
  shows "\<bar>fl x - y\<bar> \<le> d + c"
proof -
  have "\<bar>x\<bar> \<le> b" using assms(1,2) by linarith
  then have "\<bar>x\<bar> * eps \<le> b * eps" using assms(4) by (rule mult_right_mono)
  with err [of x] assms(1,3) show ?thesis by linarith
qed

end

section \<open>The two formats of the sources\<close>

abbreviation rnd32 :: "rat \<Rightarrow> rat" where
  "rnd32 \<equiv> rnd 24 (-149)"

abbreviation rnd64 :: "rat \<Rightarrow> rat" where
  "rnd64 \<equiv> rnd 53 (-1074)"

lemma rnd_small_int: "0 < p \<Longrightarrow> emin \<le> 0 \<Longrightarrow> \<bar>k\<bar> \<le> 2 ^ p \<Longrightarrow> rnd p emin (of_int k) = of_int k"
  using rnd_exact [of k p emin 0] by simp

interpretation f32: rounding rnd32 "2 ^ 24" "2 powi (- 24)" "2 powi (- 150)"
  using rnd_error [of 24 "- 149"]
  by unfold_locales (auto intro: rnd_mono rnd_idem rnd_small_int simp: rnd_minus)

interpretation f64: rounding rnd64 "2 ^ 53" "2 powi (- 53)" "2 powi (- 1075)"
  using rnd_error [of 53 "- 1074"]
  by unfold_locales (auto intro: rnd_mono rnd_idem rnd_small_int simp: rnd_minus)

lemma f32_err_trans:
  assumes "\<bar>x - y\<bar> \<le> d" and "\<bar>y\<bar> + d \<le> b" and "d + b / 16777216 + 1 / 1000000000 \<le> e"
  shows "\<bar>rnd32 x - y\<bar> \<le> e"
proof -
  have "b * 2 powi (- 24) + 2 powi (- 150) \<le> b / 16777216 + 1 / 1000000000"
    by (simp add: power_int_def field_simps)
  from f32.err_trans [OF assms(1,2) this] assms(3) show ?thesis by simp
qed

lemma rnd32_half: "\<bar>k\<bar> \<le> 2 ^ 24 \<Longrightarrow> rnd32 (of_int k / 2) = of_int k / 2"
  using rnd_exact [of k 24 "- 149" "- 1"] by (simp add: power_int_minus)

lemma rnd32_numeral [simp]: "(numeral n :: int) \<le> 16777216 \<Longrightarrow> rnd32 (numeral n) = numeral n"
  "(numeral n :: int) \<le> 16777216 \<Longrightarrow> rnd32 (- numeral n) = - numeral n" "rnd32 1 = 1"
  using f32.small_int [of "numeral n"] f32.small_int [of "- numeral n"] f32.small_int [of 1] by simp_all

text \<open>A value of type \<^verbatim>\<open>float\<close>, \<^verbatim>\<open>double\<close>: a rational that its own rounding leaves alone.\<close>

definition is_float :: "rat \<Rightarrow> bool" where
  "is_float x \<longleftrightarrow> rnd32 x = x"

lemma is_float_rnd32 [simp, intro]: "is_float (rnd32 x)"
  by (simp add: is_float_def f32.idem)

lemma is_float_0 [simp, intro]: "is_float 0"
  by (simp add: is_float_def)

lemma is_float_of_int: "\<bar>k\<bar> \<le> 2 ^ 24 \<Longrightarrow> is_float (of_int k)"
  by (simp add: is_float_def f32.small_int)

lemma is_float_uminus [simp]: "is_float (- x) \<longleftrightarrow> is_float x"
  by (simp add: is_float_def f32.odd)

text \<open>The operations on \<^verbatim>\<open>float\<close>. Negation is exact; a division by zero has no finite value.\<close>

definition fadd :: "rat \<Rightarrow> rat \<Rightarrow> rat" where "fadd a b = rnd32 (a + b)"
definition fsub :: "rat \<Rightarrow> rat \<Rightarrow> rat" where "fsub a b = rnd32 (a - b)"
definition fmul :: "rat \<Rightarrow> rat \<Rightarrow> rat" where "fmul a b = rnd32 (a * b)"
definition fdiv :: "rat \<Rightarrow> rat \<Rightarrow> rat option" where
  "fdiv a b = (if b = 0 then None else Some (rnd32 (a / b)))"

text \<open>Division by a constant that is not zero.\<close>

definition fdivc :: "rat \<Rightarrow> rat \<Rightarrow> rat" where "fdivc a b = rnd32 (a / b)"

lemmas fops_defs = fadd_def fsub_def fmul_def fdivc_def

lemma is_float_fops [simp, intro]:
  "is_float (fadd a b)" "is_float (fsub a b)" "is_float (fmul a b)" "is_float (fdivc a b)"
  by (simp_all add: fops_defs)

lemma fadd_commute: "fadd a b = fadd b a"
  by (simp add: fadd_def add.commute)

lemma fmul_commute: "fmul a b = fmul b a"
  by (simp add: fmul_def mult.commute)

lemma fmul_0 [simp]: "fmul 0 a = 0" "fmul a 0 = 0"
  by (simp_all add: fmul_def)

lemma fmul_1 [simp]: "is_float a \<Longrightarrow> fmul 1 a = a" "is_float a \<Longrightarrow> fmul a 1 = a"
  by (simp_all add: fmul_def is_float_def)

lemma fadd_0 [simp]: "is_float a \<Longrightarrow> fadd 0 a = a" "is_float a \<Longrightarrow> fadd a 0 = a"
  by (simp_all add: fadd_def is_float_def)

lemma fsub_self [simp]: "fsub a a = 0"
  by (simp add: fsub_def)

lemma fsub_anti: "fsub a b = - fsub b a"
  using f32.odd [of "b - a"] by (simp add: fsub_def)

text \<open>The sign of a rounded difference is the sign of the difference.\<close>

lemma fsub_less_0_imp: "fsub a b < 0 \<Longrightarrow> a < b"
  using f32.nonneg [of "a - b"] by (fastforce simp: fsub_def)

section \<open>Vectors\<close>

text \<open>The vectors of GLM with \<^verbatim>\<open>float\<close> components; their operators work componentwise.\<close>

datatype vec2 = Vec2 (v2x: rat) (v2y: rat)
datatype vec3 = Vec3 (v3x: rat) (v3y: rat) (v3z: rat)
datatype vec4 = Vec4 (v4x: rat) (v4y: rat) (v4z: rat) (v4w: rat)

instantiation vec2 :: "{plus, minus}"
begin
definition plus_vec2 :: "vec2 \<Rightarrow> vec2 \<Rightarrow> vec2" where
  "a + b = Vec2 (fadd (v2x a) (v2x b)) (fadd (v2y a) (v2y b))"
definition minus_vec2 :: "vec2 \<Rightarrow> vec2 \<Rightarrow> vec2" where
  "a - b = Vec2 (fsub (v2x a) (v2x b)) (fsub (v2y a) (v2y b))"
instance ..
end

instantiation vec3 :: plus
begin
definition plus_vec3 :: "vec3 \<Rightarrow> vec3 \<Rightarrow> vec3" where
  "a + b = Vec3 (fadd (v3x a) (v3x b)) (fadd (v3y a) (v3y b)) (fadd (v3z a) (v3z b))"
instance ..
end

definition scale2 :: "rat \<Rightarrow> vec2 \<Rightarrow> vec2" where
  "scale2 k v = Vec2 (fmul k (v2x v)) (fmul k (v2y v))"

definition scale3 :: "rat \<Rightarrow> vec3 \<Rightarrow> vec3" where
  "scale3 k v = Vec3 (fmul k (v3x v)) (fmul k (v3y v)) (fmul k (v3z v))"

definition is_vec2 :: "vec2 \<Rightarrow> bool" where
  "is_vec2 v \<longleftrightarrow> is_float (v2x v) \<and> is_float (v2y v)"

lemma vec2_add_sel [simp]: "v2x (a + b) = fadd (v2x a) (v2x b)" "v2y (a + b) = fadd (v2y a) (v2y b)"
  by (simp_all add: plus_vec2_def)

lemma vec2_sub_sel [simp]: "v2x (a - b) = fsub (v2x a) (v2x b)" "v2y (a - b) = fsub (v2y a) (v2y b)"
  by (simp_all add: minus_vec2_def)

lemma scale2_sel [simp]: "v2x (scale2 k v) = fmul k (v2x v)" "v2y (scale2 k v) = fmul k (v2y v)"
  by (simp_all add: scale2_def)

lemma is_vec2_ops [simp, intro]: "is_vec2 (a + b)" "is_vec2 (a - b)" "is_vec2 (scale2 k a)"
  by (simp_all add: is_vec2_def)

lemma vec2_add_commute: "(a :: vec2) + b = b + a"
  by (simp add: plus_vec2_def fadd_commute)

end
