(* ===== verification/Offset.thy ===== *)
theory Offset
  imports Float_Model
begin

unbundle bit_operations_syntax

text \<open>
  Hexagonal coordinates (\<^verbatim>\<open>src/map/offset.hpp\<close>): the axial offset of a cell with its hash
  and distance, the six directions, and the conversions between world positions and cells.
  An \<^verbatim>\<open>int32_t\<close> is a 32-bit word read with \<^const>\<open>sint\<close>; sums wrap around.
\<close>

section \<open>Definitions\<close>

datatype offset = Offset (off_q: int32) (off_r: int32)

definition off_s :: "offset \<Rightarrow> int32" where
  "off_s p = - off_q p - off_r p"

text \<open>
  The union lays \<^verbatim>\<open>high = r\<close> at the lower address and \<^verbatim>\<open>low = q\<close> at the upper one; read as
  one little-endian 64-bit integer, \<open>q\<close> is the upper half.
\<close>

definition offset_hash :: "offset \<Rightarrow> uint64" where
  "offset_hash p = push_bit 32 (ucast (off_q p)) OR ucast (off_r p)"

definition abs32 :: "int32 \<Rightarrow> int32" where
  "abs32 x = (if sint x < 0 then - x else x)"

definition max32 :: "int32 \<Rightarrow> int32 \<Rightarrow> int32" where
  "max32 a b = (if sint a < sint b then b else a)"

definition distance :: "offset \<Rightarrow> offset \<Rightarrow> int32" where
  "distance a b =
     (let dq = abs32 (off_q a - off_q b);
          dr = abs32 (off_r a - off_r b);
          ds = abs32 (off_s a - off_s b)
      in max32 (max32 dq dr) ds)"

definition cellSize_x :: rat where "cellSize_x = 80"
definition cellSize_y :: rat where "cellSize_y = 80"

text \<open>\<^verbatim>\<open>std::sqrt(3.0f)\<close>: the \<^verbatim>\<open>float\<close> nearest to the square root of three.\<close>

definition sqrt3f :: rat where "sqrt3f = 14529495 / 8388608"

text \<open>The conversion of an \<^verbatim>\<open>int32_t\<close> to \<^verbatim>\<open>float\<close>.\<close>

definition float_of_int32 :: "int32 \<Rightarrow> rat" where
  "float_of_int32 k = rnd32 (of_int (sint k))"

definition center :: "offset \<Rightarrow> vec2" where
  "center p =
     Vec2 (fmul (fdivc (fmul cellSize_x 3) 2) (float_of_int32 (off_q p)))
          (fmul (fmul cellSize_y sqrt3f)
             (fadd (float_of_int32 (off_r p)) (fdivc (float_of_int32 (off_q p)) 2)))"

text \<open>\<^verbatim>\<open>round\<close> of C: to the nearest integer, halves away from zero.\<close>

definition c_round :: "rat \<Rightarrow> rat" where
  "c_round x = of_int (if 0 \<le> x then \<lfloor>x + 1 / 2\<rfloor> else \<lceil>x - 1 / 2\<rceil>)"

text \<open>
  \<^verbatim>\<open>static_cast<int>\<close> of a \<^verbatim>\<open>float\<close>: truncation towards zero, undefined when the result
  is not an \<^verbatim>\<open>int\<close>.
\<close>

definition int_of_float :: "rat \<Rightarrow> int32 option" where
  "int_of_float x =
     (let k = (if 0 \<le> x then \<lfloor>x\<rfloor> else \<lceil>x\<rceil>)
      in if - (2 ^ 31) \<le> k \<and> k < 2 ^ 31 then Some (word_of_int k) else None)"

definition offsetOf :: "rat \<Rightarrow> rat \<Rightarrow> offset option" where
  "offsetOf x y =
     (let q = fdivc (fdivc (fmul x 2) 3) cellSize_x;
          r = fdivc (fadd (fdivc (- x) 3) (fmul (fdivc sqrt3f 3) y)) cellSize_y;
          s = fsub (- q) r
      in case (int_of_float (c_round q), int_of_float (c_round r), int_of_float (c_round s)) of
           (Some q_int, Some r_int, Some s_int) \<Rightarrow>
             (let q_diff = \<bar>fsub (float_of_int32 q_int) q\<bar>;
                  r_diff = \<bar>fsub (float_of_int32 r_int) r\<bar>;
                  s_diff = \<bar>fsub (float_of_int32 s_int) s\<bar>
              in if r_diff < q_diff \<and> s_diff < q_diff then Some (Offset (- r_int - s_int) r_int)
                 else if s_diff < r_diff then Some (Offset q_int (- q_int - s_int))
                 else Some (Offset q_int r_int))
         | _ \<Rightarrow> None)"

text \<open>Directions, and the index of a direction.\<close>

record direction =
  dir_q :: int32
  dir_r :: int32

definition directions :: "direction list" where
  "directions =
     [\<lparr>dir_q = 1, dir_r = -1\<rparr>, \<lparr>dir_q = 1, dir_r = 0\<rparr>, \<lparr>dir_q = 0, dir_r = 1\<rparr>,
      \<lparr>dir_q = -1, dir_r = 1\<rparr>, \<lparr>dir_q = -1, dir_r = 0\<rparr>, \<lparr>dir_q = 0, dir_r = -1\<rparr>]"

definition MAX_DIR_IDX :: int where "MAX_DIR_IDX = 6"

definition directionIdxs :: "int32 \<Rightarrow> int32 \<Rightarrow> int" where
  "directionIdxs q r =
     (if q = 1 \<and> r = -1 then 0 else if q = 1 \<and> r = 0 then 1 else if q = 0 \<and> r = 1 then 2
      else if q = -1 \<and> r = 1 then 3 else if q = -1 \<and> r = 0 then 4 else if q = 0 \<and> r = -1 then 5
      else -1)"

section \<open>Hash and distance\<close>

lemma offset_hash_high: "ucast (drop_bit 32 (offset_hash p)) = off_q p"
  by (rule bit_word_eqI) (auto simp: offset_hash_def bit_simps dest: bit_imp_le_length)

lemma offset_hash_low: "ucast (offset_hash p) = off_r p"
  by (rule bit_word_eqI) (auto simp: offset_hash_def bit_simps)

text \<open>
  The hash of an offset determines it: different offsets have different hashes, over
  the whole range of both coordinates, and the two halves of the hash are \<open>q\<close> and \<open>r\<close>.
\<close>

theorem offset_hash_inj:
  "inj offset_hash \<and> ucast (drop_bit 32 (offset_hash p)) = off_q p \<and> ucast (offset_hash p) = off_r p"
proof -
  have "inj offset_hash"
    by (rule injI) (metis offset.expand offset_hash_high offset_hash_low)
  then show ?thesis by (simp add: offset_hash_high offset_hash_low)
qed

text \<open>The exact distance on the hexagonal grid, over the integers.\<close>

definition hexnorm :: "int \<Rightarrow> int \<Rightarrow> int" where
  "hexnorm dq dr = max (max \<bar>dq\<bar> \<bar>dr\<bar>) \<bar>dq + dr\<bar>"

definition small_offset :: "offset \<Rightarrow> bool" where
  "small_offset p \<longleftrightarrow> \<bar>sint (off_q p)\<bar> < 2 ^ 28 \<and> \<bar>sint (off_r p)\<bar> < 2 ^ 28"

lemma small_offsetD:
  assumes "small_offset p"
  shows "- 268435456 < sint (off_q p)" "sint (off_q p) < 268435456"
    "- 268435456 < sint (off_r p)" "sint (off_r p) < 268435456"
  using assms by (auto simp: small_offset_def abs_less_iff)

lemma sint_word_of_int32:
  "- 2147483648 \<le> k \<Longrightarrow> k < 2147483648 \<Longrightarrow> sint (word_of_int k :: int32) = k"
  using signed_take_bit_int_eq_self [of 31 k] by (simp add: sint_sbintrunc')

lemma sint_diff32:
  fixes a b :: int32
  assumes "- 2147483648 \<le> sint a - sint b" and "sint a - sint b < 2147483648"
  shows "sint (a - b) = sint a - sint b"
  using signed_take_bit_int_eq_self [of 31 "sint a - sint b"] assms
  by (simp add: sint_word_diff)

lemma sint_add32:
  fixes a b :: int32
  assumes "- 2147483648 \<le> sint a + sint b" and "sint a + sint b < 2147483648"
  shows "sint (a + b) = sint a + sint b"
  using signed_take_bit_int_eq_self [of 31 "sint a + sint b"] assms
  by (simp add: sint_word_add)

lemma sint_eq_iff: "sint a = sint b \<longleftrightarrow> a = (b :: 'a :: len word)"
  by (metis uint_sint word_uint_eq_iff)

lemma sint_ge32: "- 2147483648 \<le> sint (a :: int32)"
  using sint_range_size [of a] by (simp add: word_size)

lemma sint_minus32: "- 2147483648 < sint a \<Longrightarrow> sint (- a :: int32) = - sint a"
  using sint_diff32 [of 0 a] sint_ge32 [of a] sint_lt [of a] by simp

lemma sint_abs32: "- 2147483648 < sint a \<Longrightarrow> sint (abs32 a) = \<bar>sint a\<bar>"
  by (simp add: abs32_def sint_minus32)

lemma sint_max32: "sint (max32 a b) = max (sint a) (sint b)"
  by (simp add: max32_def)

lemma sint_off_s:
  assumes "small_offset p"
  shows "sint (off_s p) = - sint (off_q p) - sint (off_r p)"
proof -
  note b = small_offsetD [OF assms]
  have q: "sint (- off_q p) = - sint (off_q p)" using b by (intro sint_minus32) linarith
  have "sint (- off_q p - off_r p) = sint (- off_q p) - sint (off_r p)"
    using b by (intro sint_diff32) (simp_all add: q)
  then show ?thesis by (simp add: off_s_def q)
qed

lemma sint_distance:
  assumes "small_offset a" and "small_offset b"
  shows "sint (distance a b) = hexnorm (sint (off_q a) - sint (off_q b)) (sint (off_r a) - sint (off_r b))"
proof -
  note ab = small_offsetD [OF assms(1)] small_offsetD [OF assms(2)]
  note ss = sint_off_s [OF assms(1)] sint_off_s [OF assms(2)]
  have q: "sint (off_q a - off_q b) = sint (off_q a) - sint (off_q b)"
    using ab by (intro sint_diff32) linarith+
  have r: "sint (off_r a - off_r b) = sint (off_r a) - sint (off_r b)"
    using ab by (intro sint_diff32) linarith+
  have s: "sint (off_s a - off_s b) = sint (off_s a) - sint (off_s b)"
    using ab ss by (intro sint_diff32) linarith+
  have Q: "sint (abs32 (off_q a - off_q b)) = \<bar>sint (off_q a) - sint (off_q b)\<bar>"
    using ab q sint_abs32 [of "off_q a - off_q b"] by simp
  have R: "sint (abs32 (off_r a - off_r b)) = \<bar>sint (off_r a) - sint (off_r b)\<bar>"
    using ab r sint_abs32 [of "off_r a - off_r b"] by simp
  have "sint (abs32 (off_s a - off_s b)) = \<bar>sint (off_s a) - sint (off_s b)\<bar>"
    using ab s ss sint_abs32 [of "off_s a - off_s b"] by simp
  also have "\<dots> = \<bar>(sint (off_q a) - sint (off_q b)) + (sint (off_r a) - sint (off_r b))\<bar>"
    using ss by linarith
  finally show ?thesis by (simp only: distance_def Let_def sint_max32 Q R hexnorm_def)
qed

lemma hexnorm_eq_0: "hexnorm a b = 0 \<longleftrightarrow> a = 0 \<and> b = 0"
  by (auto simp: hexnorm_def max_def split: if_splits)

lemma hexnorm_le_iff: "hexnorm a b \<le> n \<longleftrightarrow> \<bar>a\<bar> \<le> n \<and> \<bar>b\<bar> \<le> n \<and> \<bar>a + b\<bar> \<le> n"
  by (simp add: hexnorm_def)

lemma hexnorm_ge: "\<bar>a\<bar> \<le> hexnorm a b" "\<bar>b\<bar> \<le> hexnorm a b" "\<bar>a + b\<bar> \<le> hexnorm a b"
  using hexnorm_le_iff [of a b "hexnorm a b"] by auto

lemma hexnorm_minus: "hexnorm (- a) (- b) = hexnorm a b"
proof -
  have "\<bar>- a - b\<bar> = \<bar>a + b\<bar>" by linarith
  then show ?thesis by (simp add: hexnorm_def)
qed

lemma hexnorm_triangle: "hexnorm (a + c) (b + d) \<le> hexnorm a b + hexnorm c d"
  unfolding hexnorm_le_iff
  using hexnorm_ge(1) [of a b] hexnorm_ge(2) [of b a] hexnorm_ge(3) [of a b]
    hexnorm_ge(1) [of c d] hexnorm_ge(2) [of d c] hexnorm_ge(3) [of c d]
  by linarith

text \<open>
  On offsets whose coordinates are below \<open>2^28\<close> in absolute value (so that no
  difference overflows), \<^verbatim>\<open>Offset::distance\<close> is the hexagonal distance and a metric: zero
  exactly on equal offsets, symmetric, and subject to the triangle inequality.
\<close>

theorem distance_metric:
  assumes "small_offset a" and "small_offset b" and "small_offset c"
  shows "sint (distance a b) = hexnorm (sint (off_q a) - sint (off_q b)) (sint (off_r a) - sint (off_r b))
    \<and> (sint (distance a b) = 0 \<longleftrightarrow> a = b)
    \<and> distance a b = distance b a
    \<and> sint (distance a c) \<le> sint (distance a b) + sint (distance b c)"
proof (intro conjI)
  note d = sint_distance [OF assms(1,2)] sint_distance [OF assms(2,1)]
    sint_distance [OF assms(1,3)] sint_distance [OF assms(2,3)]
  show "sint (distance a b) = hexnorm (sint (off_q a) - sint (off_q b)) (sint (off_r a) - sint (off_r b))"
    by (rule d)
  show "sint (distance a b) = 0 \<longleftrightarrow> a = b"
    by (auto simp: d hexnorm_eq_0 sint_eq_iff intro!: offset.expand)
  have "sint (distance a b) = sint (distance b a)"
    using hexnorm_minus [of "sint (off_q a) - sint (off_q b)" "sint (off_r a) - sint (off_r b)"]
    by (simp add: d)
  then show "distance a b = distance b a" by (simp only: sint_eq_iff)
  show "sint (distance a c) \<le> sint (distance a b) + sint (distance b c)"
    using hexnorm_triangle [of "sint (off_q a) - sint (off_q b)" "sint (off_q b) - sint (off_q c)"
        "sint (off_r a) - sint (off_r b)" "sint (off_r b) - sint (off_r c)"]
    by (simp add: d)
qed

theorem distance_metric_witness:
  "sint (distance (Offset 3 (-1)) (Offset 0 1)) \<le>
     sint (distance (Offset 3 (-1)) (Offset 2 2)) + sint (distance (Offset 2 2) (Offset 0 1))
   \<and> sint (distance (Offset 3 (-1)) (Offset 2 2)) = 3"
proof -
  have small: "small_offset (Offset 3 (-1))" "small_offset (Offset 2 2)" "small_offset (Offset 0 1)"
    by (simp_all add: small_offset_def)
  show ?thesis
    using distance_metric [OF small] by (intro conjI) (blast, auto simp: hexnorm_def)
qed

section \<open>Directions\<close>

text \<open>
  \<^verbatim>\<open>directionIdxs\<close> inverts the table of directions: it maps the \<open>i\<close>-th direction to
  \<open>i\<close>, every other pair to \<open>-1\<close>, and opposite directions are three positions apart.
\<close>

theorem directionIdxs_inverse:
  "(\<forall>i < length directions. directionIdxs (dir_q (directions ! i)) (dir_r (directions ! i)) = int i)
   \<and> (directionIdxs q r = - 1 \<longleftrightarrow> (\<forall>d \<in> set directions. (dir_q d, dir_r d) \<noteq> (q, r)))
   \<and> (\<forall>i < 3. dir_q (directions ! (i + 3)) = - dir_q (directions ! i)
            \<and> dir_r (directions ! (i + 3)) = - dir_r (directions ! i))"
proof (intro conjI allI impI)
  fix i assume "i < length directions"
  then have "i \<in> {0, 1, 2, 3, 4, 5}" by (auto simp: directions_def)
  then show "directionIdxs (dir_q (directions ! i)) (dir_r (directions ! i)) = int i"
    by (auto simp: directions_def directionIdxs_def)
next
  show "directionIdxs q r = - 1 \<longleftrightarrow> (\<forall>d \<in> set directions. (dir_q d, dir_r d) \<noteq> (q, r))"
    by (auto simp: directions_def directionIdxs_def)
next
  fix i :: nat assume "i < 3"
  then have "i \<in> {0, 1, 2}" by auto
  then show "dir_q (directions ! (i + 3)) = - dir_q (directions ! i)"
    and "dir_r (directions ! (i + 3)) = - dir_r (directions ! i)"
    by (auto simp: directions_def)
qed

theorem directionIdxs_inverse_witness:
  "directionIdxs (dir_q (directions ! 4)) (dir_r (directions ! 4)) = 4
   \<and> directionIdxs 2 0 = - 1 \<and> dir_q (directions ! 4) = - dir_q (directions ! 1)"
proof -
  note d = directionIdxs_inverse [of 2 0]
  have "directionIdxs (dir_q (directions ! 4)) (dir_r (directions ! 4)) = int 4"
    by (rule d [THEN conjunct1, rule_format]) (simp add: directions_def)
  moreover have "dir_q (directions ! (1 + 3)) = - dir_q (directions ! 1)"
    by (rule d [THEN conjunct2, THEN conjunct2, rule_format, THEN conjunct1]) simp
  moreover have "directionIdxs 2 0 = - 1"
    by (rule d [THEN conjunct2, THEN conjunct1, THEN iffD2]) (simp add: directions_def)
  ultimately show ?thesis by simp
qed

section \<open>Positions and cells\<close>

lemma sqrt3f_nearest:
  "is_float sqrt3f" "(sqrt3f - 1 / 2 ^ 24) ^ 2 < 3" "3 < (sqrt3f + 1 / 2 ^ 24) ^ 2"
proof -
  have "sqrt3f = of_int 14529495 * 2 powi (- 23)" by (simp add: sqrt3f_def power_int_minus)
  with rnd_exact [of 14529495 24 "- 149" "- 23"] show "is_float sqrt3f"
    by (simp add: is_float_def sqrt3f_def power_int_minus)
qed (simp_all add: sqrt3f_def power2_eq_square)

lemma c_round_near: "\<bar>x - of_int k\<bar> < 1 / 2 \<Longrightarrow> c_round x = of_int k"
  unfolding c_round_def abs_less_iff by (auto simp: floor_eq_iff ceiling_eq_iff)

lemma int_of_float_of_int:
  "- 2147483648 \<le> k \<Longrightarrow> k < 2147483648 \<Longrightarrow> int_of_float (of_int k) = Some (word_of_int k)"
  by (simp add: int_of_float_def)

text \<open>The constants of both conversions, as the compiler folds them.\<close>

lemma center_constants:
  "fdivc (fmul cellSize_x 3) 2 = 120" "fmul cellSize_y sqrt3f = 9080934 / 65536"
  "fdivc sqrt3f 3 = 4843165 / 8388608"
  unfolding fops_defs cellSize_x_def cellSize_y_def sqrt3f_def by code_simp+

text \<open>The world position of a center gives back the fractional row, up to a small error.\<close>

lemma center_row_error:
  fixes Q R y :: rat
  assumes QR: "\<bar>Q\<bar> \<le> 65536" "\<bar>R\<bar> \<le> 65536"
    and y: "y = fmul (9080934 / 65536) (R + Q / 2)"
  shows "\<bar>fdivc (fadd (- 40 * Q) (fmul (4843165 / 8388608) y)) 80 - R\<bar> \<le> 1 / 12"
proof -
  define h where "h = R + Q / 2"
  from QR have h: "\<bar>h\<bar> \<le> 98304" unfolding h_def by linarith
  have y1: "\<bar>y - 9080934 / 65536 * h\<bar> \<le> 1"
    unfolding y fmul_def h_def [symmetric] using h
    by (intro f32_err_trans [where d = 0 and b = 13622000]) linarith+
  have z1: "\<bar>fmul (4843165 / 8388608) y - 80 * h\<bar> \<le> 4"
    unfolding fmul_def using h y1 by (intro f32_err_trans [where d = 3 and b = 7864330]) linarith+
  have t1: "\<bar>fadd (- 40 * Q) (fmul (4843165 / 8388608) y) - 80 * R\<bar> \<le> 5"
    unfolding fadd_def
  proof (rule f32_err_trans [where d = 4 and b = 5242884])
    have "- 40 * Q + fmul (4843165 / 8388608) y - 80 * R = fmul (4843165 / 8388608) y - 80 * h"
      by (simp add: h_def)
    with z1 show "\<bar>- 40 * Q + fmul (4843165 / 8388608) y - 80 * R\<bar> \<le> 4" by (simp only:)
    show "\<bar>80 * R\<bar> + 4 \<le> 5242884" using QR(2) by (simp add: abs_mult)
  qed simp
  show ?thesis
    unfolding fdivc_def using QR t1 by (intro f32_err_trans [where d = "1/16" and b = 65537]) linarith+
qed

lemma center_col_error:
  fixes Q R r :: rat
  assumes "\<bar>Q\<bar> \<le> 65536" and "\<bar>R\<bar> \<le> 65536" and "\<bar>r - R\<bar> \<le> 1 / 12"
  shows "\<bar>fsub (- Q) r - (- Q - R)\<bar> \<le> 1 / 8"
  unfolding fsub_def using assms
  by (intro f32_err_trans [where d = "1/12" and b = 131073]) linarith+

lemma abs_of_int_le: "\<bar>k\<bar> \<le> numeral n \<Longrightarrow> \<bar>of_int k :: rat\<bar> \<le> numeral n"
  by (metis of_int_abs of_int_le_iff of_int_numeral)

lemma float_of_int32_small: "\<bar>sint k\<bar> \<le> 65536 \<Longrightarrow> float_of_int32 k = of_int (sint k)"
  unfolding float_of_int32_def by (rule f32.small_int) simp

text \<open>Both coordinates of the center of a cell near the origin.\<close>

lemma center_small:
  assumes "\<bar>sint (off_q p)\<bar> \<le> 65536" and "\<bar>sint (off_r p)\<bar> \<le> 65536"
  shows "center p = Vec2 (120 * of_int (sint (off_q p)))
    (fmul (9080934 / 65536) (of_int (sint (off_r p)) + of_int (sint (off_q p)) / 2))"
proof -
  let ?Q = "sint (off_q p)" and ?R = "sint (off_r p)"
  have x: "fmul 120 (of_int ?Q) = 120 * of_int ?Q"
    using f32.small_int [of "120 * ?Q"] assms(1) by (simp add: fmul_def)
  have half: "fdivc (of_int ?Q) 2 = of_int ?Q / 2"
    using rnd32_half [of ?Q] assms(1) by (simp add: fdivc_def)
  have "of_int ?R + of_int ?Q / (2 :: rat) = of_int (2 * ?R + ?Q) / 2" by simp
  moreover have "\<bar>2 * ?R + ?Q\<bar> \<le> 2 ^ 24" using assms by simp
  ultimately have "fadd (of_int ?R) (of_int ?Q / 2) = of_int ?R + of_int ?Q / 2"
    unfolding fadd_def by (metis rnd32_half)
  then show ?thesis
    by (simp only: center_def center_constants float_of_int32_small [OF assms(1)]
        float_of_int32_small [OF assms(2)] x half)
qed

text \<open>
  C27. The cell of the center of a cell is that cell: for both coordinates up to \<open>2^16\<close> in
  absolute value, \<^verbatim>\<open>offsetOf\<close> applied to \<^verbatim>\<open>center()\<close> returns the offset, with every
  \<^verbatim>\<open>float\<close> operation of both functions rounded.
\<close>

theorem offsetOf_center:
  assumes "\<bar>sint (off_q p)\<bar> \<le> 65536" and "\<bar>sint (off_r p)\<bar> \<le> 65536"
  shows "offsetOf (v2x (center p)) (v2y (center p)) = Some p"
proof -
  let ?Q = "sint (off_q p)" and ?R = "sint (off_r p)"
  let ?y = "fmul (9080934 / 65536) (of_int ?R + of_int ?Q / 2)"
  define r where "r = fdivc (fadd (- 40 * of_int ?Q) (fmul (4843165 / 8388608) ?y)) 80"
  define s where "s = fsub (- of_int ?Q) r"
  note B = abs_of_int_le [OF assms(1)] abs_of_int_le [OF assms(2)]
  have q: "fdivc (fdivc (fmul (120 * of_int ?Q) 2) 3) 80 = of_int ?Q"
  proof -
    have "fmul (120 * of_int ?Q) 2 = of_int (240 * ?Q)"
      using f32.small_int [of "240 * ?Q"] assms(1) by (simp add: fmul_def)
    moreover have "fdivc (of_int (240 * ?Q)) 3 = of_int (80 * ?Q)"
      using f32.small_int [of "80 * ?Q"] assms(1) by (simp add: fdivc_def)
    moreover have "fdivc (of_int (80 * ?Q)) 80 = of_int ?Q"
      using f32.small_int [of ?Q] assms(1) by (simp add: fdivc_def)
    ultimately show ?thesis by simp
  qed
  have x3: "fdivc (- (120 * of_int ?Q)) 3 = - 40 * of_int ?Q"
    using f32.small_int [of "- 40 * ?Q"] assms(1) by (simp add: fdivc_def)
  have r_near: "\<bar>r - of_int ?R\<bar> \<le> 1 / 12"
    unfolding r_def by (rule center_row_error [OF B refl])
  have s_near: "\<bar>s - (- of_int ?Q - of_int ?R)\<bar> \<le> 1 / 8"
    unfolding s_def by (rule center_col_error [OF B r_near])
  have cr: "c_round r = of_int ?R" using r_near by (intro c_round_near) simp
  have cs: "c_round s = of_int (- ?Q - ?R)" using s_near by (intro c_round_near) simp
  have cq: "c_round (of_int ?Q) = of_int ?Q" by (rule c_round_near) simp
  have ints: "int_of_float (of_int ?Q) = Some (off_q p)" "int_of_float (of_int ?R) = Some (off_r p)"
    "int_of_float (of_int (- ?Q - ?R)) = Some (- off_q p - off_r p)"
    using assms by (subst int_of_float_of_int; simp)+
  have "fsub (float_of_int32 (off_q p)) (of_int ?Q) = 0"
    using assms(1) by (simp add: float_of_int32_small)
  then show ?thesis
    unfolding offsetOf_def center_small [OF assms] vec2.sel center_constants
      cellSize_x_def cellSize_y_def Let_def x3 q r_def [symmetric] s_def [symmetric] cr cs cq ints
    by (simp del: of_int_sint)
qed

theorem offsetOf_center_witness:
  "offsetOf (v2x (center (Offset 7 (-3)))) (v2y (center (Offset 7 (-3)))) = Some (Offset 7 (-3))"
  by (rule offsetOf_center) simp_all

end
