(* ===== verification/Hex_Grid.thy ===== *)
theory Hex_Grid
  imports Offset
begin

text \<open>
  Walks over the hexagonal grid: \<^verbatim>\<open>Cell::ring\<close> and \<^verbatim>\<open>Cell::inRadius\<close> (\<^verbatim>\<open>src/map/cell.cpp\<close>)
  over any lookup \<open>get\<close>, the six siblings and the three far neighbours that
  \<^verbatim>\<open>Map::getSiblings\<close> and \<^verbatim>\<open>Map::getCellsExcluding\<close> visit (\<^verbatim>\<open>src/map/map.cpp\<close>).
\<close>

section \<open>Definitions\<close>

text \<open>The state of the nested loops of \<^verbatim>\<open>ring\<close>: \<open>q\<close>, \<open>r\<close>, \<open>cube\<close> and \<open>results\<close>.\<close>

type_synonym 'c walk = "int32 \<times> int32 \<times> 'c \<times> 'c list"

fun ring_side :: "(int32 \<Rightarrow> int32 \<Rightarrow> 'c) \<Rightarrow> direction \<Rightarrow> nat \<Rightarrow> 'c walk \<Rightarrow> 'c walk" where
  "ring_side get d 0 st = st"
| "ring_side get d (Suc n) (q, r, cube, results) =
     ring_side get d n
       (q + dir_q d, r + dir_r d, get (q + dir_q d) (r + dir_r d), results @ [cube])"

definition ring :: "(int32 \<Rightarrow> int32 \<Rightarrow> 'c) \<Rightarrow> offset \<Rightarrow> uint16 \<Rightarrow> 'c list" where
  "ring get p radius =
     (let q = off_q p + dir_q (directions ! 4) * ucast radius;
          r = off_r p + dir_r (directions ! 4) * ucast radius
      in snd (snd (snd (fold (\<lambda>d. ring_side get d (unat radius)) directions (q, r, get q r, [])))))"

definition inRadius :: "(int32 \<Rightarrow> int32 \<Rightarrow> 'c) \<Rightarrow> offset \<Rightarrow> uint16 \<Rightarrow> 'c list" where
  "inRadius get p radius =
     (let R = uint radius
      in concat (map (\<lambda>dx.
           let rmin = min R (- dx + R)
           in map (\<lambda>dy. get (word_of_int dx + off_q p) (word_of_int dy + off_r p))
                [max (- R) (- dx - R)..rmin])
         [- R..R]))"

text \<open>The order in which \<^verbatim>\<open>createSiblings\<close> and \<^verbatim>\<open>getSiblings\<close> list the neighbours.\<close>

definition sibling_offsets :: "offset \<Rightarrow> offset list" where
  "sibling_offsets p =
     (let q = off_q p; r = off_r p
      in [Offset (q + 0) (r - 1), Offset (q + 1) (r - 1), Offset (q + 1) (r + 0),
          Offset (q + 0) (r + 1), Offset (q - 1) (r + 1), Offset (q - 1) (r + 0)])"

text \<open>
  The three cells of \<^verbatim>\<open>getCellsExcluding\<close>, from the direction that leads from \<open>exclude\<close>
  to \<open>cell\<close>. The table is read at \<open>i\<close> and \<open>j\<close>; an index outside of it is undefined.
\<close>

definition direction_at :: "int \<Rightarrow> direction option" where
  "direction_at i = (if 0 \<le> i \<and> i < MAX_DIR_IDX then Some (directions ! nat i) else None)"

definition excluding_offsets :: "offset \<Rightarrow> offset \<Rightarrow> offset list option" where
  "excluding_offsets cell exclude =
     (let directionQ = off_q cell - off_q exclude;
          directionR = off_r cell - off_r exclude;
          idx = directionIdxs directionQ directionR;
          i = (if idx = 0 then MAX_DIR_IDX - 1 else idx - 1);
          j = (idx + 1) mod MAX_DIR_IDX
      in case (direction_at i, direction_at j) of
           (Some di, Some dj) \<Rightarrow>
             Some [Offset (off_q cell + directionQ) (off_r cell + directionR),
                   Offset (off_q cell + dir_q di) (off_r cell + dir_r di),
                   Offset (off_q cell + dir_q dj) (off_r cell + dir_r dj)]
         | _ \<Rightarrow> None)"

definition adjacent :: "offset \<Rightarrow> offset \<Rightarrow> bool" where
  "adjacent a b \<longleftrightarrow> directionIdxs (off_q a - off_q b) (off_r a - off_r b) \<noteq> - 1"

section \<open>Rings\<close>

definition moved :: "(int32 \<Rightarrow> int32 \<Rightarrow> 'c) \<Rightarrow> offset \<Rightarrow> int \<times> int \<Rightarrow> 'c" where
  "moved get p d = get (off_q p + word_of_int (fst d)) (off_r p + word_of_int (snd d))"

text \<open>The displacements along one side, from \<open>(a, b)\<close> in direction \<open>(dq, dr)\<close>.\<close>

definition side :: "int \<Rightarrow> int \<Rightarrow> int \<Rightarrow> int \<Rightarrow> nat \<Rightarrow> (int \<times> int) list" where
  "side a b dq dr n = map (\<lambda>j. (a + int j * dq, b + int j * dr)) [0..<n]"

definition ring_walk :: "nat \<Rightarrow> (int \<times> int) list" where
  "ring_walk n = (let R = int n in
     side (- R) 0 1 (-1) n @ side 0 (- R) 1 0 n @ side R (- R) 0 1 n @
     side R 0 (-1) 1 n @ side 0 R (-1) 0 n @ side (- R) R 0 (-1) n)"

lemma ring_side_eq:
  assumes "dir_q d = word_of_int dq" and "dir_r d = word_of_int dr"
  shows "ring_side get d n (off_q p + word_of_int a, off_r p + word_of_int b, moved get p (a, b), res) =
    (off_q p + word_of_int (a + int n * dq), off_r p + word_of_int (b + int n * dr),
     moved get p (a + int n * dq, b + int n * dr), res @ map (moved get p) (side a b dq dr n))"
proof (induction n arbitrary: a b res)
  case 0
  then show ?case by (simp add: side_def)
next
  case (Suc n)
  have split: "side a b dq dr (Suc n) = (a, b) # side (a + dq) (b + dr) dq dr n"
    unfolding side_def map_upt_Suc by (simp add: algebra_simps)
  have "ring_side get d (Suc n) (off_q p + word_of_int a, off_r p + word_of_int b, moved get p (a, b), res) =
      ring_side get d n (off_q p + word_of_int (a + dq), off_r p + word_of_int (b + dr),
        moved get p (a + dq, b + dr), res @ [moved get p (a, b)])"
    using assms by (simp add: moved_def add.assoc)
  also have "\<dots> = (off_q p + word_of_int (a + dq + int n * dq), off_r p + word_of_int (b + dr + int n * dr),
     moved get p (a + dq + int n * dq, b + dr + int n * dr),
     res @ [moved get p (a, b)] @ map (moved get p) (side (a + dq) (b + dr) dq dr n))"
    using Suc.IH [of "a + dq" "b + dr"] by simp
  finally show ?case by (simp add: split algebra_simps)
qed

lemma ring_eq_walk: "ring get p radius = map (moved get p) (ring_walk (unat radius))"
proof -
  let ?n = "unat radius" and ?R = "int (unat radius)"
  have dirs: "directions = [\<lparr>dir_q = word_of_int 1, dir_r = word_of_int (-1)\<rparr>,
      \<lparr>dir_q = word_of_int 1, dir_r = word_of_int 0\<rparr>, \<lparr>dir_q = word_of_int 0, dir_r = word_of_int 1\<rparr>,
      \<lparr>dir_q = word_of_int (-1), dir_r = word_of_int 1\<rparr>,
      \<lparr>dir_q = word_of_int (-1), dir_r = word_of_int 0\<rparr>,
      \<lparr>dir_q = word_of_int 0, dir_r = word_of_int (-1)\<rparr>]"
    by (simp add: directions_def)
  have q0: "off_q p + dir_q (directions ! 4) * ucast radius = off_q p + word_of_int (- ?R)"
    "off_r p + dir_r (directions ! 4) * ucast radius = off_r p + word_of_int 0"
    by (simp_all add: directions_def)
  have m0: "get (off_q p + word_of_int (- ?R)) (off_r p + word_of_int 0) = moved get p (- ?R, 0)"
    by (simp add: moved_def)
  note side = ring_side_eq [where p = p and get = get and n = ?n]
  show ?thesis
    unfolding ring_def Let_def q0 m0
    by (simp only: dirs fold.simps comp_def side [where dq = 1 and dr = "-1"] side [where dq = 1 and dr = 0]
      side [where dq = 0 and dr = 1] side [where dq = "-1" and dr = 1] side [where dq = "-1" and dr = 0]
      side [where dq = 0 and dr = "-1"] direction.simps id_apply)
      (simp add: ring_walk_def Let_def)
qed

lemma set_side: "set (side a b dq dr n) = {(a + j * dq, b + j * dr) | j. 0 \<le> j \<and> j < int n}"
proof -
  have "set (side a b dq dr n) = (\<lambda>j. (a + j * dq, b + j * dr)) ` (int ` {0..<n})"
    by (auto simp: side_def)
  also have "int ` {0..<n} = {0..<int n}" by (simp add: image_int_atLeastLessThan)
  finally show ?thesis by auto
qed

lemma distinct_side: "dq \<noteq> 0 \<or> dr \<noteq> 0 \<Longrightarrow> distinct (side a b dq dr n)"
  by (auto simp: side_def distinct_map inj_on_def)

lemma length_side [simp]: "length (side a b dq dr n) = n"
  by (simp add: side_def)

lemma distinct_ring_walk: "distinct (ring_walk n)"
  by (auto simp: ring_walk_def Let_def distinct_side set_side)

lemma set_ring_walk:
  assumes "0 < n"
  shows "set (ring_walk n) = {(a, b). hexnorm a b = int n}"
proof (intro equalityI subsetI)
  fix z assume "z \<in> set (ring_walk n)"
  then show "z \<in> {(a, b). hexnorm a b = int n}"
    by (auto simp: ring_walk_def Let_def set_side hexnorm_def)
next
  fix z assume "z \<in> {(a, b). hexnorm a b = int n}"
  then obtain a b where z: "z = (a, b)" and N: "hexnorm a b = int n" by auto
  define R where "R = int n"
  have R: "0 < R" using assms by (simp add: R_def)
  from N have "\<bar>a\<bar> \<le> R" "\<bar>b\<bar> \<le> R" "\<bar>a + b\<bar> \<le> R" "\<bar>a\<bar> = R \<or> \<bar>b\<bar> = R \<or> \<bar>a + b\<bar> = R"
    unfolding R_def hexnorm_def by linarith+
  then have bnd: "- R \<le> a" "a \<le> R" "- R \<le> b" "b \<le> R" "- R \<le> a + b" "a + b \<le> R"
    "a = R \<or> a = - R \<or> b = R \<or> b = - R \<or> a + b = R \<or> a + b = - R" by linarith+
  have "(a + b = - R \<and> - R \<le> a \<and> a < 0) \<or> (b = - R \<and> 0 \<le> a \<and> a < R) \<or> (a = R \<and> - R \<le> b \<and> b < 0) \<or>
      (a + b = R \<and> 0 < a \<and> a \<le> R) \<or> (b = R \<and> - R < a \<and> a \<le> 0) \<or> (a = - R \<and> 0 < b \<and> b \<le> R)"
    using bnd(7)
  proof (elim disjE)
    assume "a = R" with bnd R have "b < 0 \<or> b = 0" by linarith
    with bnd R \<open>a = R\<close> show ?thesis by auto
  next
    assume "a = - R" with bnd R have "0 < b \<or> b = 0" by linarith
    with bnd R \<open>a = - R\<close> show ?thesis by auto
  next
    assume "b = R" with bnd R have "- R < a \<or> a = - R" by linarith
    with bnd R \<open>b = R\<close> show ?thesis by auto
  next
    assume "b = - R" with bnd R have "a < R \<or> a = R" by linarith
    with bnd R \<open>b = - R\<close> show ?thesis by auto
  next
    assume "a + b = R" with bnd R have "0 < a \<or> a = 0 \<and> b = R" by linarith
    with bnd R \<open>a + b = R\<close> show ?thesis by auto
  next
    assume "a + b = - R" with bnd R have "a < 0 \<or> a = 0 \<and> b = - R" by linarith
    with bnd R \<open>a + b = - R\<close> show ?thesis by auto
  qed
  then consider "a + b = - R" "- R \<le> a" "a < 0" | "b = - R" "0 \<le> a" "a < R" | "a = R" "- R \<le> b" "b < 0"
    | "a + b = R" "0 < a" "a \<le> R" | "b = R" "- R < a" "a \<le> 0" | "a = - R" "0 < b" "b \<le> R"
    by blast
  then have "z \<in> set (side (- R) 0 1 (-1) n) \<or> z \<in> set (side 0 (- R) 1 0 n) \<or> z \<in> set (side R (- R) 0 1 n) \<or>
      z \<in> set (side R 0 (-1) 1 n) \<or> z \<in> set (side 0 R (-1) 0 n) \<or> z \<in> set (side (- R) R 0 (-1) n)"
  proof cases
    case 1
    then have "z \<in> set (side (- R) 0 1 (-1) n)"
      by (auto simp: set_side z R_def [symmetric] intro!: exI [of _ "a + R"])
    then show ?thesis by blast
  next
    case 2
    then have "z \<in> set (side 0 (- R) 1 0 n)" by (auto simp: set_side z R_def [symmetric])
    then show ?thesis by blast
  next
    case 3
    then have "z \<in> set (side R (- R) 0 1 n)"
      by (auto simp: set_side z R_def [symmetric] intro!: exI [of _ "b + R"])
    then show ?thesis by blast
  next
    case 4
    then have "z \<in> set (side R 0 (-1) 1 n)"
      by (auto simp: set_side z R_def [symmetric] intro!: exI [of _ "R - a"])
    then show ?thesis by blast
  next
    case 5
    then have "z \<in> set (side 0 R (-1) 0 n)"
      by (auto simp: set_side z R_def [symmetric] intro!: exI [of _ "- a"])
    then show ?thesis by blast
  next
    case 6
    then have "z \<in> set (side (- R) R 0 (-1) n)"
      by (auto simp: set_side z R_def [symmetric] intro!: exI [of _ "R - b"])
    then show ?thesis by blast
  qed
  then show "z \<in> set (ring_walk n)" by (auto simp: ring_walk_def Let_def R_def)
qed

text \<open>
  C28. \<^verbatim>\<open>Cell::ring\<close> looks up every cell at distance exactly \<open>radius\<close> of the center, each
  once, and nothing else: its results are the lookups at a duplicate-free list of
  displacements that is the whole hexagonal circle, \<open>6 * radius\<close> of them.
\<close>

theorem ring_complete:
  assumes "0 < radius"
  shows "\<exists>ds. ring get p radius = map (moved get p) ds \<and> distinct ds
    \<and> set ds = {(a, b). hexnorm a b = uint radius} \<and> length ds = 6 * unat radius"
proof (intro exI conjI)
  have "0 < unat radius" using assms by (simp add: word_less_nat_alt)
  then show "set (ring_walk (unat radius)) = {(a, b). hexnorm a b = uint radius}"
    by (simp add: set_ring_walk)
qed (simp_all add: ring_eq_walk distinct_ring_walk, simp add: ring_walk_def Let_def)

theorem ring_complete_witness:
  "\<exists>ds. ring (\<lambda>q r. (q, r)) (Offset 5 5) 2 = map (moved (\<lambda>q r. (q, r)) (Offset 5 5)) ds \<and> distinct ds
    \<and> set ds = {(a, b). hexnorm a b = 2} \<and> length ds = 12"
  using ring_complete [of 2 "\<lambda>q r. (q, r)" "Offset 5 5"] by simp

section \<open>Disks\<close>

definition disk :: "int \<Rightarrow> (int \<times> int) list" where
  "disk R = concat (map (\<lambda>dx. map (Pair dx) [max (- R) (- dx - R)..min R (- dx + R)]) [- R..R])"

lemma inRadius_eq_disk: "inRadius get p radius = map (moved get p) (disk (uint radius))"
  by (simp add: inRadius_def disk_def map_concat comp_def moved_def Let_def add.commute)

lemma set_disk: "set (disk R) = {(a, b). hexnorm a b \<le> R}"
proof -
  have "set (disk R) = (\<Union>x \<in> {- R..R}. Pair x ` {max (- R) (- x - R)..min R (- x + R)})"
    by (simp add: disk_def)
  also have "\<dots> = {(a, b). - R \<le> a \<and> a \<le> R \<and> max (- R) (- a - R) \<le> b \<and> b \<le> min R (- a + R)}"
    by auto
  also have "\<dots> = {(a, b). hexnorm a b \<le> R}"
    by (auto simp: hexnorm_le_iff abs_le_iff)
  finally show ?thesis .
qed

lemma distinct_concat_Pair:
  "distinct xs \<Longrightarrow> (\<And>x. distinct (f x)) \<Longrightarrow> distinct (concat (map (\<lambda>x. map (Pair x) (f x)) xs))"
  by (induction xs) (auto simp: distinct_map inj_on_def)

lemma distinct_disk: "distinct (disk R)"
  unfolding disk_def by (rule distinct_concat_Pair) simp_all

lemma le_square_int: "0 \<le> k \<Longrightarrow> k \<le> k * (k :: int)"
  by (metis mult_cancel_right1 mult_le_cancel_right not_less order.refl zle_add1_eq_le
      add_0 order_le_less int_one_le_iff_zero_less)

lemma int_sum_list_map: "int (\<Sum>x \<leftarrow> xs. f x) = (\<Sum>x \<leftarrow> xs. int (f x))"
  by (induction xs) simp_all

lemma sum_abs_interval: "(\<Sum>k = - int n..int n. \<bar>k\<bar>) = int n * (int n + 1)"
proof (induction n)
  case (Suc n)
  have "{- int (Suc n)..int (Suc n)} = insert (- int (Suc n)) (insert (int (Suc n)) {- int n..int n})"
    by auto
  then show ?case using Suc by (simp add: algebra_simps)
qed simp

lemma length_disk: "int (length (disk (int n))) = 3 * int n * (int n + 1) + 1"
proof -
  let ?R = "int n"
  have "length (disk ?R) = (\<Sum>dx \<leftarrow> [- ?R..?R]. length [max (- ?R) (- dx - ?R)..min ?R (- dx + ?R)])"
    by (simp add: disk_def length_concat comp_def)
  then have "int (length (disk ?R)) = (\<Sum>dx \<leftarrow> [- ?R..?R]. int (length [max (- ?R) (- dx - ?R)..min ?R (- dx + ?R)]))"
    by (simp only: int_sum_list_map)
  also have "\<dots> = (\<Sum>dx \<leftarrow> [- ?R..?R]. 2 * ?R + 1 - \<bar>dx\<bar>)"
    by (rule arg_cong [where f = sum_list], rule map_cong) auto
  also have "\<dots> = (\<Sum>dx = - ?R..?R. 2 * ?R + 1 - \<bar>dx\<bar>)"
    by (simp add: sum_list_distinct_conv_sum_set)
  also have "\<dots> = (2 * ?R + 1) * (2 * ?R + 1) - ?R * (?R + 1)"
    by (simp add: sum_subtractf sum_abs_interval)
  also have "\<dots> = 3 * ?R * (?R + 1) + 1" by (simp add: algebra_simps)
  finally show ?thesis .
qed

text \<open>
  \<^verbatim>\<open>Cell::inRadius\<close> looks up every cell at distance at most \<open>radius\<close>, each once, and
  nothing else; there are \<open>3 * radius * (radius + 1) + 1\<close> of them, within the capacity the
  function reserves.
\<close>

theorem inRadius_complete:
  "\<exists>ds. inRadius get p radius = map (moved get p) ds \<and> distinct ds
    \<and> set ds = {(a, b). hexnorm a b \<le> uint radius}
    \<and> int (length ds) = 3 * uint radius * (uint radius + 1) + 1
    \<and> int (length ds) \<le> uint radius * uint radius * 6 + 1"
proof (intro exI conjI)
  show len: "int (length (disk (uint radius))) = 3 * uint radius * (uint radius + 1) + 1"
    using length_disk [of "unat radius"] by simp
  have "uint radius \<le> uint radius * uint radius"
    by (rule le_square_int) simp
  with len show "int (length (disk (uint radius))) \<le> uint radius * uint radius * 6 + 1"
    by (simp add: algebra_simps)
qed (simp_all add: inRadius_eq_disk set_disk distinct_disk)

section \<open>Siblings and far neighbours\<close>

lemma adjacent_iff: "adjacent a b \<longleftrightarrow>
    (off_q a - off_q b, off_r a - off_r b) \<in> {(1, -1), (1, 0), (0, 1), (-1, 1), (-1, 0), (0, -1)}"
  by (auto simp: adjacent_def directionIdxs_def)

lemma adjacent_sym: "adjacent a b \<longleftrightarrow> adjacent b a"
proof -
  have *: "adjacent b a" if "adjacent a b" for a b
  proof -
    have "off_q b - off_q a = - (off_q a - off_q b)" "off_r b - off_r a = - (off_r a - off_r b)"
      by simp_all
    with that show ?thesis unfolding adjacent_iff by (auto simp only: prod.inject insert_iff empty_iff
      minus_zero minus_minus)
  qed
  then show ?thesis by blast
qed

lemma off_shift: "off_q a - off_q b = d \<longleftrightarrow> off_q a = off_q b + d"
  "off_r a - off_r b = d \<longleftrightarrow> off_r a = off_r b + d"
  by (simp_all add: diff_eq_eq add.commute)

lemma set_sibling_offsets: "set (sibling_offsets p) = {z. adjacent z p}"
proof -
  have "z \<in> set (sibling_offsets p) \<longleftrightarrow> adjacent z p" for z
    unfolding adjacent_iff prod.inject insert_iff empty_iff off_shift
    by (cases z) (auto simp: sibling_offsets_def Let_def)
  then show ?thesis by blast
qed

lemma distinct_sibling_offsets: "distinct (sibling_offsets p)"
proof -
  have "(x :: int32) + 1 \<noteq> x" "x - 1 \<noteq> x" "x - 1 \<noteq> x + 1" "x + 1 \<noteq> x - 1" for x
    by (simp_all add: diff_eq_eq add.assoc)
  then show ?thesis by (simp add: sibling_offsets_def Let_def)
qed

text \<open>
  The cells that \<^verbatim>\<open>getSiblings\<close> and \<^verbatim>\<open>createSiblings\<close> visit are the six cells adjacent to
  the given one, each once, and adjacency is symmetric: who is my sibling has me as sibling.
\<close>

theorem siblings_spec:
  "distinct (sibling_offsets p) \<and> length (sibling_offsets p) = 6
   \<and> set (sibling_offsets p) = {z. adjacent z p}
   \<and> (z \<in> set (sibling_offsets p) \<longleftrightarrow> p \<in> set (sibling_offsets z))"
  using adjacent_sym [of z p]
  by (simp add: distinct_sibling_offsets set_sibling_offsets)
    (simp add: sibling_offsets_def Let_def)

lemma adjacent_shift: "adjacent (Offset (x + a) (y + b)) (Offset (x + c) (y + d)) \<longleftrightarrow>
    (a - c, b - d) \<in> {(1, -1), (1, 0), (0, 1), (-1, 1), (-1, 0), (0, -1)}"
  by (simp add: adjacent_iff)

text \<open>The far side of a cell, seen from the cell behind it in direction \<open>(dq, dr)\<close>.\<close>

lemma excluding_offsets_shift:
  assumes "(dq, dr) \<in> {(1, -1), (1, 0), (0, 1), (-1, 1), (-1, 0), (0, -1)}"
  obtains es where "excluding_offsets (Offset (x + dq) (y + dr)) (Offset x y) =
      Some (map (\<lambda>(a, b). Offset (x + a) (y + b)) es)"
    and "distinct es" and "length es = 3"
    and "set es = {(a, b). (a - dq, b - dr) \<in> {(1, -1), (1, 0), (0, 1), (-1, 1), (-1, 0), (0, -1)}
      \<and> (a, b) \<noteq> (0, 0) \<and> (a, b) \<notin> {(1, -1), (1, 0), (0, 1), (-1, 1), (-1, 0), (0, -1)}}"
proof -
  let ?D = "{(1, -1), (1, 0), (0, 1), (-1, 1), (-1, 0), (0, -1)} :: (int32 \<times> int32) set"
  note far = excluding_offsets_def direction_at_def directionIdxs_def MAX_DIR_IDX_def directions_def
    Let_def add.assoc
  have S: "{(a, b). (a - dq, b - dr) \<in> ?D \<and> (a, b) \<noteq> (0, 0) \<and> (a, b) \<notin> ?D} =
      Set.filter (\<lambda>(a, b). (a, b) \<noteq> (0, 0) \<and> (a, b) \<notin> ?D) ((\<lambda>(a, b). (a + dq, b + dr)) ` ?D)"
    by (auto simp: diff_eq_eq)
  consider "dq = 1" "dr = -1" | "dq = 1" "dr = 0" | "dq = 0" "dr = 1" | "dq = -1" "dr = 1"
    | "dq = -1" "dr = 0" | "dq = 0" "dr = -1"
    using assms by auto
  then show ?thesis
  proof cases
    case 1
    show ?thesis by (rule that [of "[(2, -2), (1, -2), (2, -1)]"]) (unfold S, auto simp: 1 far)
  next
    case 2
    show ?thesis by (rule that [of "[(2, 0), (2, -1), (1, 1)]"]) (unfold S, auto simp: 2 far)
  next
    case 3
    show ?thesis by (rule that [of "[(0, 2), (1, 1), (-1, 2)]"]) (unfold S, auto simp: 3 far)
  next
    case 4
    show ?thesis by (rule that [of "[(-2, 2), (-1, 2), (-2, 1)]"]) (unfold S, auto simp: 4 far)
  next
    case 5
    show ?thesis by (rule that [of "[(-2, 0), (-2, 1), (-1, -1)]"]) (unfold S, auto simp: 5 far)
  next
    case 6
    show ?thesis by (rule that [of "[(0, -2), (-1, -1), (1, -2)]"]) (unfold S, auto simp: 6 far)
  qed
qed

text \<open>
  When \<open>cell\<close> and \<open>exclude\<close> are adjacent, \<^verbatim>\<open>getCellsExcluding\<close> visits exactly the
  neighbours of \<open>cell\<close> that are neither \<open>exclude\<close> nor adjacent to it, three different cells;
  otherwise the direction is not in the table and the function reads \<^verbatim>\<open>directions[-2]\<close>.
\<close>

theorem excluding_offsets_spec:
  "case excluding_offsets cell exclude of
     None \<Rightarrow> \<not> adjacent cell exclude
   | Some zs \<Rightarrow> adjacent cell exclude \<and> distinct zs \<and> length zs = 3
       \<and> set zs = {z. adjacent z cell \<and> z \<noteq> exclude \<and> \<not> adjacent z exclude}"
proof (cases "adjacent cell exclude")
  case False
  then have "excluding_offsets cell exclude = None"
    by (simp add: adjacent_def excluding_offsets_def direction_at_def MAX_DIR_IDX_def Let_def)
  with False show ?thesis by simp
next
  case True
  let ?D = "{(1, -1), (1, 0), (0, 1), (-1, 1), (-1, 0), (0, -1)} :: (int32 \<times> int32) set"
  obtain x y where e: "exclude = Offset x y" by (cases exclude)
  define dq where "dq = off_q cell - x"
  define dr where "dr = off_r cell - y"
  have c: "cell = Offset (x + dq) (y + dr)" by (simp add: dq_def dr_def)
  have d: "(dq, dr) \<in> ?D" using True by (simp add: adjacent_iff e dq_def dr_def)
  from excluding_offsets_shift [OF this, of x y] obtain es where
    es: "excluding_offsets cell exclude = Some (map (\<lambda>(a, b). Offset (x + a) (y + b)) es)"
    "distinct es" "length es = 3"
    "set es = {(a, b). (a - dq, b - dr) \<in> ?D \<and> (a, b) \<noteq> (0, 0) \<and> (a, b) \<notin> ?D}"
    unfolding c e .
  have z: "z = Offset (x + (off_q z - x)) (y + (off_r z - y))" for z by simp
  have "z \<in> set (map (\<lambda>(a, b). Offset (x + a) (y + b)) es) \<longleftrightarrow> (off_q z - x, off_r z - y) \<in> set es" for z
    by (force simp: image_iff diff_eq_eq)
  also have "(off_q z - x, off_r z - y) \<in> set es \<longleftrightarrow> adjacent z cell \<and> z \<noteq> exclude \<and> \<not> adjacent z exclude" for z
  proof -
    have 1: "adjacent z cell \<longleftrightarrow> (off_q z - x - dq, off_r z - y - dr) \<in> ?D"
      by (simp only: adjacent_iff c offset.sel diff_diff_eq)
    have 2: "adjacent z exclude \<longleftrightarrow> (off_q z - x, off_r z - y) \<in> ?D"
      by (simp only: adjacent_iff e offset.sel)
    have 3: "z = exclude \<longleftrightarrow> (off_q z - x, off_r z - y) = (0, 0)"
      by (cases z) (simp add: e)
    show ?thesis by (simp only: es(4) mem_Collect_eq prod.case 1 2 3)
  qed
  finally have "set (map (\<lambda>(a, b). Offset (x + a) (y + b)) es) =
      {z. adjacent z cell \<and> z \<noteq> exclude \<and> \<not> adjacent z exclude}" by blast
  moreover have "distinct (map (\<lambda>(a, b). Offset (x + a) (y + b)) es)"
    using es(2) by (auto simp: distinct_map inj_on_def)
  ultimately show ?thesis using True es(1,3) by simp
qed

end
