(* ===== verification/Physics.thy ===== *)
theory Physics
  imports Float_Model
begin

text \<open>
  Collision geometry (\<^verbatim>\<open>src/physics\<close>): segment intersection (\<^verbatim>\<open>methods.cpp\<close>), the rectangular
  and the circular bounding box, their projections (\<^verbatim>\<open>collisions_framework.cpp\<close>) and the
  separating-axis test (\<^verbatim>\<open>sat_collisions.cpp\<close>). Every \<^verbatim>\<open>float\<close> and \<^verbatim>\<open>double\<close> operation rounds.
  A box holds a reference to the position of its owner, which is therefore an argument of the
  operations. The functions of the \<^verbatim>\<open>glm\<close> submodule, and \<^verbatim>\<open>atan2\<close>, are the fields of a parameter;
  vector arithmetic is componentwise.
\<close>

section \<open>Segments\<close>

definition ccw :: "vec2 \<Rightarrow> vec2 \<Rightarrow> vec2 \<Rightarrow> bool" where
  "ccw A B C \<longleftrightarrow>
     fmul (fsub (v2y C) (v2y A)) (fsub (v2x B) (v2x A)) > fmul (fsub (v2y B) (v2y A)) (fsub (v2x C) (v2x A))"

definition intersects :: "vec2 \<Rightarrow> vec2 \<Rightarrow> vec2 \<Rightarrow> vec2 \<Rightarrow> bool" where
  "intersects A B C D \<longleftrightarrow> ccw A C D \<noteq> ccw B C D \<and> ccw A B C \<noteq> ccw A B D"

section \<open>Library functions\<close>

record glm =
  gl_dot :: "vec2 \<Rightarrow> vec2 \<Rightarrow> rat"
  gl_length2 :: "vec2 \<Rightarrow> rat"
  gl_rotate :: "vec2 \<Rightarrow> rat \<Rightarrow> vec2"
  gl_length :: "vec2 \<Rightarrow> rat"
  gl_distance :: "vec2 \<Rightarrow> vec2 \<Rightarrow> rat"
  gl_normalize2 :: "vec2 \<Rightarrow> vec2"
  gl_normalize3 :: "vec3 \<Rightarrow> vec3"
  gl_rotateY :: "vec3 \<Rightarrow> rat \<Rightarrow> vec3"
  c_atan2 :: "rat \<Rightarrow> rat \<Rightarrow> rat"

text \<open>\<^verbatim>\<open>glm::epsilon<float>()\<close>, and \<^verbatim>\<open>std::pow(x, 2)\<close> on a \<^verbatim>\<open>float\<close>, which is a \<^verbatim>\<open>double\<close>.\<close>

definition epsilon :: rat where "epsilon = 1 / 8388608"

definition pow2 :: "rat \<Rightarrow> rat" where "pow2 x = rnd64 (x * x)"

text \<open>
  \<^verbatim>\<open>std::sqrt\<close> on a \<^verbatim>\<open>double\<close>, correctly rounded: the integer root of the scaled argument has
  at least 54 bits, and a half is added below them when the root is not exact.
\<close>

function isqrt :: "int \<Rightarrow> int" where
  "isqrt n = (if n \<le> 0 then 0
     else let r = 2 * isqrt (n div 4) in if (r + 1) * (r + 1) \<le> n then r + 1 else r)"
  by auto
termination by (relation "measure nat") auto

declare isqrt.simps [simp del]

definition csqrt :: "rat \<Rightarrow> rat" where
  "csqrt x =
     (if x \<le> 0 then 0
      else let k = 56 - ilog2 x div 2; y = x * 4 powi k; s = isqrt \<lfloor>y\<rfloor>
           in rnd64 ((if of_int (s * s) = y then of_int s else of_int s + 1 / 2) * 2 powi (- k)))"

section \<open>Bounding boxes\<close>

text \<open>
  The fields \<open>_min\<close> and \<open>_max\<close> are not initialised by the constructor and \<open>_recalcNormals\<close>
  starts as \<^verbatim>\<open>false\<close>.
\<close>

record rect_box =
  rb_recalc :: bool
  rb_vertices :: "vec2 list"
  rb_normals :: "vec2 list"
  rb_min :: vec2
  rb_max :: vec2

record circ_box =
  cb_center :: vec3
  cb_radius :: rat

datatype box = RECT rect_box | CIRCULAR circ_box

definition RectBoundingBox :: "vec2 \<Rightarrow> vec2 \<Rightarrow> vec2 list \<Rightarrow> rect_box" where
  "RectBoundingBox junk_min junk_max vertices =
     \<lparr>rb_recalc = False, rb_vertices = vertices, rb_normals = [Vec2 0 0, Vec2 0 0],
      rb_min = junk_min, rb_max = junk_max\<rparr>"

definition CircularBoundingBox :: "vec3 \<Rightarrow> rat \<Rightarrow> circ_box" where
  "CircularBoundingBox center radius = \<lparr>cb_center = center, cb_radius = radius\<rparr>"

definition position2D :: "vec3 \<Rightarrow> vec2" where
  "position2D pos = Vec2 (v3x pos) (v3z pos)"

definition rect_rotate :: "glm \<Rightarrow> rat \<Rightarrow> rect_box \<Rightarrow> rect_box" where
  "rect_rotate g angle b =
     b\<lparr>rb_vertices := map (\<lambda>v. gl_rotate g v angle) (rb_vertices b), rb_recalc := True\<rparr>"

definition box_rotate :: "glm \<Rightarrow> rat \<Rightarrow> box \<Rightarrow> box" where
  "box_rotate g angle b = (case b of RECT r \<Rightarrow> RECT (rect_rotate g angle r) | CIRCULAR c \<Rightarrow> CIRCULAR c)"

text \<open>One step of the search for the extremes, with the \<^verbatim>\<open>else if\<close> of the source.\<close>

definition grow :: "rat \<Rightarrow> rat \<times> rat \<Rightarrow> rat \<times> rat" where
  "grow x mm = (case mm of (mn, mx) \<Rightarrow> if x < mn then (x, mx) else if mx < x then (mn, x) else (mn, mx))"

definition edge_normal :: "vec2 \<Rightarrow> vec2 \<Rightarrow> vec2" where
  "edge_normal a b = (let tmp = a - b in Vec2 (- v2y tmp) (v2x tmp))"

text \<open>\<^verbatim>\<open>normals()\<close> reads the first four vertices; with fewer there is no result.\<close>

definition rect_normals :: "rect_box \<Rightarrow> rect_box option" where
  "rect_normals b =
     (if \<not> rb_recalc b then Some b
      else case rb_vertices b of
        v0 # v1 # v2 # v3 # _ \<Rightarrow>
          let (mnx, mxx) = grow (v2x v3) (grow (v2x v2) (grow (v2x v1) (v2x v0, v2x v0)));
              (mny, mxy) = grow (v2y v3) (grow (v2y v2) (grow (v2y v1) (v2y v0, v2y v0)))
          in Some (b\<lparr>rb_recalc := False, rb_normals := [edge_normal v0 v1, edge_normal v1 v2],
                     rb_min := Vec2 mnx mny, rb_max := Vec2 mxx mxy\<rparr>)
      | _ \<Rightarrow> None)"

definition rect_asRect :: "vec3 \<Rightarrow> rect_box \<Rightarrow> (vec4 \<times> rect_box) option" where
  "rect_asRect position b0 =
     (let pos = position2D position
      in case rect_normals b0 of
           None \<Rightarrow> None
         | Some b \<Rightarrow>
             Some (Vec4 (fadd (v2x (rb_min b)) (v2x pos)) (fadd (v2y (rb_min b)) (v2y pos))
                        (fadd (v2x (rb_max b)) (v2x pos)) (fadd (v2y (rb_max b)) (v2y pos)), b))"

definition circ_asRect :: "vec3 \<Rightarrow> circ_box \<Rightarrow> vec4" where
  "circ_asRect position b =
     (let pos = position2D position; c = cb_center b; r = cb_radius b
      in Vec4 (fsub (fadd (v3x c) (v2x pos)) r) (fsub (fadd (v3y c) (v2y pos)) r)
              (fadd (fadd (v3x c) (v2x pos)) r) (fadd (fadd (v3y c) (v2y pos)) r))"

definition asRect :: "vec3 \<Rightarrow> box \<Rightarrow> (vec4 \<times> box) option" where
  "asRect position b =
     (case b of
        RECT r \<Rightarrow> map_option (\<lambda>(v, r). (v, RECT r)) (rect_asRect position r)
      | CIRCULAR c \<Rightarrow> Some (circ_asRect position c, CIRCULAR c))"

text \<open>
  \<^verbatim>\<open>RectBoundingBox::intersects\<close>: the loop over the edges, with and without \<^verbatim>\<open>dist\<close>. The state
  of the loop is \<open>check\<close> and \<open>*dist\<close>.
\<close>

definition edge_dist :: "vec2 \<Rightarrow> vec2 \<Rightarrow> vec2 \<Rightarrow> bool \<Rightarrow> rat \<Rightarrow> rat" where
  "edge_dist s0_s s0_e s1_s check dst =
     (let d = rnd32 (csqrt (rnd64 (pow2 (fsub (v2y s0_e) (v2y s0_s)) + pow2 (fsub (v2x s0_e) (v2x s0_s)))))
      in if epsilon < \<bar>d\<bar>
         then let tmp = fdivc (fsub (fadd (fsub (fmul (fsub (v2y s0_e) (v2y s0_s)) (v2x s1_s))
                                                (fmul (fsub (v2x s0_e) (v2x s0_s)) (v2y s1_s)))
                                          (fmul (v2x s0_e) (v2y s0_s)))
                                    (fmul (v2y s0_e) (v2x s0_s))) d
              in if \<not> check \<or> tmp < dst then tmp else dst
         else 0)"

fun edges :: "vec2 \<Rightarrow> vec2 list \<Rightarrow> (vec2 \<times> vec2) list" where
  "edges v0 [] = []"
| "edges v0 [v] = [(v, v0)]"
| "edges v0 (v # w # vs) = (v, w) # edges v0 (w # vs)"

fun rect_edges_loop :: "vec2 \<Rightarrow> vec2 \<Rightarrow> bool \<Rightarrow> (vec2 \<times> vec2) list \<Rightarrow> bool \<Rightarrow> rat \<Rightarrow> bool \<times> rat" where
  "rect_edges_loop s1_s s1_e want [] check dst = (check, dst)"
| "rect_edges_loop s1_s s1_e want ((s0_s, s0_e) # es) check dst =
     (if intersects s0_s s0_e s1_s s1_e
      then if \<not> want then (True, dst)
           else rect_edges_loop s1_s s1_e want es True (edge_dist s0_s s0_e s1_s check dst)
      else rect_edges_loop s1_s s1_e want es check dst)"

definition rect_edges :: "vec3 \<Rightarrow> rect_box \<Rightarrow> (vec2 \<times> vec2) list" where
  "rect_edges position b =
     (case rb_vertices b of
        [] \<Rightarrow> []
      | v # vs \<Rightarrow> map (\<lambda>(a, b). (a + position2D position, b + position2D position)) (edges v (v # vs)))"

definition rect_intersects :: "vec3 \<Rightarrow> rect_box \<Rightarrow> vec2 \<Rightarrow> vec2 \<Rightarrow> bool \<Rightarrow> bool \<times> rat option" where
  "rect_intersects position b s1_s s1_e want =
     (let (check, dst) = rect_edges_loop s1_s s1_e want (rect_edges position b) False 0
      in (check, if want then Some dst else None))"

definition circ_intersects :: "vec3 \<Rightarrow> circ_box \<Rightarrow> vec2 \<Rightarrow> vec2 \<Rightarrow> bool" where
  "circ_intersects position b p0 p1 =
     (let dx = fsub (v2x p1) (v2x p0);
          dy = fsub (v2y p1) (v2y p0);
          A = rnd32 (rnd64 (pow2 dx + pow2 dy))
      in if \<bar>A\<bar> \<le> epsilon then False
         else let cx = fadd (v2x (position2D position)) (v3x (cb_center b));
                  cy = fadd (v2y (position2D position)) (v3y (cb_center b));
                  B = fmul 2 (fadd (fmul dx (fsub (v2x p0) cx)) (fmul dy (fsub (v2y p0) cy)));
                  C = rnd32 (rnd64 (rnd64 (pow2 (fsub (v2x p0) cx) + pow2 (fsub (v2y p0) cy)) - pow2 (cb_radius b)));
                  det = rnd32 (rnd64 (pow2 B - fmul (fmul 4 A) C))
              in \<not> det < 0)"

section \<open>Projections and the separating-axis test\<close>

text \<open>The loop of \<^verbatim>\<open>project\<close> over the vertices after the first.\<close>

definition rect_project :: "glm \<Rightarrow> vec3 \<Rightarrow> rect_box \<Rightarrow> vec2 \<Rightarrow> vec2 option" where
  "rect_project g position b axis =
     (case rb_vertices b of
        [] \<Rightarrow> None
      | v0 # vs \<Rightarrow>
          let m0 = gl_dot g axis (v0 + position2D position);
              (mn, mx) = fold (\<lambda>v. grow (gl_dot g axis (v + position2D position))) vs (m0, m0)
          in Some (Vec2 mn mx))"

definition center2D :: "circ_box \<Rightarrow> vec2" where
  "center2D b = Vec2 (v3x (cb_center b)) (v3z (cb_center b))"

definition circ_project :: "glm \<Rightarrow> vec3 \<Rightarrow> circ_box \<Rightarrow> vec2 \<Rightarrow> vec2" where
  "circ_project g position b axis =
     (let p0 = center2D b + position2D position - scale2 (cb_radius b) axis;
          p1 = center2D b + position2D position + scale2 (cb_radius b) axis;
          r0 = gl_dot g axis p0;
          r1 = gl_dot g axis p1
      in if r0 < r1 then Vec2 r0 r1 else Vec2 r1 r0)"

definition project :: "glm \<Rightarrow> vec3 \<Rightarrow> box \<Rightarrow> vec2 \<Rightarrow> vec2 option" where
  "project g position b axis =
     (case b of RECT r \<Rightarrow> rect_project g position r axis | CIRCULAR c \<Rightarrow> Some (circ_project g position c axis))"

text \<open>The projections are compared axis by axis; the first gap ends the loop.\<close>

definition overlap :: "vec2 \<Rightarrow> vec2 \<Rightarrow> bool" where
  "overlap p1 p2 \<longleftrightarrow> \<not> fsub (min (v2y p1) (v2y p2)) (max (v2x p1) (v2x p2)) < 0"

fun collides_axes :: "glm \<Rightarrow> vec2 list \<Rightarrow> vec3 \<times> box \<Rightarrow> vec3 \<times> box \<Rightarrow> bool option" where
  "collides_axes g [] a b = Some True"
| "collides_axes g (axis # axes) a b =
     (case (project g (fst a) (snd a) axis, project g (fst b) (snd b) axis) of
        (Some p1, Some p2) \<Rightarrow> if overlap p1 p2 then collides_axes g axes a b else Some False
      | _ \<Rightarrow> None)"

text \<open>The boxes are returned too: \<^verbatim>\<open>normals()\<close> updates the rectangle it is called on.\<close>

definition collides_rr :: "glm \<Rightarrow> vec3 \<times> rect_box \<Rightarrow> vec3 \<times> rect_box \<Rightarrow> (bool \<times> rect_box \<times> rect_box) option" where
  "collides_rr g a b =
     (case rect_normals (snd a) of
        None \<Rightarrow> None
      | Some ra \<Rightarrow>
          (case collides_axes g (rb_normals ra) (fst a, RECT ra) (fst b, RECT (snd b)) of
             None \<Rightarrow> None
           | Some False \<Rightarrow> Some (False, ra, snd b)
           | Some True \<Rightarrow>
               (case rect_normals (snd b) of
                  None \<Rightarrow> None
                | Some rb \<Rightarrow>
                    map_option (\<lambda>c. (c, ra, rb))
                      (collides_axes g (rb_normals rb) (fst a, RECT ra) (fst b, RECT rb)))))"

fun closest_vertex :: "glm \<Rightarrow> vec2 \<Rightarrow> vec2 list \<Rightarrow> rat \<Rightarrow> vec2 \<Rightarrow> vec2" where
  "closest_vertex g c [] minDist minVertex = minVertex"
| "closest_vertex g c (v # vs) minDist minVertex =
     (let tmp = gl_length2 g (v - c)
      in if tmp < minDist then closest_vertex g c vs tmp v else closest_vertex g c vs minDist minVertex)"

definition collides_rc :: "glm \<Rightarrow> vec3 \<times> rect_box \<Rightarrow> vec3 \<times> circ_box \<Rightarrow> (bool \<times> rect_box) option" where
  "collides_rc g a b =
     (case rb_vertices (snd a) of
        [] \<Rightarrow> None
      | v0 # vs \<Rightarrow>
          let minVertex = closest_vertex g (center2D (snd b)) vs (gl_length2 g (v0 - center2D (snd b))) v0
          in case collides_axes g [minVertex - center2D (snd b)] (fst a, RECT (snd a)) (fst b, CIRCULAR (snd b)) of
               None \<Rightarrow> None
             | Some False \<Rightarrow> Some (False, snd a)
             | Some True \<Rightarrow>
                 (case rect_normals (snd a) of
                    None \<Rightarrow> None
                  | Some ra \<Rightarrow>
                      map_option (\<lambda>c. (c, ra))
                        (collides_axes g (rb_normals ra) (fst a, RECT ra) (fst b, CIRCULAR (snd b)))))"

definition collides_cc :: "glm \<Rightarrow> vec3 \<times> circ_box \<Rightarrow> vec3 \<times> circ_box \<Rightarrow> bool option" where
  "collides_cc g a b =
     collides_axes g [center2D (snd a) - center2D (snd b)] (fst a, CIRCULAR (snd a)) (fst b, CIRCULAR (snd b))"

definition collides :: "glm \<Rightarrow> vec3 \<times> box \<Rightarrow> vec3 \<times> box \<Rightarrow> (bool \<times> box \<times> box) option" where
  "collides g a b =
     (case (snd a, snd b) of
        (RECT ra, RECT rb) \<Rightarrow>
          map_option (\<lambda>(c, ra, rb). (c, RECT ra, RECT rb)) (collides_rr g (fst a, ra) (fst b, rb))
      | (RECT ra, CIRCULAR cb) \<Rightarrow>
          map_option (\<lambda>(c, ra). (c, RECT ra, CIRCULAR cb)) (collides_rc g (fst a, ra) (fst b, cb))
      | (CIRCULAR ca, RECT rb) \<Rightarrow>
          map_option (\<lambda>(c, rb). (c, CIRCULAR ca, RECT rb)) (collides_rc g (fst b, rb) (fst a, ca))
      | (CIRCULAR ca, CIRCULAR cb) \<Rightarrow>
          map_option (\<lambda>c. (c, CIRCULAR ca, CIRCULAR cb)) (collides_cc g (fst a, ca) (fst b, cb)))"

section \<open>Exactness on the integer grid\<close>

text \<open>On vectors with small integer components the arithmetic of \<^verbatim>\<open>float\<close> is exact.\<close>

definition grid_vec :: "int \<Rightarrow> vec2 \<Rightarrow> bool" where
  "grid_vec B v \<longleftrightarrow> (\<exists>i j. v = Vec2 (of_int i) (of_int j) \<and> \<bar>i\<bar> \<le> B \<and> \<bar>j\<bar> \<le> B)"

lemma fsub_grid: "\<bar>i - j\<bar> \<le> 16777216 \<Longrightarrow> fsub (of_int i) (of_int j) = of_int (i - j)"
  using f32.small_int [of "i - j"] by (simp add: fsub_def)

lemma fadd_grid: "\<bar>i + j\<bar> \<le> 16777216 \<Longrightarrow> fadd (of_int i) (of_int j) = of_int (i + j)"
  using f32.small_int [of "i + j"] by (simp add: fadd_def)

lemma fmul_grid: "\<bar>i * j\<bar> \<le> 16777216 \<Longrightarrow> fmul (of_int i) (of_int j) = of_int (i * j)"
  using f32.small_int [of "i * j"] by (simp add: fmul_def)

lemma abs_mult_le: "\<bar>i\<bar> \<le> a \<Longrightarrow> \<bar>j\<bar> \<le> b \<Longrightarrow> \<bar>i * j :: int\<bar> \<le> a * b"
  by (simp add: abs_mult mult_mono')

definition orient :: "vec2 \<Rightarrow> vec2 \<Rightarrow> vec2 \<Rightarrow> rat" where
  "orient A B C = (v2y C - v2y A) * (v2x B - v2x A) - (v2y B - v2y A) * (v2x C - v2x A)"

lemma ccw_grid:
  assumes "grid_vec 2048 A" and "grid_vec 2048 B" and "grid_vec 2048 C"
  shows "ccw A B C \<longleftrightarrow> 0 < orient A B C"
proof -
  obtain ax ay bx "by" cx cy where v: "A = Vec2 (of_int ax) (of_int ay)" "B = Vec2 (of_int bx) (of_int by)"
      "C = Vec2 (of_int cx) (of_int cy)"
    and le: "\<bar>ax\<bar> \<le> 2048" "\<bar>ay\<bar> \<le> 2048" "\<bar>bx\<bar> \<le> 2048" "\<bar>by\<bar> \<le> 2048" "\<bar>cx\<bar> \<le> 2048" "\<bar>cy\<bar> \<le> 2048"
    using assms unfolding grid_vec_def by blast
  have d: "\<bar>cy - ay\<bar> \<le> 4096" "\<bar>bx - ax\<bar> \<le> 4096" "\<bar>by - ay\<bar> \<le> 4096" "\<bar>cx - ax\<bar> \<le> 4096"
    using le by linarith+
  have m: "\<bar>(cy - ay) * (bx - ax)\<bar> \<le> 16777216" "\<bar>(by - ay) * (cx - ax)\<bar> \<le> 16777216"
    using abs_mult_le [OF d(1,2)] abs_mult_le [OF d(3,4)] by simp_all
  have "ccw A B C \<longleftrightarrow> of_int ((by - ay) * (cx - ax)) < (of_int ((cy - ay) * (bx - ax)) :: rat)"
    unfolding ccw_def v using d m by (simp add: fsub_grid fmul_grid del: of_int_diff of_int_mult)
  also have "\<dots> \<longleftrightarrow> 0 < orient A B C" by (simp add: orient_def v)
  finally show ?thesis .
qed

text \<open>The exact point at parameter \<open>t\<close> of a segment.\<close>

definition along :: "vec2 \<Rightarrow> vec2 \<Rightarrow> rat \<Rightarrow> vec2" where
  "along A B t = Vec2 (v2x A + t * (v2x B - v2x A)) (v2y A + t * (v2y B - v2y A))"

lemma orient_sum: "orient A C D - orient B C D = orient A B D - orient A B C"
  by (simp add: orient_def algebra_simps)

lemma unit_quotient: "0 < a \<Longrightarrow> b \<le> 0 \<Longrightarrow> 0 \<le> a / (a - b) \<and> a / (a - b) \<le> (1 :: rat)"
  by (simp add: divide_le_eq_1)

lemma segments_meet:
  assumes "(0 < orient A C D) \<noteq> (0 < orient B C D)" and "(0 < orient A B C) \<noteq> (0 < orient A B D)"
  shows "\<exists>t s. 0 \<le> t \<and> t \<le> 1 \<and> 0 \<le> s \<and> s \<le> 1 \<and> along A B t = along C D s"
proof -
  let ?k = "orient A C D - orient B C D" and ?o1 = "orient A C D" and ?o3 = "orient A B C"
  have k: "?k \<noteq> 0" using assms(1) by auto
  have k': "?k = orient A B D - ?o3" by (rule orient_sum)
  have t: "0 \<le> ?o1 / ?k \<and> ?o1 / ?k \<le> 1"
  proof (cases "0 < ?o1")
    case True
    then show ?thesis using assms(1) unit_quotient [of ?o1 "orient B C D"] by simp
  next
    case False
    then show ?thesis using assms(1) by (auto simp: divide_le_eq zero_le_divide_iff)
  qed
  have s: "0 \<le> - ?o3 / ?k \<and> - ?o3 / ?k \<le> 1"
    unfolding k'
  proof (cases "0 < ?o3")
    case True
    then have "- ?o3 / (orient A B D - ?o3) = ?o3 / (?o3 - orient A B D)" by (metis minus_diff_eq minus_divide_divide minus_minus)
    then show "0 \<le> - ?o3 / (orient A B D - ?o3) \<and> - ?o3 / (orient A B D - ?o3) \<le> 1"
      using True assms(2) unit_quotient [of ?o3 "orient A B D"] by simp
  next
    case False
    then have pos: "0 < orient A B D - ?o3" and "?o3 \<le> 0" and "0 < orient A B D" using assms(2) by auto
    then show "0 \<le> - ?o3 / (orient A B D - ?o3) \<and> - ?o3 / (orient A B D - ?o3) \<le> 1"
      by (simp only: pos_divide_le_eq [OF pos] pos_le_divide_eq [OF pos]) simp
  qed
  have "?k * v2x A + ?o1 * (v2x B - v2x A) = ?k * v2x C - ?o3 * (v2x D - v2x C)"
    "?k * v2y A + ?o1 * (v2y B - v2y A) = ?k * v2y C - ?o3 * (v2y D - v2y C)"
    by (simp_all add: orient_def algebra_simps)
  then have "along A B (?o1 / ?k) = along C D (- ?o3 / ?k)"
    using k by (simp add: along_def field_simps)
  with t s show ?thesis by blast
qed

text \<open>
  Segment intersection is right on the integer grid: for coordinates up to 2048 in absolute
  value, two segments reported to intersect do share a point, and two segments that cross
  properly (the ends of each strictly on both sides of the other) are reported.
\<close>

theorem intersects_correct:
  assumes "grid_vec 2048 A" and "grid_vec 2048 B" and "grid_vec 2048 C" and "grid_vec 2048 D"
  shows "(intersects A B C D \<longrightarrow>
      (\<exists>t s. 0 \<le> t \<and> t \<le> 1 \<and> 0 \<le> s \<and> s \<le> 1 \<and> along A B t = along C D s))
    \<and> (orient A C D * orient B C D < 0 \<and> orient A B C * orient A B D < 0 \<longrightarrow> intersects A B C D)"
proof (intro conjI impI)
  assume "intersects A B C D"
  then show "\<exists>t s. 0 \<le> t \<and> t \<le> 1 \<and> 0 \<le> s \<and> s \<le> 1 \<and> along A B t = along C D s"
    using assms by (intro segments_meet) (simp_all add: intersects_def ccw_grid)
next
  assume "orient A C D * orient B C D < 0 \<and> orient A B C * orient A B D < 0"
  then show "intersects A B C D"
    using assms by (auto simp: intersects_def ccw_grid mult_less_0_iff)
qed

theorem intersects_correct_witness:
  "intersects (Vec2 0 0) (Vec2 4 4) (Vec2 0 4) (Vec2 4 0)
   \<and> (\<exists>t s. 0 \<le> t \<and> t \<le> 1 \<and> 0 \<le> s \<and> s \<le> 1
        \<and> along (Vec2 0 0) (Vec2 4 4) t = along (Vec2 0 4) (Vec2 4 0) s)"
proof -
  have g: "grid_vec 2048 (Vec2 0 0)" "grid_vec 2048 (Vec2 4 4)" "grid_vec 2048 (Vec2 0 4)"
    "grid_vec 2048 (Vec2 4 0)"
    unfolding grid_vec_def by (rule exI, rule exI, rule conjI, rule arg_cong2 [where f = Vec2],
      (rule of_int_numeral [symmetric] of_int_0 [symmetric])+, simp)+
  have o: "orient (Vec2 0 0) (Vec2 0 4) (Vec2 4 0) * orient (Vec2 4 4) (Vec2 0 4) (Vec2 4 0) < 0
    \<and> orient (Vec2 0 0) (Vec2 4 4) (Vec2 0 4) * orient (Vec2 0 0) (Vec2 4 4) (Vec2 4 0) < 0"
    by (simp add: orient_def)
  show ?thesis using intersects_correct [OF g] o by blast
qed

section \<open>Enclosing rectangles\<close>

lemma grow_bounds:
  "fst mm \<le> snd mm \<Longrightarrow> fst (grow x mm) \<le> x \<and> x \<le> snd (grow x mm) \<and> fst (grow x mm) \<le> fst mm
    \<and> snd mm \<le> snd (grow x mm) \<and> fst (grow x mm) \<le> snd (grow x mm)"
  by (auto simp: grow_def split: prod.splits)

lemma grow_mem: "fst (grow x mm) \<in> {x, fst mm} \<and> snd (grow x mm) \<in> {x, snd mm}"
  by (auto simp: grow_def split: prod.splits)

text \<open>The extremes of a non-empty list, as the loops compute them.\<close>

lemma fold_grow:
  assumes "fst mm \<le> snd mm" and "fold (\<lambda>v. grow (f v)) vs mm = mm'"
  shows "fst mm' \<le> fst mm \<and> snd mm \<le> snd mm' \<and> (\<forall>v \<in> set vs. fst mm' \<le> f v \<and> f v \<le> snd mm')"
  using assms
proof (induction vs arbitrary: mm)
  case (Cons v vs)
  note g = grow_bounds [OF Cons.prems(1), of "f v"]
  then have "fst mm' \<le> fst (grow (f v) mm) \<and> snd (grow (f v) mm) \<le> snd mm'
      \<and> (\<forall>v \<in> set vs. fst mm' \<le> f v \<and> f v \<le> snd mm')"
    using Cons.prems(2) by (intro Cons.IH) auto
  with g show ?case by (auto intro: order.trans)
qed auto

text \<open>
  \<^verbatim>\<open>asRect\<close> of a rectangle that was rotated at least once encloses it: with rounded
  additions, every vertex moved to the position of the owner lies within the returned bounds,
  and each of the four bounds is reached by a vertex. The position does not matter.
\<close>

theorem asRect_encloses:
  assumes "length (rb_vertices b) = 4"
  shows "\<exists>r b'. rect_asRect position (rect_rotate g angle b) = Some (r, b')
    \<and> (\<forall>v \<in> set (rb_vertices b').
         v4x r \<le> v2x (v + position2D position) \<and> v2x (v + position2D position) \<le> v4z r
       \<and> v4y r \<le> v2y (v + position2D position) \<and> v2y (v + position2D position) \<le> v4w r)
    \<and> {v4x r, v4z r} \<subseteq> (\<lambda>v. v2x (v + position2D position)) ` set (rb_vertices b')
    \<and> {v4y r, v4w r} \<subseteq> (\<lambda>v. v2y (v + position2D position)) ` set (rb_vertices b')"
proof -
  obtain w0 w1 w2 w3 where "rb_vertices b = [w0, w1, w2, w3]"
    using assms by (auto simp: numeral_eq_Suc length_Suc_conv)
  then obtain v0 v1 v2 v3 where v: "rb_vertices (rect_rotate g angle b) = [v0, v1, v2, v3]"
    by (simp add: rect_rotate_def)
  define mx where "mx = grow (v2x v3) (grow (v2x v2) (grow (v2x v1) (v2x v0, v2x v0)))"
  define my where "my = grow (v2y v3) (grow (v2y v2) (grow (v2y v1) (v2y v0, v2y v0)))"
  have n: "rect_normals (rect_rotate g angle b) = Some ((rect_rotate g angle b)\<lparr>rb_recalc := False,
      rb_normals := [edge_normal v0 v1, edge_normal v1 v2],
      rb_min := Vec2 (fst mx) (fst my), rb_max := Vec2 (snd mx) (snd my)\<rparr>)"
    using v by (simp add: rect_normals_def mx_def my_def split_beta) (simp add: rect_rotate_def)
  have bounds: "\<forall>x \<in> {f v0, f v1, f v2, f v3}. fst m \<le> x \<and> x \<le> snd m"
    if "m = grow (f v3) (grow (f v2) (grow (f v1) (f v0, f v0)))" for f :: "vec2 \<Rightarrow> rat" and m
    using fold_grow [of "(f v0, f v0)" f "[v1, v2, v3]" m] that by auto
  have mem: "fst m \<in> {f v0, f v1, f v2, f v3} \<and> snd m \<in> {f v0, f v1, f v2, f v3}"
    if "m = grow (f v3) (grow (f v2) (grow (f v1) (f v0, f v0)))" for f :: "vec2 \<Rightarrow> rat" and m
    using that grow_mem [of "f v3" "grow (f v2) (grow (f v1) (f v0, f v0))"]
      grow_mem [of "f v2" "grow (f v1) (f v0, f v0)"] grow_mem [of "f v1" "(f v0, f v0)"] by auto
  have mono: "fadd a c \<le> fadd b c" if "a \<le> b" for a b c
    using that by (simp add: fadd_def f32.mono)
  have attained: "f p \<in> (\<lambda>v. f (h v)) ` {v0, v1, v2, v3}" if "p \<in> {h v0, h v1, h v2, h v3}"
    for f :: "rat \<Rightarrow> rat" and h p using that by auto
  let ?b = "(rect_rotate g angle b)\<lparr>rb_recalc := False, rb_normals := [edge_normal v0 v1, edge_normal v1 v2],
      rb_min := Vec2 (fst mx) (fst my), rb_max := Vec2 (snd mx) (snd my)\<rparr>"
    and ?p = "position2D position"
  have "rect_asRect position (rect_rotate g angle b) = Some (Vec4 (fadd (fst mx) (v2x ?p))
      (fadd (fst my) (v2y ?p)) (fadd (snd mx) (v2x ?p)) (fadd (snd my) (v2y ?p)), ?b)"
    by (simp add: rect_asRect_def n Let_def)
  moreover have "set (rb_vertices ?b) = {v0, v1, v2, v3}" by (simp add: v)
  ultimately show ?thesis
    using mem [OF mx_def] mem [OF my_def] bounds [OF mx_def] bounds [OF my_def]
      attained [of _ v2x "\<lambda>x. fadd x (v2x ?p)"] attained [of _ v2y "\<lambda>x. fadd x (v2y ?p)"]
    by (intro exI conjI) (assumption, simp_all add: mono)
qed

theorem asRect_encloses_witness:
  "\<exists>r b'. rect_asRect (Vec3 10 0 20) (rect_rotate \<lparr>gl_dot = \<lambda>a b. 0, gl_length2 = \<lambda>a. 0,
       gl_rotate = \<lambda>v a. v, gl_length = \<lambda>a. 0, gl_distance = \<lambda>a b. 0, gl_normalize2 = \<lambda>v. v,
       gl_normalize3 = \<lambda>v. v, gl_rotateY = \<lambda>v a. v, c_atan2 = \<lambda>y x. 0\<rparr> 1
     (RectBoundingBox (Vec2 7 7) (Vec2 7 7) [Vec2 (-1) (-1), Vec2 (-1) 1, Vec2 1 1, Vec2 1 (-1)])) = Some (r, b')
    \<and> {v4x r, v4z r} \<subseteq> (\<lambda>v. v2x (v + position2D (Vec3 10 0 20))) ` set (rb_vertices b')"
  using asRect_encloses [of "RectBoundingBox (Vec2 7 7) (Vec2 7 7)
      [Vec2 (-1) (-1), Vec2 (-1) 1, Vec2 1 1, Vec2 1 (-1)]" "Vec3 10 0 20" "\<lparr>gl_dot = \<lambda>a b. 0,
       gl_length2 = \<lambda>a. 0, gl_rotate = \<lambda>v a. v, gl_length = \<lambda>a. 0, gl_distance = \<lambda>a b. 0,
       gl_normalize2 = \<lambda>v. v, gl_normalize3 = \<lambda>v. v, gl_rotateY = \<lambda>v a. v, c_atan2 = \<lambda>y x. 0\<rparr>" 1]
  by (auto simp: RectBoundingBox_def)

text \<open>
  The rectangle of the box is a cached value: asking twice, at any position, gives the same as
  asking once, so the order of the calls is immaterial.
\<close>

lemma rect_normals_cached: "rect_normals b = Some b' \<Longrightarrow> rect_normals b' = Some b'"
  by (auto simp: rect_normals_def split: if_splits list.splits prod.splits)

lemma rect_asRect_cached:
  "rect_asRect pos b = Some (r, b') \<Longrightarrow> rect_asRect pos b' = Some (r, b')"
  "rect_asRect pos b = Some (r, b') \<Longrightarrow> map_option fst (rect_asRect pos' b') = map_option fst (rect_asRect pos' b)"
  by (auto simp: rect_asRect_def Let_def dest: rect_normals_cached split: option.splits)

section \<open>Segments against a rectangle\<close>

lemma rect_edges_loop_check:
  "fst (rect_edges_loop s1_s s1_e want es check d) \<longleftrightarrow> check \<or> (\<exists>(a, b) \<in> set es. intersects a b s1_s s1_e)"
  by (induction s1_s s1_e want es check d rule: rect_edges_loop.induct) auto

text \<open>
  A segment meets a rectangle exactly when it meets one of its edges, and asking for the
  distance does not change the answer, although the loop then visits every edge instead of
  stopping at the first.
\<close>

theorem rect_intersects_iff:
  "fst (rect_intersects position b s1_s s1_e want) \<longleftrightarrow>
     (\<exists>(a, c) \<in> set (rect_edges position b). intersects a c s1_s s1_e)"
  using rect_edges_loop_check [of s1_s s1_e want "rect_edges position b" False 0]
  by (auto simp: rect_intersects_def split_beta)

section \<open>Projections\<close>

text \<open>
  What the separating-axis test needs of a shape: its projection is an interval that covers the
  values the shape takes along the axis.
\<close>

locale projectable =
  fixes proj :: "'s \<Rightarrow> vec2 \<Rightarrow> vec2 option"
    and measures :: "'s \<Rightarrow> vec2 \<Rightarrow> rat set"
  assumes covers: "proj s axis = Some p \<Longrightarrow> x \<in> measures s axis \<Longrightarrow> v2x p \<le> x \<and> x \<le> v2y p"
    and inhabited: "proj s axis = Some p \<Longrightarrow> \<exists>x. x \<in> measures s axis"
begin

lemma ordered: "proj s axis = Some p \<Longrightarrow> v2x p \<le> v2y p"
  using inhabited covers by (meson order.trans)

end

text \<open>Two shapes whose values along an axis interleave are not separated by it.\<close>

locale projectable_pair = one: projectable proj1 measures1 + two: projectable proj2 measures2
  for proj1 :: "'s \<Rightarrow> vec2 \<Rightarrow> vec2 option" and measures1
    and proj2 :: "'t \<Rightarrow> vec2 \<Rightarrow> vec2 option" and measures2
begin

lemma interleaved_overlap:
  assumes "proj1 s axis = Some p" and "proj2 t axis = Some q"
    and "{x, y} \<subseteq> measures1 s axis" and "{u, w} \<subseteq> measures2 t axis" and "x \<le> w" and "u \<le> y"
  shows "overlap p q"
proof -
  have "v2x p \<le> x" "y \<le> v2y p" "v2x q \<le> u" "w \<le> v2y q"
    using one.covers [OF assms(1)] two.covers [OF assms(2)] assms(3,4) by auto
  moreover have "v2x p \<le> v2y p" "v2x q \<le> v2y q"
    using one.ordered [OF assms(1)] two.ordered [OF assms(2)] .
  ultimately show ?thesis
    using assms(5,6) fsub_less_0_imp [of "min (v2y p) (v2y q)" "max (v2x p) (v2x q)"]
    by (auto simp: overlap_def)
qed

end

definition rect_measures :: "glm \<Rightarrow> vec3 \<times> rect_box \<Rightarrow> vec2 \<Rightarrow> rat set" where
  "rect_measures g s axis = (\<lambda>v. gl_dot g axis (v + position2D (fst s))) ` set (rb_vertices (snd s))"

definition circ_measures :: "glm \<Rightarrow> vec3 \<times> circ_box \<Rightarrow> vec2 \<Rightarrow> rat set" where
  "circ_measures g s axis =
     {gl_dot g axis (center2D (snd s) + position2D (fst s) - scale2 (cb_radius (snd s)) axis),
      gl_dot g axis (center2D (snd s) + position2D (fst s) + scale2 (cb_radius (snd s)) axis)}"

interpretation rect: projectable "\<lambda>s. rect_project g (fst s) (snd s)" "rect_measures g" for g
proof
  fix s axis p x
  assume p: "rect_project g (fst s) (snd s) axis = Some p"
  then obtain v0 vs where v: "rb_vertices (snd s) = v0 # vs"
    by (auto simp: rect_project_def split: list.splits)
  then show "\<exists>x. x \<in> rect_measures g s axis" by (auto simp: rect_measures_def)
  let ?f = "\<lambda>v. gl_dot g axis (v + position2D (fst s))"
  define mm where "mm = fold (\<lambda>v. grow (?f v)) vs (?f v0, ?f v0)"
  have "p = Vec2 (fst mm) (snd mm)"
    using p by (simp add: rect_project_def v mm_def split_beta Let_def)
  moreover assume "x \<in> rect_measures g s axis"
  ultimately show "v2x p \<le> x \<and> x \<le> v2y p"
    using fold_grow [of "(?f v0, ?f v0)" ?f vs mm] by (auto simp: mm_def rect_measures_def v)
qed

interpretation circ: projectable "\<lambda>s axis. Some (circ_project g (fst s) (snd s) axis)" "circ_measures g" for g
  by unfold_locales (auto simp: circ_project_def circ_measures_def Let_def)

interpretation rect_pair: projectable_pair "\<lambda>s. rect_project g (fst s) (snd s)" "rect_measures g"
  "\<lambda>s. rect_project g (fst s) (snd s)" "rect_measures g" for g
  by unfold_locales

interpretation rect_circ: projectable_pair "\<lambda>s. rect_project g (fst s) (snd s)" "rect_measures g"
  "\<lambda>s axis. Some (circ_project g (fst s) (snd s) axis)" "circ_measures g" for g
  by unfold_locales

interpretation circ_pair: projectable_pair "\<lambda>s axis. Some (circ_project g (fst s) (snd s) axis)" "circ_measures g"
  "\<lambda>s axis. Some (circ_project g (fst s) (snd s) axis)" "circ_measures g" for g
  by unfold_locales

lemma overlap_commute: "overlap p q \<longleftrightarrow> overlap q p"
  by (simp add: overlap_def min.commute max.commute)

lemma collides_axes_commute: "collides_axes g axes a b = collides_axes g axes b a"
  by (induction axes) (auto simp: overlap_commute split: option.splits)

lemma project_some: "\<exists>p. project g pos (CIRCULAR c) axis = Some p"
  "rb_vertices r \<noteq> [] \<Longrightarrow> \<exists>p. project g pos (RECT r) axis = Some p"
  by (auto simp: project_def rect_project_def Let_def split_beta split: list.splits)

text \<open>The cached fields of a rectangle do not enter its projection.\<close>

lemma project_normals: "rect_normals r = Some r' \<Longrightarrow> project g pos (RECT r') axis = project g pos (RECT r) axis"
  by (auto simp: project_def rect_project_def rect_normals_def split: if_splits list.splits prod.splits)

lemma collides_axes_normals:
  "rect_normals r = Some r' \<Longrightarrow> collides_axes g axes (pos, RECT r') b = collides_axes g axes (pos, RECT r) b"
  "rect_normals r = Some r' \<Longrightarrow> collides_axes g axes b (pos, RECT r') = collides_axes g axes b (pos, RECT r)"
proof -
  assume "rect_normals r = Some r'"
  then show "collides_axes g axes (pos, RECT r') b = collides_axes g axes (pos, RECT r) b"
    by (induction axes) (auto simp: project_normals split: option.splits)
  then show "collides_axes g axes b (pos, RECT r') = collides_axes g axes b (pos, RECT r)"
    by (simp add: collides_axes_commute [of g axes b])
qed

text \<open>A projection along the opposite axis is the mirrored interval.\<close>

definition dot_odd :: "glm \<Rightarrow> bool" where
  "dot_odd g \<longleftrightarrow> (\<forall>x y p. gl_dot g (Vec2 (- x) (- y)) p = - gl_dot g (Vec2 x y) p)"

lemma circ_project_mirror:
  assumes "dot_odd g"
  shows "circ_project g pos c (Vec2 (- x) (- y)) =
    Vec2 (- v2y (circ_project g pos c (Vec2 x y))) (- v2x (circ_project g pos c (Vec2 x y)))"
proof -
  have "v - scale2 k (Vec2 (- x) (- y)) = v + scale2 k (Vec2 x y)"
    "v + scale2 k (Vec2 (- x) (- y)) = v - scale2 k (Vec2 x y)" for v k
    using f32.odd by (simp_all add: plus_vec2_def minus_vec2_def scale2_def fmul_def fadd_def fsub_def)
  then show ?thesis
    using assms by (simp add: circ_project_def dot_odd_def Let_def)
qed

lemma overlap_mirror:
  "overlap (Vec2 (- v2y p) (- v2x p)) (Vec2 (- v2y q) (- v2x q)) \<longleftrightarrow> overlap p q"
proof -
  have "min (- a) (- b) = - max a b" "max (- a) (- b) = - min a b" for a b :: rat by auto
  then show ?thesis by (simp add: overlap_def fsub_def add.commute)
qed

lemma collides_cc_commute:
  assumes "dot_odd g"
  shows "collides_cc g b a = collides_cc g a b"
proof -
  let ?d = "center2D (snd a) - center2D (snd b)"
  have axis: "center2D (snd b) - center2D (snd a) = Vec2 (- v2x ?d) (- v2y ?d)"
    unfolding minus_vec2_def
    by (simp add: fsub_anti [of "v2x (center2D (snd b))" "v2x (center2D (snd a))"]
        fsub_anti [of "v2y (center2D (snd b))" "v2y (center2D (snd a))"])
  have m: "circ_project g p c (Vec2 (- v2x ?d) (- v2y ?d)) =
      Vec2 (- v2y (circ_project g p c ?d)) (- v2x (circ_project g p c ?d))" for p c
    using circ_project_mirror [OF assms, of p c "v2x ?d" "v2y ?d"] by (simp only: vec2.collapse)
  have eq: "collides_cc g x y = Some (overlap
      (circ_project g (fst x) (snd x) (center2D (snd x) - center2D (snd y)))
      (circ_project g (fst y) (snd y) (center2D (snd x) - center2D (snd y))))" for x y
    by (simp add: collides_cc_def project_def)
  show ?thesis
    unfolding eq axis m overlap_mirror by (rule arg_cong [OF overlap_commute])
qed

definition verdict :: "(bool \<times> 'a) option \<Rightarrow> bool option" where
  "verdict m = map_option fst m"

lemma collides_rr_verdict:
  assumes "rect_normals (snd a) = Some ra" and "rect_normals (snd b) = Some rb"
    and "rb_vertices (snd a) \<noteq> []" and "rb_vertices (snd b) \<noteq> []"
  shows "verdict (collides_rr g a b) = Some (
    collides_axes g (rb_normals ra) (fst a, RECT (snd a)) (fst b, RECT (snd b)) = Some True
    \<and> collides_axes g (rb_normals rb) (fst a, RECT (snd a)) (fst b, RECT (snd b)) = Some True)"
proof -
  have "\<exists>c. collides_axes g axes (fst a, RECT (snd a)) (fst b, RECT (snd b)) = Some c" for axes
  proof (induction axes)
    case (Cons axis axes)
    obtain p q where "project g (fst a) (RECT (snd a)) axis = Some p" "project g (fst b) (RECT (snd b)) axis = Some q"
      using project_some(2) assms(3,4) by meson
    with Cons show ?case by auto
  qed auto
  then obtain c1 c2 where
    "collides_axes g (rb_normals ra) (fst a, RECT (snd a)) (fst b, RECT (snd b)) = Some c1"
    "collides_axes g (rb_normals rb) (fst a, RECT (snd a)) (fst b, RECT (snd b)) = Some c2" by meson
  then show ?thesis
    by (cases c1; cases c2)
      (simp_all add: collides_rr_def verdict_def assms collides_axes_normals [OF assms(1)]
        collides_axes_normals [OF assms(2)])
qed

text \<open>
  The collision verdict does not depend on the order of the two boxes, of whatever kinds
  they are, provided the dot product changes sign with its first argument; rectangles have at
  least the four vertices \<^verbatim>\<open>normals\<close> reads.
\<close>

theorem collides_symmetric:
  assumes "dot_odd g"
    and "\<And>r. snd a = RECT r \<Longrightarrow> 4 \<le> length (rb_vertices r)"
    and "\<And>r. snd b = RECT r \<Longrightarrow> 4 \<le> length (rb_vertices r)"
  shows "verdict (collides g a b) = verdict (collides g b a)"
proof -
  have n: "\<exists>r'. rect_normals r = Some r'" "rb_vertices r \<noteq> []" if "4 \<le> length (rb_vertices r)" for r
    using that by (auto simp: rect_normals_def numeral_eq_Suc Suc_le_length_iff split_beta)
  have fst_map: "verdict (map_option (\<lambda>(c, x, y). (c, f x, h y)) m) = verdict m"
    "verdict (map_option (\<lambda>(c, x). (c, f' x)) m') = verdict m'"
    "verdict (map_option (\<lambda>c. (c, k)) m'') = m''" for f h f' k m m' m''
    by (auto simp: verdict_def option.map_comp comp_def split_beta map_option.identity)
  show ?thesis
  proof (cases "snd a"; cases "snd b")
    fix ra rb assume ab: "snd a = RECT ra" "snd b = RECT rb"
    obtain ra' rb' where "rect_normals ra = Some ra'" "rect_normals rb = Some rb'"
      using n assms(2) [OF ab(1)] assms(3) [OF ab(2)] by blast
    then show ?thesis
      using ab n(2) [OF assms(2) [OF ab(1)]] n(2) [OF assms(3) [OF ab(2)]]
      by (auto simp: collides_def fst_map collides_rr_verdict
          collides_axes_commute [where a = "(fst b, RECT rb)"])
  qed (use collides_cc_commute [OF assms(1)] in \<open>auto simp: collides_def fst_map\<close>)
qed

text \<open>The dot product that a straightforward \<^verbatim>\<open>glm\<close> computes, for the witnesses.\<close>

definition plain_glm :: glm where
  "plain_glm = \<lparr>gl_dot = \<lambda>a b. fadd (fmul (v2x a) (v2x b)) (fmul (v2y a) (v2y b)),
     gl_length2 = \<lambda>a. fadd (fmul (v2x a) (v2x a)) (fmul (v2y a) (v2y a)),
     gl_rotate = \<lambda>v a. v, gl_length = \<lambda>a. 0, gl_distance = \<lambda>a b. 0, gl_normalize2 = \<lambda>v. v,
     gl_normalize3 = \<lambda>v. v, gl_rotateY = \<lambda>v a. v, c_atan2 = \<lambda>y x. 0\<rparr>"

lemma dot_odd_plain: "dot_odd plain_glm"
  unfolding dot_odd_def plain_glm_def glm.simps vec2.sel
proof (intro allI)
  fix x y p
  have m: "fmul (- x) c = - fmul x c" for x c using f32.odd by (simp add: fmul_def)
  have a: "fadd (- x) (- y) = - fadd x y" for x y
    using f32.odd [of "x + y"] by (simp add: fadd_def algebra_simps)
  show "fadd (fmul (- x) (v2x p)) (fmul (- y) (v2y p)) = - fadd (fmul x (v2x p)) (fmul y (v2y p))"
    by (simp only: m a)
qed

definition unit_square :: rect_box where
  "unit_square = \<lparr>rb_recalc = True, rb_vertices = [Vec2 (-1) (-1), Vec2 (-1) 1, Vec2 1 1, Vec2 1 (-1)],
     rb_normals = [Vec2 0 0, Vec2 0 0], rb_min = Vec2 0 0, rb_max = Vec2 0 0\<rparr>"

theorem collides_symmetric_witness:
  "verdict (collides plain_glm (Vec3 0 0 0, RECT unit_square) (Vec3 5 0 0, CIRCULAR \<lparr>cb_center = Vec3 0 0 0, cb_radius = 1\<rparr>)) =
   verdict (collides plain_glm (Vec3 5 0 0, CIRCULAR \<lparr>cb_center = Vec3 0 0 0, cb_radius = 1\<rparr>) (Vec3 0 0 0, RECT unit_square))"
  by (rule collides_symmetric [OF dot_odd_plain]) (auto simp: unit_square_def)

section \<open>No missed collisions between rectangles\<close>

definition in_hull :: "vec2 list \<Rightarrow> vec2 \<Rightarrow> bool" where
  "in_hull vs P \<longleftrightarrow> (\<exists>ws. length ws = length vs \<and> (\<forall>w \<in> set ws. 0 \<le> w) \<and> sum_list ws = 1
     \<and> v2x P = (\<Sum>(w, v) \<leftarrow> zip ws vs. w * v2x v) \<and> v2y P = (\<Sum>(w, v) \<leftarrow> zip ws vs. w * v2y v))"

definition exact_dot :: "glm \<Rightarrow> bool" where
  "exact_dot g \<longleftrightarrow> (\<forall>a p. grid_vec 1024 a \<longrightarrow> grid_vec 1024 p \<longrightarrow>
     gl_dot g a p = v2x a * v2x p + v2y a * v2y p)"

definition placed :: "vec3 \<times> rect_box \<Rightarrow> vec2 list" where
  "placed s = map (\<lambda>v. v + position2D (fst s)) (rb_vertices (snd s))"

lemma weighted_le:
  assumes "length ws = length vs" and "\<forall>w \<in> set ws. 0 \<le> w" and "\<forall>v \<in> set vs. f v \<le> (c :: rat)"
  shows "(\<Sum>(w, v) \<leftarrow> zip ws vs. w * f v) \<le> sum_list ws * c"
  using assms
proof (induction ws vs rule: list_induct2)
  case (Cons w ws v vs)
  have "w * f v \<le> w * c" using Cons.prems by (intro mult_left_mono) auto
  with Cons show ?case by (simp add: distrib_right add_mono)
qed simp

lemma in_hull_ex:
  assumes "in_hull vs P"
  shows "\<exists>v \<in> set vs. a * v2x P + b * v2y P \<le> a * v2x v + b * v2y v"
proof (rule ccontr)
  obtain ws where ws: "length ws = length vs" "\<forall>w \<in> set ws. 0 \<le> w" "sum_list ws = 1"
    "v2x P = (\<Sum>(w, v) \<leftarrow> zip ws vs. w * v2x v)" "v2y P = (\<Sum>(w, v) \<leftarrow> zip ws vs. w * v2y v)"
    using assms unfolding in_hull_def by blast
  have lin: "a * (\<Sum>(w, v) \<leftarrow> zip ws vs. w * v2x v) + b * (\<Sum>(w, v) \<leftarrow> zip ws vs. w * v2y v) =
      (\<Sum>(w, v) \<leftarrow> zip ws vs. w * (a * v2x v + b * v2y v))"
    using ws(1) by (induction ws vs rule: list_induct2) (simp_all add: algebra_simps)
  let ?f = "\<lambda>v. a * v2x v + b * v2y v" and ?F = "a * v2x P + b * v2y P"
  assume "\<not> (\<exists>v \<in> set vs. ?F \<le> ?f v)"
  then have less: "\<forall>v \<in> set vs. ?f v < ?F" by auto
  have ne: "vs \<noteq> []" using ws(1,3) by auto
  define c where "c = Max (?f ` set vs)"
  have "c \<in> ?f ` set vs" unfolding c_def by (rule Max_in) (use ne in auto)
  then have "c < ?F" using less by auto
  moreover have "\<forall>v \<in> set vs. ?f v \<le> c" by (simp add: c_def)
  then have "?F \<le> c"
    using weighted_le [OF ws(1,2), of ?f c] by (simp add: ws(3,4,5) lin)
  ultimately show False by simp
qed

lemma grid_vec_add: "grid_vec B v \<Longrightarrow> grid_vec B' w \<Longrightarrow> B + B' \<le> 1024 \<Longrightarrow> grid_vec (B + B') (v + w)"
proof -
  assume "grid_vec B v" "grid_vec B' w" and le: "B + B' \<le> 1024"
  then obtain i j k l where v: "v = Vec2 (of_int i) (of_int j)" "w = Vec2 (of_int k) (of_int l)"
    and b: "\<bar>i\<bar> \<le> B" "\<bar>j\<bar> \<le> B" "\<bar>k\<bar> \<le> B'" "\<bar>l\<bar> \<le> B'"
    unfolding grid_vec_def by blast
  have "v + w = Vec2 (of_int (i + k)) (of_int (j + l))"
    using b le unfolding v plus_vec2_def vec2.sel by (subst (1 2) fadd_grid) auto
  then show ?thesis unfolding grid_vec_def using b by (intro exI conjI) (assumption, auto)
qed

lemma grid_edge_normal:
  assumes "grid_vec 256 v" and "grid_vec 256 w"
  shows "grid_vec 512 (edge_normal v w)"
proof -
  obtain i j k l where v: "v = Vec2 (of_int i) (of_int j)" "w = Vec2 (of_int k) (of_int l)"
    and b: "\<bar>i\<bar> \<le> 256" "\<bar>j\<bar> \<le> 256" "\<bar>k\<bar> \<le> 256" "\<bar>l\<bar> \<le> 256"
    using assms unfolding grid_vec_def by blast
  have "edge_normal v w = Vec2 (of_int (l - j)) (of_int (i - k))"
    using b unfolding v edge_normal_def Let_def minus_vec2_def vec2.sel by (subst (1 2) fsub_grid) auto
  then show ?thesis unfolding grid_vec_def using b by (intro exI conjI) (assumption, auto)
qed

lemma common_point_overlap:
  assumes "exact_dot g" and "grid_vec 512 axis"
    and grid: "\<forall>v \<in> set (placed a). grid_vec 512 v" "\<forall>v \<in> set (placed b). grid_vec 512 v"
    and hull: "in_hull (placed a) P" "in_hull (placed b) P"
    and "rect_project g (fst a) (snd a) axis = Some p" and "rect_project g (fst b) (snd b) axis = Some q"
  shows "overlap p q"
proof -
  have mono: "grid_vec 512 v \<Longrightarrow> grid_vec 1024 v" for v unfolding grid_vec_def by fastforce
  have dot: "gl_dot g axis v = v2x axis * v2x v + v2y axis * v2y v" if "grid_vec 512 v" for v
    using assms(1,2) mono [OF that] mono [OF assms(2)] by (simp add: exact_dot_def)
  have up: "\<exists>x \<in> rect_measures g s axis. v2x axis * v2x P + v2y axis * v2y P \<le> x"
    and down: "\<exists>x \<in> rect_measures g s axis. x \<le> v2x axis * v2x P + v2y axis * v2y P"
    if s: "\<forall>v \<in> set (placed s). grid_vec 512 v" "in_hull (placed s) P" for s
  proof -
    have m: "rect_measures g s axis = (\<lambda>v. v2x axis * v2x v + v2y axis * v2y v) ` set (placed s)"
      using s(1) dot by (auto simp: rect_measures_def placed_def image_image)
    show "\<exists>x \<in> rect_measures g s axis. v2x axis * v2x P + v2y axis * v2y P \<le> x"
      using in_hull_ex [OF s(2), of "v2x axis" "v2y axis"] by (auto simp: m)
    show "\<exists>x \<in> rect_measures g s axis. x \<le> v2x axis * v2x P + v2y axis * v2y P"
      using in_hull_ex [OF s(2), of "- v2x axis" "- v2y axis"] by (auto simp: m algebra_simps)
  qed
  from up [OF grid(1) hull(1)] down [OF grid(1) hull(1)] up [OF grid(2) hull(2)] down [OF grid(2) hull(2)]
  obtain x y u w where "{x, y} \<subseteq> rect_measures g a axis" "{u, w} \<subseteq> rect_measures g b axis" "x \<le> w" "u \<le> y"
    by (meson empty_subsetI insert_subset order.trans)
  then show ?thesis by (rule rect_pair.interleaved_overlap [OF assms(7,8)])
qed

text \<open>
  C29. The separating-axis test misses no collision of rotated rectangles on the integer grid
  (vertices and positions up to 256): when the convex hulls of the two placed rectangles share
  a point, \<^verbatim>\<open>SAT::collides\<close> says so, given a dot product that is exact on integers up to 1024.
\<close>

theorem sat_no_missed_collision:
  assumes "exact_dot g"
    and "rb_recalc (snd a)" and "rb_recalc (snd b)"
    and "length (rb_vertices (snd a)) = 4" and "length (rb_vertices (snd b)) = 4"
    and "\<forall>v \<in> set (rb_vertices (snd a)) \<union> set (rb_vertices (snd b)). grid_vec 256 v"
    and "grid_vec 256 (position2D (fst a))" and "grid_vec 256 (position2D (fst b))"
    and "in_hull (placed a) P" and "in_hull (placed b) P"
  shows "verdict (collides g (fst a, RECT (snd a)) (fst b, RECT (snd b))) = Some True"
proof -
  have n: "\<exists>r' v0 v1 v2. rect_normals r = Some r' \<and> {v0, v1, v2} \<subseteq> set (rb_vertices r)
      \<and> rb_normals r' = [edge_normal v0 v1, edge_normal v1 v2]"
    if "rb_recalc r" "length (rb_vertices r) = 4" for r
    using that by (auto simp: rect_normals_def numeral_eq_Suc length_Suc_conv split_beta) blast
  obtain ra rb where ra: "rect_normals (snd a) = Some ra" "\<forall>x \<in> set (rb_normals ra). grid_vec 512 x"
    and rb: "rect_normals (snd b) = Some rb" "\<forall>x \<in> set (rb_normals rb). grid_vec 512 x"
    using n [OF assms(2,4)] n [OF assms(3,5)] assms(6) by (auto simp: grid_edge_normal)
  have ne: "rb_vertices (snd a) \<noteq> []" "rb_vertices (snd b) \<noteq> []" using assms(4,5) by auto
  have grid: "\<forall>v \<in> set (placed a). grid_vec 512 v" "\<forall>v \<in> set (placed b). grid_vec 512 v"
    using assms(6-8) grid_vec_add [of 256 _ 256] by (auto simp: placed_def)
  have axes: "collides_axes g axes (fst a, RECT (snd a)) (fst b, RECT (snd b)) = Some True"
    if "\<forall>x \<in> set axes. grid_vec 512 x" for axes
    using that
  proof (induction axes)
    case (Cons axis axes)
    obtain p q where pq: "rect_project g (fst a) (snd a) axis = Some p" "rect_project g (fst b) (snd b) axis = Some q"
      using project_some(2) [OF ne(1)] project_some(2) [OF ne(2)] unfolding project_def box.case by meson
    have "overlap p q"
      using common_point_overlap [OF assms(1) _ grid assms(9,10) pq] Cons.prems by simp
    with Cons pq show ?case by (simp add: project_def)
  qed simp
  have "verdict (collides g (fst a, RECT (snd a)) (fst b, RECT (snd b))) = verdict (collides_rr g a b)"
    by (simp add: collides_def verdict_def option.map_comp comp_def split_beta)
  then show ?thesis
    using collides_rr_verdict [OF ra(1) rb(1) ne] axes [OF ra(2)] axes [OF rb(2)] by simp
qed

lemma exact_dot_plain: "exact_dot plain_glm"
  unfolding exact_dot_def
proof (intro allI impI)
  fix a p assume "grid_vec 1024 a" "grid_vec 1024 p"
  then obtain i j k l where v: "a = Vec2 (of_int i) (of_int j)" "p = Vec2 (of_int k) (of_int l)"
    and b: "\<bar>i\<bar> \<le> 1024" "\<bar>j\<bar> \<le> 1024" "\<bar>k\<bar> \<le> 1024" "\<bar>l\<bar> \<le> 1024"
    unfolding grid_vec_def by blast
  have m: "\<bar>i * k\<bar> \<le> 1048576" "\<bar>j * l\<bar> \<le> 1048576"
    using abs_mult_le [OF b(1,3)] abs_mult_le [OF b(2,4)] by simp_all
  then have "\<bar>i * k\<bar> \<le> 16777216" "\<bar>j * l\<bar> \<le> 16777216" "\<bar>i * k + j * l\<bar> \<le> 16777216" by linarith+
  then show "gl_dot plain_glm a p = v2x a * v2x p + v2y a * v2y p"
    unfolding v plain_glm_def glm.simps vec2.sel by (simp only: fmul_grid fadd_grid) simp
qed

lemma grid_vec_numeral:
  "grid_vec 256 (Vec2 (-1) (-1))" "grid_vec 256 (Vec2 (-1) 1)" "grid_vec 256 (Vec2 1 1)"
  "grid_vec 256 (Vec2 1 (-1))" "grid_vec 256 (Vec2 0 0)" "grid_vec 256 (Vec2 1 0)"
proof -
  have "grid_vec 256 (Vec2 (of_int i) (of_int j))" if "\<bar>i\<bar> \<le> 256" "\<bar>j\<bar> \<le> 256" for i j
    using that unfolding grid_vec_def by blast
  from this [of "-1" "-1"] this [of "-1" 1] this [of 1 1] this [of 1 "-1"] this [of 0 0] this [of 1 0]
  show "grid_vec 256 (Vec2 (-1) (-1))" "grid_vec 256 (Vec2 (-1) 1)" "grid_vec 256 (Vec2 1 1)"
    "grid_vec 256 (Vec2 1 (-1))" "grid_vec 256 (Vec2 0 0)" "grid_vec 256 (Vec2 1 0)" by simp_all
qed

theorem sat_no_missed_collision_witness:
  "verdict (collides plain_glm (Vec3 0 0 0, RECT unit_square) (Vec3 1 0 0, RECT unit_square)) = Some True"
proof -
  have z: "fadd (-1) 0 = -1" "fadd 1 0 = 1" "fadd (-1) 1 = 0" "fadd 1 1 = 2"
    using fadd_grid [of "-1" 0] fadd_grid [of 1 0] fadd_grid [of "-1" 1] fadd_grid [of 1 1] by simp_all
  have "in_hull (placed (Vec3 0 0 0, unit_square)) (Vec2 0 0)"
    unfolding in_hull_def
    by (rule exI [of _ "[1/4, 1/4, 1/4, 1/4]"])
      (simp add: placed_def unit_square_def position2D_def plus_vec2_def z)
  moreover have "in_hull (placed (Vec3 1 0 0, unit_square)) (Vec2 0 0)"
    unfolding in_hull_def
    by (rule exI [of _ "[1/2, 1/2, 0, 0]"])
      (simp add: placed_def unit_square_def position2D_def plus_vec2_def z)
  ultimately show ?thesis
    using sat_no_missed_collision [OF exact_dot_plain, of "(Vec3 0 0 0, unit_square)"
        "(Vec3 1 0 0, unit_square)" "Vec2 0 0"]
    by (simp add: unit_square_def position2D_def grid_vec_numeral)
qed

section \<open>Deviations\<close>

lemma overlap_same [simp]: "overlap (Vec2 0 0) (Vec2 0 0)"
  by (simp add: overlap_def)

text \<open>
  Two circles with the same local center collide wherever they are: the axis is the
  difference of the local centers and ignores the positions, so it is the zero vector and
  separates nothing. Likewise two rectangles that were never rotated: their normals are still
  the zero vectors of the constructor.
\<close>

theorem zero_axis_always_collides:
  assumes "\<And>p. gl_dot g (Vec2 0 0) p = 0"
    and "vs \<noteq> []" and "ws \<noteq> []"
  shows "verdict (collides g (pa, CIRCULAR \<lparr>cb_center = c, cb_radius = r\<rparr>)
             (pb, CIRCULAR \<lparr>cb_center = c, cb_radius = s\<rparr>)) = Some True
    \<and> verdict (collides g (pa, RECT (RectBoundingBox m1 n1 vs)) (pb, RECT (RectBoundingBox m2 n2 ws))) = Some True"
proof
  show "verdict (collides g (pa, CIRCULAR \<lparr>cb_center = c, cb_radius = r\<rparr>)
      (pb, CIRCULAR \<lparr>cb_center = c, cb_radius = s\<rparr>)) = Some True"
    by (simp add: collides_def collides_cc_def verdict_def project_def circ_project_def Let_def
        minus_vec2_def center2D_def assms(1))
  have "fold (\<lambda>v. grow (gl_dot g (Vec2 0 0) (v + q))) us (0, 0) = (0, 0)" for us q
    by (induction us) (simp_all add: grow_def assms(1))
  then have p: "rect_project g q (RectBoundingBox m n us) (Vec2 0 0) = Some (Vec2 0 0)" if "us \<noteq> []" for us q m n
    using that by (auto simp: rect_project_def RectBoundingBox_def Let_def assms(1) split: list.splits)
  have n: "rect_normals (RectBoundingBox m n us) = Some (RectBoundingBox m n us)"
    "rb_normals (RectBoundingBox m n us) = [Vec2 0 0, Vec2 0 0]" for m n us
    by (simp_all add: rect_normals_def RectBoundingBox_def)
  show "verdict (collides g (pa, RECT (RectBoundingBox m1 n1 vs)) (pb, RECT (RectBoundingBox m2 n2 ws))) = Some True"
    using p assms(2,3) by (simp add: collides_def collides_rr_def verdict_def n project_def)
qed

theorem zero_axis_always_collides_witness:
  "verdict (collides plain_glm (Vec3 0 0 0, CIRCULAR \<lparr>cb_center = Vec3 0 0 0, cb_radius = 1\<rparr>)
     (Vec3 100 0 0, CIRCULAR \<lparr>cb_center = Vec3 0 0 0, cb_radius = 1\<rparr>)) = Some True"
  using zero_axis_always_collides [of plain_glm "[Vec2 0 0]" "[Vec2 0 0]" "Vec3 0 0 0" "Vec3 0 0 0" 1 "Vec3 100 0 0" 1]
  by (simp add: plain_glm_def)

text \<open>
  \<^verbatim>\<open>CircularBoundingBox::intersects\<close> tests the infinite line: the segment from \<open>(100, 0)\<close> to
  \<open>(200, 0)\<close> is reported to intersect the unit circle around the origin.
\<close>

theorem circ_intersects_is_line_test:
  "circ_intersects (Vec3 0 0 0) \<lparr>cb_center = Vec3 0 0 0, cb_radius = 1\<rparr> (Vec2 100 0) (Vec2 200 0)
   \<and> \<not> circ_intersects (Vec3 0 0 0) \<lparr>cb_center = Vec3 0 0 0, cb_radius = 1\<rparr> (Vec2 100 2) (Vec2 200 2)"
  by code_simp

end
