(* ===== verification/Quadtree.thy ===== *)
theory Quadtree
  imports Physics Offset
begin

text \<open>
  The quadtree of a cell (\<^verbatim>\<open>src/map/quadtree.hpp\<close>), with the template arguments the cell uses,
  five entities per node and ten levels. The rectangle of an entity
  (\<^verbatim>\<open>boundingBox()->asRect()\<close>) is an argument: a function from entities to \<^verbatim>\<open>vec4\<close>, \<open>None\<close>
  when the entity has no bounding box.
\<close>

section \<open>Data\<close>

datatype 'e quadtree =
  QuadTree (qt_depth: int) (qt_bounds: vec4) (qt_vertices: "vec2 list")
    (qt_nodes: "'e quadtree list") (qt_entities: "'e list")

text \<open>\<^verbatim>\<open>BadCast\<close>: a coordinate that does not fit an \<^verbatim>\<open>int\<close>. \<^verbatim>\<open>OutOfFuel\<close> never happens (below).\<close>

datatype qt_error = NoBoundingBox | BadCast | OutOfFuel

definition MaxEntities :: nat where "MaxEntities = 5"
definition MaxDepth :: int where "MaxDepth = 10"

section \<open>Operations\<close>

definition QuadTree_new :: "int \<Rightarrow> vec4 \<Rightarrow> 'e quadtree" where
  "QuadTree_new depth b =
     (let width = fsub (v4z b) (v4x b); height = fsub (v4w b) (v4y b)
      in QuadTree depth b
           [Vec2 (v4x b) (v4y b), Vec2 (v4x b) (fadd (v4y b) height),
            Vec2 (fadd (v4x b) width) (fadd (v4y b) height), Vec2 (fadd (v4x b) width) (v4y b)] [] [])"

definition getIndex :: "vec4 \<Rightarrow> vec4 \<Rightarrow> int" where
  "getIndex b rect =
     (let verticalMidpoint = fadd (v4x b) (fdivc (fsub (v4z b) (v4x b)) 2);
          horizontalMidpoint = fadd (v4y b) (fdivc (fsub (v4w b) (v4y b)) 2);
          topQuadrant = (v4y rect < horizontalMidpoint
            \<and> fadd (v4y rect) (fsub (v4w rect) (v4y rect)) < horizontalMidpoint);
          bottomQuadrant = (horizontalMidpoint < v4y rect)
      in if v4x rect < verticalMidpoint \<and> fadd (v4x rect) (fsub (v4z rect) (v4x rect)) < verticalMidpoint
         then (if topQuadrant then 1 else if bottomQuadrant then 2 else - 1)
         else if verticalMidpoint < v4x rect
         then (if topQuadrant then 0 else if bottomQuadrant then 3 else - 1)
         else - 1)"

text \<open>
  The four nodes of \<^verbatim>\<open>split\<close>; the last two components of the bounds are the width and the height
  of the quadrant, as in the source.
\<close>

definition split_nodes :: "int \<Rightarrow> vec4 \<Rightarrow> 'e quadtree list option" where
  "split_nodes depth b =
     (case (int_of_float (fdivc (fsub (v4z b) (v4x b)) 2), int_of_float (fdivc (fsub (v4w b) (v4y b)) 2),
            int_of_float (v4x b), int_of_float (v4y b)) of
        (Some subWidth, Some subHeight, Some x, Some y) \<Rightarrow>
          let node = \<lambda>x0 y0. QuadTree_new (depth + 1)
                (Vec4 (float_of_int32 x0) (float_of_int32 y0) (float_of_int32 subWidth) (float_of_int32 subHeight))
          in Some [node (x + subWidth) y, node x y, node x (y + subHeight), node (x + subWidth) (y + subHeight)]
      | _ \<Rightarrow> None)"

definition rect_index :: "('e \<Rightarrow> vec4 option) \<Rightarrow> vec4 \<Rightarrow> 'e \<Rightarrow> qt_error + int" where
  "rect_index rect b e = (case rect e of None \<Rightarrow> Inl NoBoundingBox | Some r \<Rightarrow> Inr (getIndex b r))"

text \<open>
  \<open>distribute\<close> is the loop that moves entities from a node to its children: its state is the
  list of children and the entities that stay, and \<open>ins\<close> inserts into a child. \<open>qinsert\<close> has the
  depth of the recursion as fuel.
\<close>

fun distribute :: "('e \<Rightarrow> qt_error + int) \<Rightarrow> ('e \<Rightarrow> 'e quadtree \<Rightarrow> qt_error + 'e quadtree)
    \<Rightarrow> 'e list \<Rightarrow> 'e quadtree list \<Rightarrow> qt_error + ('e quadtree list \<times> 'e list)" where
  "distribute idx ins [] nodes = Inr (nodes, [])"
| "distribute idx ins (e # es) nodes =
     rbind (idx e) (\<lambda>index.
       if index \<noteq> - 1
       then rbind (ins e (nodes ! nat index)) (\<lambda>n. distribute idx ins es (nodes[nat index := n]))
       else rbind (distribute idx ins es nodes) (\<lambda>(nodes, stay). Inr (nodes, e # stay)))"

definition add_here :: "('e \<Rightarrow> qt_error + int) \<Rightarrow> ('e \<Rightarrow> 'e quadtree \<Rightarrow> qt_error + 'e quadtree)
    \<Rightarrow> 'e \<Rightarrow> 'e quadtree \<Rightarrow> qt_error + 'e quadtree" where
  "add_here idx ins e t =
     (case t of QuadTree depth b vs nodes es \<Rightarrow>
        let es = es @ [e]
        in if MaxEntities < length es \<and> depth < MaxDepth
           then rbind (if nodes = [] then (case split_nodes depth b of None \<Rightarrow> Inl BadCast | Some ns \<Rightarrow> Inr ns)
                       else Inr nodes)
                  (\<lambda>nodes. rbind (distribute idx ins es nodes)
                     (\<lambda>(nodes, es). Inr (QuadTree depth b vs nodes es)))
           else Inr (QuadTree depth b vs nodes es))"

fun qinsert :: "nat \<Rightarrow> ('e \<Rightarrow> vec4 option) \<Rightarrow> 'e \<Rightarrow> 'e quadtree \<Rightarrow> qt_error + 'e quadtree" where
  "qinsert 0 rect e t = Inl OutOfFuel"
| "qinsert (Suc n) rect e (QuadTree depth b vs nodes es) =
     (if nodes = [] then add_here (rect_index rect b) (qinsert n rect) e (QuadTree depth b vs nodes es)
      else rbind (rect_index rect b e) (\<lambda>index.
             if index \<noteq> - 1
             then rbind (qinsert n rect e (nodes ! nat index))
                    (\<lambda>n. Inr (QuadTree depth b vs (nodes[nat index := n]) es))
             else add_here (rect_index rect b) (qinsert n rect) e (QuadTree depth b vs nodes es)))"

definition qt_insert :: "('e \<Rightarrow> vec4 option) \<Rightarrow> 'e \<Rightarrow> 'e quadtree \<Rightarrow> qt_error + 'e quadtree" where
  "qt_insert rect e t = qinsert 11 rect e t"

definition qt_intersects :: "vec4 \<Rightarrow> vec2 \<Rightarrow> vec2 \<Rightarrow> bool" where
  "qt_intersects b start end =
     ((v4x b < v2x start \<and> v4y b < v2y start \<and> v2x end < v4z b \<and> v2y end < v4w b)
      \<or> (let width = fsub (v4z b) (v4x b); height = fsub (v4w b) (v4y b)
         in intersects (Vec2 (v4x b) (v4y b)) (Vec2 (v4x b) (fadd (v4y b) height)) start end
          \<or> intersects (Vec2 (v4x b) (fadd (v4y b) height)) (Vec2 (fadd (v4x b) width) (fadd (v4y b) height)) start end
          \<or> intersects (Vec2 (fadd (v4x b) width) (fadd (v4y b) height)) (Vec2 (fadd (v4x b) width) (v4y b)) start end
          \<or> intersects (Vec2 (fadd (v4x b) width) (v4y b)) (Vec2 (v4x b) (v4y b)) start end))"

fun retrieve :: "vec4 \<Rightarrow> 'e quadtree \<Rightarrow> 'e list \<Rightarrow> 'e list" where
  "retrieve rect (QuadTree depth b vs nodes es) entities =
     (if \<not> qt_intersects b (Vec2 (v4x rect) (v4y rect)) (Vec2 (v4z rect) (v4y rect))
       \<and> \<not> qt_intersects b (Vec2 (v4x rect) (v4y rect)) (Vec2 (v4z rect) (v4w rect))
       \<and> \<not> qt_intersects b (Vec2 (v4z rect) (v4y rect)) (Vec2 (v4z rect) (v4w rect))
       \<and> \<not> qt_intersects b (Vec2 (v4x rect) (v4y rect)) (Vec2 (v4z rect) (v4y rect))
      then entities
      else fold (retrieve rect) nodes entities @ es)"

fun trace :: "vec2 \<Rightarrow> vec2 \<Rightarrow> 'e quadtree \<Rightarrow> 'e list \<Rightarrow> 'e list" where
  "trace start end (QuadTree depth b vs nodes es) entities =
     (if \<not> qt_intersects b start end then entities
      else fold (trace start end) nodes entities @ es)"

fun clear :: "'e quadtree \<Rightarrow> 'e quadtree" where
  "clear (QuadTree depth b vs nodes es) = QuadTree depth b vs (map clear nodes) []"

section \<open>The radial quadtree\<close>

record 'e radial_quadtree =
  rq_tree :: "'e quadtree"
  rq_center :: vec2
  rq_radiusSqr :: rat

definition RadialQuadTree :: "vec2 \<Rightarrow> rat \<Rightarrow> 'e radial_quadtree" where
  "RadialQuadTree c radius =
     \<lparr>rq_tree = QuadTree_new 0 (Vec4 (fsub (v2x c) radius) (fsub (v2y c) radius)
                                     (fadd (v2x c) radius) (fadd (v2y c) radius)),
      rq_center = c, rq_radiusSqr = rnd32 (pow2 radius)\<rparr>"

definition contains :: "vec2 \<Rightarrow> 'e radial_quadtree \<Rightarrow> bool" where
  "contains pos q \<longleftrightarrow>
     rnd64 (pow2 (fsub (v2x pos) (v2x (rq_center q))) + pow2 (fsub (v2y pos) (v2y (rq_center q))))
       \<le> rq_radiusSqr q"

section \<open>Splitting\<close>

definition in_box :: "rat \<Rightarrow> vec4 \<Rightarrow> bool" where
  "in_box B b \<longleftrightarrow> \<bar>v4x b\<bar> \<le> B \<and> \<bar>v4y b\<bar> \<le> B \<and> \<bar>v4z b\<bar> \<le> B \<and> \<bar>v4w b\<bar> \<le> B"

lemma half_width_error:
  assumes "\<bar>x\<bar> \<le> 16777216" and "\<bar>z\<bar> \<le> 16777216"
  shows "\<bar>fdivc (fsub z x) 2 - (z - x) / 2\<bar> \<le> 9 / 4"
proof -
  have a: "\<bar>z - x\<bar> + 0 \<le> 33554432" using assms by linarith
  have e1: "\<bar>fsub z x - (z - x)\<bar> \<le> 21 / 10"
    unfolding fsub_def by (rule f32_err_trans [OF _ a]) simp_all
  have h: "\<bar>y / 2 - k / 2\<bar> \<le> 21 / 20" if "\<bar>y - k\<bar> \<le> 21 / 10" for y k :: rat
    using that by linarith
  have b: "\<bar>k / 2\<bar> + 21 / 20 \<le> 16777218" if "\<bar>k\<bar> + 0 \<le> (33554432 :: rat)" for k using that by simp
  show ?thesis
    unfolding fdivc_def by (rule f32_err_trans [OF h [OF e1] b [OF a]]) simp
qed

lemma trunc_int:
  assumes "\<bar>x\<bar> \<le> 16777220"
  obtains k where "int_of_float x = Some (word_of_int k)" "\<bar>of_int k - x\<bar> < 1" "\<bar>k\<bar> \<le> 16777220"
proof
  define k where "k = (if 0 \<le> x then \<lfloor>x\<rfloor> else \<lceil>x\<rceil>)"
  have "of_int k \<le> (16777220 :: rat)" "(- 16777220 :: rat) \<le> of_int k"
    using assms by (auto simp: k_def; linarith)+
  then have "k \<le> 16777220" "- 16777220 \<le> k" by linarith+
  then show "\<bar>k\<bar> \<le> 16777220" and "int_of_float x = Some (word_of_int k)"
    by (simp_all add: int_of_float_def k_def [symmetric])
  show "\<bar>of_int k - x\<bar> < 1" by (auto simp: k_def; linarith)
qed

lemma float_of_int32_grid:
  "\<bar>k\<bar> \<le> 16777216 \<Longrightarrow> float_of_int32 (word_of_int k) = of_int k"
  using f32.small_int [of k] by (simp add: float_of_int32_def sint_word_of_int32)

lemma of_int_abs_le: "\<bar>of_int k :: rat\<bar> \<le> 16777216 \<Longrightarrow> \<bar>k\<bar> \<le> 16777216"
  by (metis of_int_abs of_int_le_iff of_int_numeral)

text \<open>The corner and the width of a quadrant, along one coordinate.\<close>

lemma split_coordinate:
  assumes "\<bar>x\<bar> \<le> B" and "\<bar>z\<bar> \<le> B" and "B \<le> 16777208"
  obtains w k where "int_of_float (fdivc (fsub z x) 2) = Some (word_of_int w)"
    "int_of_float x = Some (word_of_int k)"
    "\<bar>float_of_int32 (word_of_int w)\<bar> \<le> B + 5" "\<bar>float_of_int32 (word_of_int k)\<bar> \<le> B + 5"
    "\<bar>float_of_int32 (word_of_int k + word_of_int w)\<bar> \<le> B + 5"
proof -
  have le: "\<bar>x\<bar> \<le> 16777216" "\<bar>z\<bar> \<le> 16777216" using assms by linarith+
  note e = half_width_error [OF le]
  have "\<bar>f\<bar> \<le> B + 9 / 4" if "\<bar>f - (z - x) / 2\<bar> \<le> 9 / 4" for f
    using that assms(1,2) unfolding diff_divide_distrib by linarith
  from this [OF e] have b: "\<bar>fdivc (fsub z x) 2\<bar> \<le> B + 9 / 4" .
  then have "\<bar>fdivc (fsub z x) 2\<bar> \<le> 16777220" using assms(3) by linarith
  then obtain w where w: "int_of_float (fdivc (fsub z x) 2) = Some (word_of_int w)"
    "\<bar>of_int w - fdivc (fsub z x) 2\<bar> < 1" by (rule trunc_int)
  have "\<bar>x\<bar> \<le> 16777220" using le by linarith
  then obtain k where k: "int_of_float x = Some (word_of_int k)" "\<bar>of_int k - x\<bar> < 1" by (rule trunc_int)
  have ww: "\<bar>of_int w :: rat\<bar> \<le> B + 5" using w(2) b by linarith
  have kk: "\<bar>of_int k :: rat\<bar> \<le> B + 5" using k(2) assms(1) by linarith
  have "\<bar>i + j\<bar> \<le> B + 5" if "\<bar>i - x\<bar> < 1" "\<bar>j - f\<bar> < 1" "\<bar>f - (z - x) / 2\<bar> \<le> 9 / 4" for i j f :: rat
    using that assms(1,2) unfolding diff_divide_distrib by linarith
  from this [OF k(2) w(2) e] have kw: "\<bar>of_int (k + w) :: rat\<bar> \<le> B + 5" by simp
  have g: "\<bar>m\<bar> \<le> 16777216" if "\<bar>of_int m :: rat\<bar> \<le> B + 5" for m
    using that assms(3) by (intro of_int_abs_le) linarith
  have "float_of_int32 (word_of_int w) = of_int w" "float_of_int32 (word_of_int k) = of_int k"
    "float_of_int32 (word_of_int k + word_of_int w) = of_int (k + w)"
    using float_of_int32_grid [OF g [OF ww]] float_of_int32_grid [OF g [OF kk]]
      float_of_int32_grid [OF g [OF kw]] by simp_all
  with that [OF w(1) k(1)] ww kk kw show thesis by simp
qed

lemma split_nodes_ok:
  assumes "in_box B b" and "B \<le> 16777208"
  shows "\<exists>ns. split_nodes d b = Some ns \<and> length ns = 4
    \<and> (\<forall>n \<in> set ns. qt_depth n = d + 1 \<and> in_box (B + 5) (qt_bounds n) \<and> qt_nodes n = [] \<and> qt_entities n = [])"
proof -
  have le: "\<bar>v4x b\<bar> \<le> B" "\<bar>v4z b\<bar> \<le> B" "\<bar>v4y b\<bar> \<le> B" "\<bar>v4w b\<bar> \<le> B"
    using assms(1) by (simp_all add: in_box_def)
  obtain w x where x: "int_of_float (fdivc (fsub (v4z b) (v4x b)) 2) = Some (word_of_int w)"
    "int_of_float (v4x b) = Some (word_of_int x)"
    "\<bar>float_of_int32 (word_of_int w)\<bar> \<le> B + 5" "\<bar>float_of_int32 (word_of_int x)\<bar> \<le> B + 5"
    "\<bar>float_of_int32 (word_of_int x + word_of_int w)\<bar> \<le> B + 5"
    using split_coordinate [OF le(1,2) assms(2)] by blast
  obtain h y where y: "int_of_float (fdivc (fsub (v4w b) (v4y b)) 2) = Some (word_of_int h)"
    "int_of_float (v4y b) = Some (word_of_int y)"
    "\<bar>float_of_int32 (word_of_int h)\<bar> \<le> B + 5" "\<bar>float_of_int32 (word_of_int y)\<bar> \<le> B + 5"
    "\<bar>float_of_int32 (word_of_int y + word_of_int h)\<bar> \<le> B + 5"
    using split_coordinate [OF le(3,4) assms(2)] by blast
  show ?thesis
    by (simp add: split_nodes_def x y QuadTree_new_def Let_def in_box_def)
qed

section \<open>Well-formed trees\<close>

text \<open>
  A tree at level \<open>d\<close>: nodes are four or none, one level deeper, and only above the last level;
  the bounds stay within \<open>B\<close> and what splitting adds at every level.
\<close>

fun qt_wf :: "rat \<Rightarrow> int \<Rightarrow> 'e quadtree \<Rightarrow> bool" where
  "qt_wf B d (QuadTree depth b vs nodes es) \<longleftrightarrow>
     depth = d \<and> d \<le> MaxDepth \<and> in_box (B + 5 * of_int d) b
     \<and> (nodes = [] \<or> length nodes = 4 \<and> d < MaxDepth) \<and> (\<forall>n \<in> set nodes. qt_wf B (d + 1) n)"

fun all_entities :: "'e quadtree \<Rightarrow> 'e list" where
  "all_entities (QuadTree depth b vs nodes es) = es @ concat (map all_entities nodes)"

abbreviation qt_mset :: "'e quadtree \<Rightarrow> 'e multiset" where
  "qt_mset t \<equiv> mset (all_entities t)"

lemma getIndex_range: "getIndex b r \<in> {-1, 0, 1, 2, 3}"
  by (simp add: getIndex_def Let_def)

lemma rect_index_total:
  "rect e \<noteq> None \<Longrightarrow> \<exists>i. rect_index rect b e = Inr i \<and> (i \<noteq> - 1 \<longrightarrow> 0 \<le> i \<and> i < 4)"
  using getIndex_range [of b] by (fastforce simp: rect_index_def)

lemma mset_concat_update:
  assumes "i < length ns" and "qt_mset n = add_mset e (qt_mset (ns ! i))"
  shows "mset (concat (map all_entities (ns[i := n]))) = add_mset e (mset (concat (map all_entities ns)))"
  using assms
proof (induction ns arbitrary: i)
  case (Cons m ns)
  then show ?case by (cases i) auto
qed simp

text \<open>What an insertion into a node promises, and that the distribution loop keeps it.\<close>

definition inserts :: "rat \<Rightarrow> int \<Rightarrow> 'e set \<Rightarrow> ('e \<Rightarrow> 'e quadtree \<Rightarrow> qt_error + 'e quadtree) \<Rightarrow> bool" where
  "inserts B d E ins \<longleftrightarrow> (\<forall>e t. e \<in> E \<longrightarrow> qt_wf B d t \<longrightarrow> set (all_entities t) \<subseteq> E \<longrightarrow>
     (\<exists>t'. ins e t = Inr t' \<and> qt_wf B d t' \<and> qt_mset t' = add_mset e (qt_mset t)))"

lemma distribute_ok:
  assumes ins: "inserts B d E ins"
    and idx: "\<And>e. e \<in> E \<Longrightarrow> \<exists>i. idx e = Inr i \<and> (i \<noteq> - 1 \<longrightarrow> 0 \<le> i \<and> i < 4)"
    and "set es \<subseteq> E" and "length ns = 4" and "\<forall>n \<in> set ns. qt_wf B d n \<and> set (all_entities n) \<subseteq> E"
  shows "\<exists>ns' stay. distribute idx ins es ns = Inr (ns', stay) \<and> length ns' = 4
    \<and> (\<forall>n \<in> set ns'. qt_wf B d n)
    \<and> mset stay + mset (concat (map all_entities ns')) = mset es + mset (concat (map all_entities ns))"
  using assms(3-5)
proof (induction es arbitrary: ns)
  case (Cons e es)
  obtain i where i: "idx e = Inr i" "i \<noteq> - 1 \<longrightarrow> 0 \<le> i \<and> i < 4" using idx Cons.prems(1) by auto
  show ?case
  proof (cases "i = - 1")
    case True
    obtain ns' stay where "distribute idx ins es ns = Inr (ns', stay)" "length ns' = 4"
      "\<forall>n \<in> set ns'. qt_wf B d n"
      "mset stay + mset (concat (map all_entities ns')) = mset es + mset (concat (map all_entities ns))"
      using Cons.IH [of ns] Cons.prems by auto
    then show ?thesis using i(1) True by simp
  next
    case False
    then have lt: "nat i < length ns" using i(2) Cons.prems(2) by (simp add: nat_less_iff)
    then have mem: "ns ! nat i \<in> set ns" by simp
    then obtain n where n: "ins e (ns ! nat i) = Inr n" "qt_wf B d n"
      "qt_mset n = add_mset e (qt_mset (ns ! nat i))"
      using ins Cons.prems unfolding inserts_def by (metis list.set_intros(1) subset_iff)
    note upd = mset_concat_update [OF lt n(3)]
    have "set (all_entities n) = set_mset (add_mset e (qt_mset (ns ! nat i)))"
      by (simp only: n(3) [symmetric] set_mset_mset)
    then have "set (all_entities n) \<subseteq> E" using mem Cons.prems by auto
    then have "\<forall>m \<in> set (ns[nat i := n]). qt_wf B d m \<and> set (all_entities m) \<subseteq> E"
      using Cons.prems(3) n(2) set_update_subset_insert [of ns "nat i" n] by blast
    then obtain ns' stay where "distribute idx ins es (ns[nat i := n]) = Inr (ns', stay)" "length ns' = 4"
      "\<forall>n \<in> set ns'. qt_wf B d n"
      "mset stay + mset (concat (map all_entities ns')) =
        mset es + mset (concat (map all_entities (ns[nat i := n])))"
      using Cons.IH [of "ns[nat i := n]"] Cons.prems by auto
    then show ?thesis using i(1) False n(1) upd by simp
  qed
qed simp

lemma add_here_ok:
  assumes ins: "d < MaxDepth \<longrightarrow> inserts B (d + 1) E ins"
    and idx: "\<And>e. e \<in> E \<Longrightarrow> \<exists>i. idx e = Inr i \<and> (i \<noteq> - 1 \<longrightarrow> 0 \<le> i \<and> i < 4)"
    and wf: "qt_wf B d t" and B: "B \<le> 16777150" and E: "e \<in> E" "set (all_entities t) \<subseteq> E"
  shows "\<exists>t'. add_here idx ins e t = Inr t' \<and> qt_wf B d t' \<and> qt_mset t' = add_mset e (qt_mset t)"
proof -
  obtain b vs nodes es where t: "t = QuadTree d b vs nodes es" using wf by (cases t) auto
  show ?thesis
  proof (cases "MaxEntities < length (es @ [e]) \<and> d < MaxDepth")
    case False
    then show ?thesis using wf by (auto simp: add_here_def t Let_def)
  next
    case True
    have "\<exists>ns. (if nodes = [] then (case split_nodes d b of None \<Rightarrow> Inl BadCast | Some ns \<Rightarrow> Inr ns)
          else Inr nodes) = Inr ns \<and> length ns = 4 \<and> (\<forall>n \<in> set ns. qt_wf B (d + 1) n \<and> set (all_entities n) \<subseteq> E)
        \<and> mset (concat (map all_entities ns)) = mset (concat (map all_entities nodes))"
    proof (cases "nodes = []")
      case [simp]: True
      have d: "of_int d \<le> (10 :: rat)" using wf by (simp add: t MaxDepth_def)
      have "in_box (B + 5 * of_int d) b" "B + 5 * of_int d \<le> 16777208" using wf B d by (simp_all add: t)
      from split_nodes_ok [OF this, of d] obtain ns :: "'a quadtree list" where ns: "split_nodes d b = Some ns" "length ns = 4"
        "\<forall>n \<in> set ns. qt_depth n = d + 1 \<and> in_box (B + 5 * of_int d + 5) (qt_bounds n)
          \<and> qt_nodes n = [] \<and> qt_entities n = []" by blast
      have "qt_wf B (d + 1) n \<and> all_entities n = []" if "n \<in> set ns" for n
        by (rule quadtree.exhaust [of n])
          (use that ns(3) \<open>MaxEntities < length (es @ [e]) \<and> d < MaxDepth\<close> in \<open>auto simp: algebra_simps\<close>)
      then show ?thesis using ns(1,2) by auto
    qed (use wf E in \<open>auto simp: t\<close>)
    then obtain ns where ns: "(if nodes = [] then (case split_nodes d b of None \<Rightarrow> Inl BadCast | Some ns \<Rightarrow> Inr ns)
          else Inr nodes) = Inr ns" "length ns = 4" "\<forall>n \<in> set ns. qt_wf B (d + 1) n \<and> set (all_entities n) \<subseteq> E"
      "mset (concat (map all_entities ns)) = mset (concat (map all_entities nodes))" by blast
    have "set (es @ [e]) \<subseteq> E" using E by (simp add: t)
    from distribute_ok [OF mp [OF ins conjunct2 [OF True]], where idx = idx, OF idx this ns(2,3)]
    obtain ns' stay where "distribute idx ins (es @ [e]) ns = Inr (ns', stay)" "length ns' = 4"
      "\<forall>n \<in> set ns'. qt_wf B (d + 1) n"
      "mset stay + mset (concat (map all_entities ns')) = mset (es @ [e]) + mset (concat (map all_entities ns))"
      by blast
    then show ?thesis
      using True ns(1,4) wf by (auto simp: add_here_def t Let_def)
  qed
qed

lemma qinsert_ok:
  assumes "B \<le> 16777150" and "\<forall>e \<in> E. rect e \<noteq> None" and "MaxDepth - d < int n"
  shows "inserts B d E (qinsert n rect)"
  using assms(3)
proof (induction n arbitrary: d)
  case 0
  have False if "qt_wf B d t" for t :: "'a quadtree" using that 0 by (cases t) auto
  then show ?case unfolding inserts_def by blast
next
  case (Suc n)
  have IH: "d < MaxDepth \<longrightarrow> inserts B (d + 1) E (qinsert n rect)" using Suc.IH [of "d + 1"] Suc.prems by auto
  show ?case
    unfolding inserts_def
  proof (intro allI impI)
    fix e and t :: "'a quadtree" assume e: "e \<in> E" and wf: "qt_wf B d t" and E: "set (all_entities t) \<subseteq> E"
    obtain b vs nodes es where t: "t = QuadTree d b vs nodes es" using wf by (cases t) auto
    have idx: "\<exists>i. rect_index rect b e = Inr i \<and> (i \<noteq> - 1 \<longrightarrow> 0 \<le> i \<and> i < 4)" if "e \<in> E" for e
      using assms(2) that by (intro rect_index_total) blast
    note here = add_here_ok [OF IH idx wf assms(1) e E]
    obtain i where i: "rect_index rect b e = Inr i" "i \<noteq> - 1 \<longrightarrow> 0 \<le> i \<and> i < 4" using idx [OF e] by blast
    show "\<exists>t'. qinsert (Suc n) rect e t = Inr t' \<and> qt_wf B d t' \<and> qt_mset t' = add_mset e (qt_mset t)"
    proof (cases "nodes = [] \<or> i = - 1")
      case True
      then show ?thesis using here i(1) by (auto simp: t)
    next
      case False
      then have lt: "nat i < length nodes" and d: "d < MaxDepth" using i(2) wf by (auto simp: t)
      then have "qt_wf B (d + 1) (nodes ! nat i)" "set (all_entities (nodes ! nat i)) \<subseteq> E"
        using wf E nth_mem [OF lt] by (simp_all add: t UN_subset_iff)
      then obtain m where m: "qinsert n rect e (nodes ! nat i) = Inr m" "qt_wf B (d + 1) m"
        "qt_mset m = add_mset e (qt_mset (nodes ! nat i))"
        using IH d e unfolding inserts_def by blast
      have "qt_wf B d (QuadTree d b vs (nodes[nat i := m]) es)"
        using wf m(2) False set_update_subset_insert [of nodes "nat i" m] by (auto simp: t)
      then show ?thesis
        using False i(1) m(1) mset_concat_update [OF lt m(3)] by (simp add: t)
    qed
  qed
qed

section \<open>Properties\<close>

text \<open>
  C23. Insertion always returns, loses nothing and duplicates nothing: in a well-formed tree
  whose root bounds are below \<open>2^24 - 66\<close>, inserting an entity succeeds within eleven levels of
  recursion, the tree stays well formed (depth at most ten, four nodes or none), and the
  entities it holds are those it held and the new one, with multiplicity.
\<close>

theorem qt_insert_correct:
  assumes "qt_wf B 0 t" and "B \<le> 16777150"
    and "rect e \<noteq> None" and "\<forall>x \<in> set (all_entities t). rect x \<noteq> None"
  shows "\<exists>t'. qt_insert rect e t = Inr t' \<and> qt_wf B 0 t' \<and> qt_mset t' = add_mset e (qt_mset t)"
proof -
  have "inserts B 0 (Set.insert e (set (all_entities t))) (qinsert 11 rect)"
    by (rule qinsert_ok) (use assms in \<open>auto simp: MaxDepth_def\<close>)
  then show ?thesis using assms(1) unfolding inserts_def qt_insert_def by blast
qed

definition fill :: "('e \<Rightarrow> vec4 option) \<Rightarrow> 'e list \<Rightarrow> 'e quadtree \<Rightarrow> qt_error + 'e quadtree" where
  "fill rect es t = rfold (qt_insert rect) es t"

definition sample_rect :: "nat \<Rightarrow> vec4 option" where
  "sample_rect n = Some (Vec4 (10 + of_nat n) 10 (11 + of_nat n) 11)"

theorem qt_insert_correct_witness:
  "\<exists>t'. qt_insert sample_rect 7 (QuadTree_new 0 (Vec4 (-90) (-90) 90 90)) = Inr t'
     \<and> qt_wf 90 0 t' \<and> qt_mset t' = {#7#}"
  using qt_insert_correct [of 90 "QuadTree_new 0 (Vec4 (-90) (-90) 90 90)" sample_rect 7]
  by (simp add: QuadTree_new_def Let_def in_box_def sample_rect_def MaxDepth_def)

lemma fold_collect:
  assumes "\<And>n acc. n \<in> set nodes \<Longrightarrow> \<exists>xs. f n acc = acc @ xs \<and> mset xs \<subseteq># qt_mset n"
  shows "\<exists>xs. fold f nodes acc = acc @ xs \<and> mset xs \<subseteq># mset (concat (map all_entities nodes))"
  using assms
proof (induction nodes arbitrary: acc)
  case (Cons n nodes)
  obtain xs where xs: "f n acc = acc @ xs" "mset xs \<subseteq># qt_mset n"
    using Cons.prems [of n acc] by auto
  obtain ys where ys: "fold f nodes (acc @ xs) = (acc @ xs) @ ys"
    "mset ys \<subseteq># mset (concat (map all_entities nodes))"
    using Cons.IH [of "acc @ xs"] Cons.prems by (meson list.set_intros(2))
  then show ?case using xs by (auto intro!: exI [of _ "xs @ ys"] subset_mset.add_mono)
qed simp

lemma collect_here:
  assumes "\<exists>xs. ys = acc @ xs \<and> mset xs \<subseteq># mset (concat (map all_entities nodes))"
  shows "\<exists>xs. (if c then acc else ys @ es) = acc @ xs \<and> mset xs \<subseteq># qt_mset (QuadTree depth b vs nodes es)"
proof -
  obtain xs where xs: "ys = acc @ xs" "mset xs \<subseteq># mset (concat (map all_entities nodes))"
    using assms by blast
  have "mset (xs @ es) \<subseteq># qt_mset (QuadTree depth b vs nodes es)"
    using xs(2) by (simp add: union_commute subset_mset.add_mono)
  then show ?thesis
    using xs(1) by (cases c) (auto intro: exI [of _ "[]"] exI [of _ "xs @ es"])
qed

lemma retrieve_sub: "\<exists>xs. retrieve rect t acc = acc @ xs \<and> mset xs \<subseteq># qt_mset t"
proof (induction t arbitrary: acc)
  case (QuadTree depth b vs nodes es)
  show ?case
    unfolding retrieve.simps by (rule collect_here, rule fold_collect, rule QuadTree.IH)
qed

lemma trace_sub: "\<exists>xs. trace s e t acc = acc @ xs \<and> mset xs \<subseteq># qt_mset t"
proof (induction t arbitrary: acc)
  case (QuadTree depth b vs nodes es)
  show ?case
    unfolding trace.simps by (rule collect_here, rule fold_collect, rule QuadTree.IH)
qed

text \<open>
  What \<^verbatim>\<open>retrieve\<close> and \<^verbatim>\<open>trace\<close> append are entities of the tree, none of them more often than
  the tree holds it, and after \<^verbatim>\<open>clear\<close>, which keeps the nodes, they find nothing.
\<close>

theorem queries_sound:
  "mset (retrieve rect t []) \<subseteq># qt_mset t \<and> mset (trace s e t []) \<subseteq># qt_mset t
   \<and> all_entities (clear t) = [] \<and> retrieve rect (clear t) [] = [] \<and> trace s e (clear t) [] = []"
proof -
  have c: "all_entities (clear t) = []" by (induction t) simp
  have "mset (retrieve rect (clear t) []) \<subseteq># {#}" "mset (trace s e (clear t) []) \<subseteq># {#}"
    using retrieve_sub [of rect "clear t" "[]"] trace_sub [of s e "clear t" "[]"] c by fastforce+
  then show ?thesis
    using retrieve_sub [of rect t "[]"] trace_sub [of s e t "[]"] c by fastforce
qed

text \<open>
  Before a cell is crowded enough to split its tree, a query by a rectangle inside the
  bounds returns every entity: no collision candidate is missed.
\<close>

theorem retrieve_complete_unsplit:
  assumes "qt_nodes t = []"
    and "v4x (qt_bounds t) < v4x rect" and "v4y (qt_bounds t) < v4y rect"
    and "v4z rect < v4z (qt_bounds t)" and "v4w rect < v4w (qt_bounds t)"
  shows "retrieve rect t acc = acc @ all_entities t"
  using assms by (cases t) (simp add: qt_intersects_def)

theorem retrieve_complete_unsplit_witness:
  "retrieve (Vec4 1 1 2 2) (QuadTree 0 (Vec4 (-90) (-90) 90 90) [] [] [3, 4 :: nat]) [] = [3, 4]"
  using retrieve_complete_unsplit [of "QuadTree 0 (Vec4 (-90) (-90) 90 90) [] [] [3, 4 :: nat]" "Vec4 1 1 2 2" "[]"]
  by simp


section \<open>A deviation\<close>

definition crowd :: "nat \<Rightarrow> vec4 option" where
  "crowd n = (if n = 0 then Some (Vec4 150 100 152 102)
     else if n \<le> 3 then Some (Vec4 40 0 42 2)
     else if n \<le> 5 then Some (Vec4 40 100 42 102)
     else Some (Vec4 150 0 152 2))"

lemma crowd_index:
  "getIndex (Vec4 30 (- 20) 210 160) (Vec4 150 100 152 102) = 3"
  "getIndex (Vec4 30 (- 20) 210 160) (Vec4 40 0 42 2) = 1"
  "getIndex (Vec4 30 (- 20) 210 160) (Vec4 40 100 42 102) = 2"
  "getIndex (Vec4 30 (- 20) 210 160) (Vec4 150 0 152 2) = 0"
  by (simp_all add: getIndex_def fops_defs)

lemma crowd_split: "split_nodes 0 (Vec4 30 (- 20) 210 160) =
  Some [QuadTree_new 1 (Vec4 120 (- 20) 90 90), QuadTree_new 1 (Vec4 30 (- 20) 90 90),
        QuadTree_new 1 (Vec4 30 70 90 90), QuadTree_new 1 (Vec4 120 70 90 90)]"
  by (simp add: split_nodes_def fops_defs int_of_float_def float_of_int32_def)

lemma miss: "retrieve (Vec4 150 100 152 102) (QuadTree 1 (Vec4 120 70 90 90) vs [] es) acc = acc"
  by (simp add: qt_intersects_def intersects_def ccw_def fops_defs)


lemma insert_unsplit:
  "qt_insert rect e (QuadTree d b vs [] es) =
     add_here (rect_index rect b) (qinsert 10 rect) e (QuadTree d b vs [] es)"
  "qinsert 10 rect e (QuadTree d b vs [] es) =
     add_here (rect_index rect b) (qinsert 9 rect) e (QuadTree d b vs [] es)"
  using qinsert.simps(2) [of 10 rect e d b vs "[]" es] qinsert.simps(2) [of 9 rect e d b vs "[]" es]
  by (simp_all add: qt_insert_def)

lemma retrieve_set: "set (retrieve rect t acc) \<subseteq> set acc \<union> set (all_entities t)"
proof -
  obtain xs where "retrieve rect t acc = acc @ xs" "mset xs \<subseteq># qt_mset t" using retrieve_sub by blast
  then show ?thesis using set_mset_mono [of "mset xs" "qt_mset t"] by auto
qed

end
