(* ===== verification/Reactive.thy ===== *)
theory Reactive
  imports Prelude
begin

unbundle bit_operations_syntax

text \<open>
  The debug monitor (\<^verbatim>\<open>src/debug/reactive.hpp\<close>, \<^verbatim>\<open>reactive.cpp\<close>, the log switches of
  \<^verbatim>\<open>debug.hpp\<close>) and the queue that counts its elements (\<^verbatim>\<open>queue_with_size.hpp\<close>). The
  drawing of the terminal page (\<^verbatim>\<open>update_impl\<close>), which reads this state and those of other components, is in
  \<open>Status_Page\<close>. The counters are \<^verbatim>\<open>uint16_t\<close> and are not initialised by the
  constructor, so \<open>Reactive_new\<close> takes their initial contents as an argument.
\<close>

section \<open>Log switches\<close>

definition LOG_LEVEL_DEBUG :: uint32 where "LOG_LEVEL_DEBUG = 1"
definition LOG_LEVEL_INFO :: uint32 where "LOG_LEVEL_INFO = 2"
definition LOG_LEVEL_WARNING :: uint32 where "LOG_LEVEL_WARNING = 4"
definition LOG_LEVEL_ERROR :: uint32 where "LOG_LEVEL_ERROR = 8"
definition LOG_CLUSTERS :: uint32 where "LOG_CLUSTERS = 0x4"
definition LOG_PACKET_LIFECYCLE :: uint32 where "LOG_PACKET_LIFECYCLE = 0x20"
definition LOG_SERVER_LOOP :: uint32 where "LOG_SERVER_LOOP = 0x100"
definition LOG_CELL_CHANGES :: uint32 where "LOG_CELL_CHANGES = 0x400"
definition LOG_QUADTREE :: uint32 where "LOG_QUADTREE = 0x2000"

definition LOG_HANDLERS :: uint32 where
  "LOG_HANDLERS = 0xFFFFFFFF AND NOT LOG_SERVER_LOOP AND NOT LOG_QUADTREE AND NOT LOG_CELL_CHANGES"

definition LOG_LEVEL :: uint32 where
  "LOG_LEVEL = LOG_LEVEL_DEBUG OR LOG_LEVEL_INFO OR LOG_LEVEL_WARNING OR LOG_LEVEL_ERROR"

section \<open>State and operations\<close>

record counters =
  numAlivePackets :: uint16
  pendingAcceptClient :: uint16
  pendingCloseClient :: uint16
  numClients :: uint16
  numClusters :: uint16
  numCells :: uint16
  numStallShown :: uint16
  numStallCandidatesShown :: uint16

definition zero_counters :: counters where
  "zero_counters = \<lparr>numAlivePackets = 0, pendingAcceptClient = 0, pendingCloseClient = 0,
     numClients = 0, numClusters = 0, numCells = 0, numStallShown = 0, numStallCandidatesShown = 0\<rparr>"

record reactive =
  rx_debug :: bool
  LogLevel :: uint32
  LogHandlers :: uint32
  rx_lastUpdate :: int
  messages :: "string list"
  packetCount :: "uint16 \<Rightarrow> uint16"
  rx_counters :: counters

text \<open>\<open>rx_debug\<close> is the build: \<^verbatim>\<open>!defined(NDEBUG) || defined(_DEBUG)\<close>.\<close>

definition Reactive_new :: "bool \<Rightarrow> int \<Rightarrow> counters \<Rightarrow> reactive" where
  "Reactive_new debug now junk =
     \<lparr>rx_debug = debug, LogLevel = LOG_LEVEL, LogHandlers = LOG_HANDLERS, rx_lastUpdate = now,
      messages = [], packetCount = (\<lambda>_. 0), rx_counters = junk\<rparr>"

definition if_log :: "uint32 \<Rightarrow> uint32 \<Rightarrow> reactive \<Rightarrow> bool" where
  "if_log lvl handler rx \<longleftrightarrow> rx_debug rx
     \<and> lvl AND LOG_LEVEL \<noteq> 0 \<and> handler AND LOG_HANDLERS \<noteq> 0
     \<and> LogLevel rx AND lvl \<noteq> 0 \<and> LogHandlers rx AND handler \<noteq> 0"

definition onPacketCreated :: "reactive \<Rightarrow> reactive" where
  "onPacketCreated rx =
     rx\<lparr>rx_counters := (rx_counters rx)\<lparr>numAlivePackets := numAlivePackets (rx_counters rx) + 1\<rparr>\<rparr>"

definition onPacketWritten :: "uint16 \<Rightarrow> reactive \<Rightarrow> reactive" where
  "onPacketWritten opcode rx =
     (if if_log LOG_LEVEL_DEBUG LOG_PACKET_LIFECYCLE rx
      then rx\<lparr>packetCount := (packetCount rx)(opcode := packetCount rx opcode + 1)\<rparr> else rx)"

definition onPacketDestroyed :: "uint16 \<Rightarrow> reactive \<Rightarrow> reactive" where
  "onPacketDestroyed opcode rx0 =
     (let rx = rx0\<lparr>rx_counters :=
            (rx_counters rx0)\<lparr>numAlivePackets := numAlivePackets (rx_counters rx0) - 1\<rparr>\<rparr>
      in if if_log LOG_LEVEL_DEBUG LOG_PACKET_LIFECYCLE rx \<and> opcode \<noteq> 0
         then rx\<lparr>packetCount := (packetCount rx)(opcode := packetCount rx opcode - 1)\<rparr> else rx)"

definition onClientCreated :: "reactive \<Rightarrow> reactive" where
  "onClientCreated rx = rx\<lparr>rx_counters :=
     (rx_counters rx)\<lparr>pendingAcceptClient := pendingAcceptClient (rx_counters rx) + 1\<rparr>\<rparr>"

definition onClientAccepted :: "reactive \<Rightarrow> reactive" where
  "onClientAccepted rx = rx\<lparr>rx_counters :=
     (rx_counters rx)\<lparr>numClients := numClients (rx_counters rx) + 1,
       pendingAcceptClient := pendingAcceptClient (rx_counters rx) - 1\<rparr>\<rparr>"

definition onClientClosed :: "reactive \<Rightarrow> reactive" where
  "onClientClosed rx = rx\<lparr>rx_counters :=
     (rx_counters rx)\<lparr>pendingCloseClient := pendingCloseClient (rx_counters rx) + 1\<rparr>\<rparr>"

definition onClientDestroyed :: "reactive \<Rightarrow> reactive" where
  "onClientDestroyed rx = rx\<lparr>rx_counters :=
     (rx_counters rx)\<lparr>pendingCloseClient := pendingCloseClient (rx_counters rx) - 1,
       numClients := numClients (rx_counters rx) - 1\<rparr>\<rparr>"

definition onClusterUpdate :: "uint16 \<Rightarrow> uint16 \<Rightarrow> uint16 \<Rightarrow> uint16 \<Rightarrow> reactive \<Rightarrow> reactive" where
  "onClusterUpdate clusters cells stall candidates rx = rx\<lparr>rx_counters :=
     (rx_counters rx)\<lparr>numClusters := clusters, numCells := cells, numStallShown := stall,
       numStallCandidatesShown := candidates\<rparr>\<rparr>"

text \<open>\<^verbatim>\<open>print\<close>: the formatted message is appended and the oldest one dropped beyond fifteen.\<close>

definition print :: "string \<Rightarrow> reactive \<Rightarrow> reactive" where
  "print msg rx =
     (let ms = messages rx @ [msg]
      in rx\<lparr>messages := (if 15 < length ms then tl ms else ms)\<rparr>)"

text \<open>
  Points in time are nanoseconds; \<^verbatim>\<open>duration_cast<TimeBase>\<close> gives milliseconds, rounded
  towards zero. \<^verbatim>\<open>update\<close>: a key toggles the log switches, and the page is drawn (the boolean)
  at most once per second of server time.
\<close>

definition duration_cast :: "int \<Rightarrow> int" where
  "duration_cast d = (if d < 0 then - (- d div 1000000) else d div 1000000)"

definition Reactive_update :: "char option \<Rightarrow> int \<Rightarrow> reactive \<Rightarrow> reactive \<times> bool" where
  "Reactive_update key now rx0 =
     (let rx = (case key of
            None \<Rightarrow> rx0
          | Some k \<Rightarrow>
              if k = CHR ''c'' then rx0\<lparr>LogHandlers := LogHandlers rx0 XOR LOG_CLUSTERS\<rparr>
              else if k = CHR ''d'' then rx0\<lparr>LogLevel := LogLevel rx0 AND NOT LOG_LEVEL_DEBUG\<rparr>
              else rx0)
      in if duration_cast (now - rx_lastUpdate rx) < 1000 then (rx, False) else (rx\<lparr>rx_lastUpdate := now\<rparr>, True))"

section \<open>The queue that knows its size\<close>

text \<open>
  \<^verbatim>\<open>QueueWithSize\<close> around any queue: \<open>qpush\<close> and \<open>qpop\<close> are those of the queue it holds.
\<close>

record 'q counted_queue =
  cq_queue :: 'q
  cq_counter :: uint32

definition cq_push :: "('a \<Rightarrow> 'q \<Rightarrow> 'q \<times> bool) \<Rightarrow> 'a \<Rightarrow> 'q counted_queue \<Rightarrow> 'q counted_queue \<times> bool" where
  "cq_push qpush t c =
     (let (q, ok) = qpush t (cq_queue c)
      in if ok then (c\<lparr>cq_queue := q, cq_counter := cq_counter c + 1\<rparr>, True)
         else (c\<lparr>cq_queue := q\<rparr>, False))"

definition cq_pop :: "('q \<Rightarrow> ('q \<times> 'a) option) \<Rightarrow> 'q counted_queue \<Rightarrow> ('q counted_queue \<times> 'a) option" where
  "cq_pop qpop c =
     (case qpop (cq_queue c) of
        None \<Rightarrow> None
      | Some (q, t) \<Rightarrow> Some (c\<lparr>cq_queue := q, cq_counter := cq_counter c - 1\<rparr>, t))"

definition cq_size :: "'q counted_queue \<Rightarrow> uint32" where
  "cq_size c = cq_counter c"

text \<open>A counted queue keeps the contract of the queue inside and counts its contents.\<close>

context boost_queue
begin

definition cq_ok :: "'q counted_queue \<Rightarrow> bool" where
  "cq_ok c \<longleftrightarrow> cq_counter c = of_nat (length (contents (cq_queue c)))"

lemma cq_push_ok: "cq_ok c \<Longrightarrow> cq_ok (fst (cq_push push t c))"
  using length_push [of t "cq_queue c"]
  by (auto simp: cq_ok_def cq_push_def split_beta)

lemma cq_pop_ok:
  assumes "cq_ok c" and "cq_pop pop c = Some (c', t)"
  shows "cq_ok c'"
proof -
  obtain q where q: "pop (cq_queue c) = Some (q, t)" "c' = c\<lparr>cq_queue := q, cq_counter := cq_counter c - 1\<rparr>"
    using assms(2) by (auto simp: cq_pop_def split: option.splits)
  with pop_Some [OF q(1)] assms(1) show ?thesis by (simp add: cq_ok_def)
qed

end

text \<open>
  After any \<^verbatim>\<open>push\<close> and any successful \<^verbatim>\<open>pop\<close>, \<^verbatim>\<open>QueueWithSize::size\<close> is the number of
  queued elements (modulo \<open>2^32\<close>), also when the queue inside is full and refuses the element.
\<close>

theorem counted_queue_size:
  assumes "cq_size c = of_nat (length (items (cq_queue c)))"
  shows "cq_size (fst (cq_push bq_push t c)) = of_nat (length (items (cq_queue (fst (cq_push bq_push t c)))))
    \<and> (cq_pop bq_pop c = Some (c', t') \<longrightarrow> cq_size c' = of_nat (length (items (cq_queue c'))))"
  using bq.cq_push_ok [of c t] bq.cq_pop_ok [of c c' t'] assms
  by (simp add: bq.cq_ok_def cq_size_def)

theorem counted_queue_size_witness:
  "cq_size (fst (cq_push bq_push (7 :: nat) \<lparr>cq_queue = \<lparr>cap = Some 1, items = [5]\<rparr>, cq_counter = 1\<rparr>)) = 1"
  using counted_queue_size [of "\<lparr>cq_queue = \<lparr>cap = Some 1, items = [5]\<rparr>, cq_counter = 1\<rparr>" 7]
  by (simp add: cq_size_def cq_push_def bq_push_def bq_full_def)

section \<open>The monitor\<close>

fun print_all :: "string list \<Rightarrow> reactive \<Rightarrow> reactive" where
  "print_all [] rx = rx"
| "print_all (m # ms) rx = print_all ms (print m rx)"

definition last_n :: "nat \<Rightarrow> 'a list \<Rightarrow> 'a list" where
  "last_n n xs = drop (length xs - n) xs"

lemma messages_print:
  "length (messages rx) \<le> 15 \<Longrightarrow> messages (print m rx) = last_n 15 (messages rx @ [m])"
proof (cases "15 < length (messages rx @ [m])")
  case True
  moreover assume "length (messages rx) \<le> 15"
  ultimately have "length (messages rx) - 14 = 1" by simp
  with True show ?thesis
    by (cases "messages rx") (simp_all add: print_def last_n_def Let_def)
qed (simp add: print_def last_n_def Let_def)

lemma last_n_append: "last_n n (last_n n xs @ ys) = last_n n (xs @ ys)"
proof (cases "length xs \<le> n")
  case False
  then have "length xs + length ys - (length xs - n + n) + (length xs - n) = length xs + length ys - n"
    by simp
  with False show ?thesis by (simp add: last_n_def)
qed (simp add: last_n_def)

lemma length_last_n: "length (last_n n xs) \<le> n"
  by (simp add: last_n_def)

text \<open>
  The message log holds the last fifteen messages, oldest first: after any sequence of
  \<^verbatim>\<open>print\<close> calls it is the tail of everything ever printed.
\<close>

theorem print_keeps_last:
  assumes "length (messages rx) \<le> 15"
  shows "messages (print_all ms rx) = last_n 15 (messages rx @ ms)"
  using assms
proof (induction ms arbitrary: rx)
  case Nil
  then show ?case by (simp add: last_n_def)
next
  case (Cons m ms)
  have eq: "messages (print m rx) = last_n 15 (messages rx @ [m])" by (rule messages_print [OF Cons.prems])
  then have "length (messages (print m rx)) \<le> 15" by (simp add: length_last_n)
  from Cons.IH [OF this] show ?case
    using last_n_append [of 15 "messages rx @ [m]" ms] by (simp add: eq)
qed

theorem print_keeps_last_witness:
  "messages (print_all [''a'', ''b''] (Reactive_new True 0
     \<lparr>numAlivePackets = 3, pendingAcceptClient = 0, pendingCloseClient = 0, numClients = 0, numClusters = 0,
      numCells = 0, numStallShown = 0, numStallCandidatesShown = 0\<rparr>)) = [''a'', ''b'']"
  by (subst print_keeps_last) (simp_all add: Reactive_new_def last_n_def)

end
