(* ===== verification/Packet.thy ===== *)
theory Packet
  imports Reactive
begin

unbundle bit_operations_syntax

text \<open>
  Packets (\<^verbatim>\<open>src/io/packet.hpp\<close>, \<^verbatim>\<open>packet.cpp\<close>, \<^verbatim>\<open>src/defs/intrusive.hpp\<close>): a buffer of 1024
  bytes with a write, a read and a received-size cursor and a reference count. The templates
  over an integer type \<^verbatim>\<open>T\<close> are polymorphic in the word length; \<^verbatim>\<open>sizeof(T)\<close> is the length
  in bytes and memory is little-endian. A \<^verbatim>\<open>float\<close> travels as its bit pattern. Reads are
  checked (\<^verbatim>\<open>ReadOutOfBounds\<close>); writes are not, so an access beyond the array is a result of
  the model.
\<close>

section \<open>Bytes of an integer\<close>

definition size_of :: "'a::len itself \<Rightarrow> nat" where
  "size_of T = LENGTH('a) div 8"

definition le_bytes :: "'a::len word \<Rightarrow> uint8 list" where
  "le_bytes w = map (\<lambda>i. ucast (drop_bit (8 * i) w)) [0..<LENGTH('a) div 8]"

primrec le_word :: "uint8 list \<Rightarrow> 'a::len word" where
  "le_word [] = 0"
| "le_word (b # bs) = ucast b OR push_bit 8 (le_word bs)"

section \<open>State and operations\<close>

datatype packet_error = ReadOutOfBounds | OutsideBuffer

record packet =
  pk_read :: uint16
  pk_size :: uint16
  pk_write :: uint16
  pk_refs :: uint16
  pk_buffer :: "uint8 list"

definition BUFFER_SIZE :: nat where "BUFFER_SIZE = 1024"

text \<open>The constructor leaves the buffer uninitialised: \<open>junk\<close> is what it holds.\<close>

definition Packet_new :: "uint8 list \<Rightarrow> reactive \<Rightarrow> packet \<times> reactive" where
  "Packet_new junk rx =
     (\<lparr>pk_read = 0, pk_size = 0, pk_write = 0, pk_refs = 0, pk_buffer = junk\<rparr>, onPacketCreated rx)"

definition bufferLen :: "packet \<Rightarrow> uint16" where
  "bufferLen p = max (pk_size p) (pk_write p)"

definition poke :: "nat \<Rightarrow> uint8 list \<Rightarrow> packet \<Rightarrow> packet_error + packet" where
  "poke i bs p =
     (if i + length bs \<le> BUFFER_SIZE
      then Inr (p\<lparr>pk_buffer := take i (pk_buffer p) @ bs @ drop (i + length bs) (pk_buffer p)\<rparr>)
      else Inl OutsideBuffer)"

text \<open>\<^verbatim>\<open>operator<<\<close> for an integer.\<close>

definition put :: "'a::len word \<Rightarrow> packet \<Rightarrow> packet_error + packet" where
  "put v p =
     rbind (poke (unat (pk_write p)) (le_bytes v) p)
       (\<lambda>p. Inr (p\<lparr>pk_write := pk_write p + of_nat (size_of TYPE('a))\<rparr>))"

definition put_float :: "uint32 \<Rightarrow> packet \<Rightarrow> packet_error + packet" where
  "put_float v p = put v p"

definition put_vec2 :: "uint32 \<times> uint32 \<Rightarrow> packet \<Rightarrow> packet_error + packet" where
  "put_vec2 v p = rbind (put_float (fst v) p) (put_float (snd v))"

definition put_vec3 :: "uint32 \<times> uint32 \<times> uint32 \<Rightarrow> packet \<Rightarrow> packet_error + packet" where
  "put_vec3 v p =
     rbind (put_float (fst v) p) (\<lambda>p. rbind (put_float (fst (snd v)) p) (put_float (snd (snd v))))"

text \<open>The length of a string is truncated to \<^verbatim>\<open>uint16_t\<close>, and so is what is written of it.\<close>

definition put_string :: "uint8 list \<Rightarrow> packet \<Rightarrow> packet_error + packet" where
  "put_string str p =
     (let length16 = of_nat (length str) :: uint16
      in rbind (put length16 p) (rfold put (take (unat length16) str)))"

text \<open>Appending a packet copies its bytes from the fourth on, that is, without the header.\<close>

definition put_packet :: "packet \<Rightarrow> packet \<Rightarrow> packet_error + packet" where
  "put_packet from p =
     (let e = unat (max (max (pk_read from) (pk_size from)) (pk_write from))
      in if BUFFER_SIZE < e then Inl OutsideBuffer
         else rfold put (drop 4 (take e (pk_buffer from))) p)"

definition peek :: "uint16 \<Rightarrow> packet \<Rightarrow> packet_error + 'a::len word" where
  "peek off p =
     (if unat (bufferLen p) < unat off + size_of TYPE('a) then Inl ReadOutOfBounds
      else if BUFFER_SIZE < unat off + size_of TYPE('a) then Inl OutsideBuffer
      else Inr (le_word (take (size_of TYPE('a)) (drop (unat off) (pk_buffer p)))))"

definition read :: "packet \<Rightarrow> packet_error + ('a::len word \<times> packet)" where
  "read p = rbind (peek (pk_read p) p)
     (\<lambda>v. Inr (v, p\<lparr>pk_read := pk_read p + of_nat (size_of TYPE('a))\<rparr>))"

definition read_bytes :: "uint16 \<Rightarrow> packet \<Rightarrow> packet_error + (uint8 list \<times> packet)" where
  "read_bytes len p =
     (if unat (bufferLen p) < unat (pk_read p) + unat len then Inl ReadOutOfBounds
      else if BUFFER_SIZE < unat (pk_read p) + unat len then Inl OutsideBuffer
      else Inr (take (unat len) (drop (unat (pk_read p)) (pk_buffer p)),
                p\<lparr>pk_read := pk_read p + len\<rparr>))"

definition read_float :: "packet \<Rightarrow> packet_error + (uint32 \<times> packet)" where
  "read_float p = read p"

definition read_vec2 :: "packet \<Rightarrow> packet_error + ((uint32 \<times> uint32) \<times> packet)" where
  "read_vec2 p = rbind (read_float p) (\<lambda>(x, p). rbind (read_float p) (\<lambda>(y, p). Inr ((x, y), p)))"

definition read_vec3 :: "packet \<Rightarrow> packet_error + ((uint32 \<times> uint32 \<times> uint32) \<times> packet)" where
  "read_vec3 p =
     rbind (read_float p) (\<lambda>(x, p). rbind (read_float p) (\<lambda>(y, p). rbind (read_float p)
       (\<lambda>(z, p). Inr ((x, y, z), p))))"

definition read_string :: "packet \<Rightarrow> packet_error + (uint8 list \<times> packet)" where
  "read_string p = rbind (read p) (\<lambda>(length16, p). read_bytes length16 p)"

definition reset :: "packet \<Rightarrow> packet" where
  "reset p = p\<lparr>pk_read := 0, pk_write := 0, pk_size := 0\<rparr>"

text \<open>\<^verbatim>\<open>create(opcode)\<close>: the opcode and a length of zero, to be patched when sent.\<close>

definition Packet_create :: "uint16 \<Rightarrow> uint8 list \<Rightarrow> reactive \<Rightarrow> packet_error + (packet \<times> reactive)" where
  "Packet_create opcode junk rx =
     (let (p, rx) = Packet_new junk rx
      in rbind (put opcode p) (\<lambda>p. rbind (put (0x0000 :: uint16) p)
           (\<lambda>p. Inr (p, onPacketWritten opcode rx))))"

definition Packet_copy :: "packet \<Rightarrow> uint16 \<Rightarrow> uint8 list \<Rightarrow> reactive \<Rightarrow> packet_error + (packet \<times> reactive)" where
  "Packet_copy from sz junk rx =
     (if BUFFER_SIZE < unat sz then Inl OutsideBuffer
      else let (p, rx) = Packet_new junk rx
           in rbind (poke 0 (take (unat sz) (pk_buffer from)) p) (\<lambda>p.
                let p = p\<lparr>pk_size := sz\<rparr>
                in if 2 \<le> sz then rbind (peek 0 p) (\<lambda>opcode. Inr (p, onPacketWritten opcode rx))
                   else Inr (p, rx)))"

text \<open>\<^verbatim>\<open>sendBuffer\<close> patches the length field and hands the written bytes to the socket.\<close>

definition sendBuffer :: "packet \<Rightarrow> packet_error + (packet \<times> uint8 list)" where
  "sendBuffer p =
     rbind (poke 2 (le_bytes (pk_write p - 2 * 2)) p)
       (\<lambda>p. if BUFFER_SIZE < unat (pk_write p) then Inl OutsideBuffer
            else Inr (p, take (unat (pk_write p)) (pk_buffer p)))"

text \<open>
  Receiving: \<^verbatim>\<open>recvBuffer(len)\<close> is the part of the buffer a read of \<open>len\<close> bytes fills, from
  the end of what was received so far; \<^verbatim>\<open>addSize\<close> moves that end.
\<close>

definition recvBuffer :: "uint16 \<Rightarrow> packet \<Rightarrow> packet_error + (nat \<times> nat)" where
  "recvBuffer len p =
     (if unat (pk_size p) + unat len \<le> BUFFER_SIZE then Inr (unat (pk_size p), unat len)
      else Inl OutsideBuffer)"

definition addSize :: "uint16 \<Rightarrow> packet \<Rightarrow> packet" where
  "addSize n p = p\<lparr>pk_size := pk_size p + n\<rparr>"

text \<open>The destructor reports the opcode of a packet that holds one.\<close>

definition Packet_destroy :: "packet \<Rightarrow> reactive \<Rightarrow> packet_error + reactive" where
  "Packet_destroy p rx =
     (if 2 \<le> bufferLen p then rbind (peek 0 p) (\<lambda>opcode. Inr (onPacketDestroyed opcode rx))
      else Inr (onPacketDestroyed 0x0 rx))"

text \<open>Reference counting of \<^verbatim>\<open>intrusive_ptr\<close>; the boolean says that the packet was destroyed.\<close>

definition add_ref :: "packet \<Rightarrow> packet" where
  "add_ref p = p\<lparr>pk_refs := pk_refs p + 1\<rparr>"

definition release :: "packet \<Rightarrow> reactive \<Rightarrow> packet_error + (packet \<times> reactive \<times> bool)" where
  "release p0 rx =
     (let p = p0\<lparr>pk_refs := pk_refs p0 - 1\<rparr>
      in if pk_refs p = 0 then rbind (Packet_destroy p rx) (\<lambda>rx. Inr (p, rx, True))
         else Inr (p, rx, False))"

section \<open>Little-endian round trip\<close>

lemma length_le_bytes [simp]: "length (le_bytes (w :: 'a :: len word)) = size_of TYPE('a)"
  by (simp add: le_bytes_def size_of_def)

lemma bit_le_word:
  "bit (le_word bs :: 'a :: len word) k \<longleftrightarrow>
     k < LENGTH('a) \<and> k div 8 < length bs \<and> bit (bs ! (k div 8)) (k mod 8)"
proof (induction bs arbitrary: k)
  case Nil
  then show ?case by simp
next
  case (Cons b bs)
  show ?case
  proof (cases "k < 8")
    case True
    then show ?thesis by (auto simp: bit_simps)
  next
    case False
    then obtain j where k: "k = j + 8" by (metis add.commute le_Suc_ex not_less)
    have "\<not> bit b k" using False by (auto dest: bit_imp_le_length)
    moreover have "(j + 8) div 8 = Suc (j div 8)" by simp
    ultimately show ?thesis using Cons.IH [of j] False
      by (auto simp: bit_simps k simp del: Suc_eq_plus1)
  qed
qed

lemma le_word_le_bytes [simp]:
  assumes "8 dvd LENGTH('a)"
  shows "le_word (le_bytes w) = (w :: 'a :: len word)"
proof (rule bit_word_eqI)
  fix k assume k: "k < LENGTH('a)"
  obtain m where m: "LENGTH('a) = 8 * m" using assms by blast
  have "k div 8 < m" using k m by (simp add: less_mult_imp_div_less mult.commute)
  then show "bit (le_word (le_bytes w) :: 'a word) k = bit w k"
    using k by (simp add: bit_le_word le_bytes_def m size_of_def bit_simps)
qed

lemma size_of_simps [simp]:
  "size_of TYPE(8) = 1" "size_of TYPE(16) = 2" "size_of TYPE(32) = 4" "size_of TYPE(64) = 8"
  by (simp_all add: size_of_def)

section \<open>Well-formed packets\<close>

text \<open>
  The three cursors stay inside the buffer, and what was read is part of what the packet holds.
  \<open>unread\<close> is what a reader has still before it.
\<close>

definition pk_wf :: "packet \<Rightarrow> bool" where
  "pk_wf p \<longleftrightarrow> length (pk_buffer p) = BUFFER_SIZE \<and> unat (pk_size p) \<le> BUFFER_SIZE
     \<and> unat (pk_write p) \<le> BUFFER_SIZE \<and> pk_read p \<le> bufferLen p"

definition unread :: "packet \<Rightarrow> uint8 list" where
  "unread p = drop (unat (pk_read p)) (take (unat (bufferLen p)) (pk_buffer p))"

definition written :: "packet \<Rightarrow> uint8 list" where
  "written p = take (unat (pk_write p)) (pk_buffer p)"

text \<open>The effect of writing the bytes \<open>bs\<close> at the write cursor, when they fit.\<close>

definition appended :: "uint8 list \<Rightarrow> packet \<Rightarrow> packet" where
  "appended bs p = p\<lparr>pk_buffer := written p @ bs @ drop (unat (pk_write p) + length bs) (pk_buffer p),
     pk_write := pk_write p + of_nat (length bs)\<rparr>"

definition fits :: "nat \<Rightarrow> packet \<Rightarrow> bool" where
  "fits n p \<longleftrightarrow> unat (pk_write p) + n \<le> BUFFER_SIZE"

lemma unat_bufferLen: "unat (bufferLen p) = max (unat (pk_size p)) (unat (pk_write p))"
  by (simp add: bufferLen_def max_def word_le_nat_alt)

lemma unat_add16: "unat (a :: uint16) + n < 65536 \<Longrightarrow> unat (a + of_nat n) = unat a + n"
  by (simp add: unat_word_ariths unat_of_nat)

lemma put_eq:
  "put (v :: 'a :: len word) p = (if fits (size_of TYPE('a)) p then Inr (appended (le_bytes v) p) else Inl OutsideBuffer)"
  by (simp add: put_def poke_def fits_def appended_def written_def)

lemma unat_write_appended:
  "fits (length bs) p \<Longrightarrow> unat (pk_write (appended bs p)) = unat (pk_write p) + length bs"
  by (simp add: appended_def fits_def BUFFER_SIZE_def unat_add16)

lemma pk_wf_appended:
  assumes "pk_wf p" and "fits (length bs) p"
  shows "pk_wf (appended bs p)" and "written (appended bs p) = written p @ bs"
proof -
  note w = unat_write_appended [OF assms(2)]
  show "written (appended bs p) = written p @ bs"
    using assms unfolding written_def w by (simp add: appended_def pk_wf_def written_def)
  show "pk_wf (appended bs p)"
    using assms w unfolding pk_wf_def word_le_nat_alt unat_bufferLen
    by (auto simp: appended_def written_def fits_def)
qed

lemma appended_appended:
  assumes "pk_wf p" and "fits (length bs + length cs) p"
  shows "appended cs (appended bs p) = appended (bs @ cs) p"
proof -
  have f: "fits (length bs) p" using assms by (simp add: fits_def)
  note a = pk_wf_appended(2) [OF assms(1) f] unat_write_appended [OF f]
  have "length (written p) = unat (pk_write p)" using assms by (simp add: written_def pk_wf_def)
  then show ?thesis
    unfolding appended_def [of cs "appended bs p"] a
    by (simp add: appended_def add.commute add.left_commute)
qed

lemma fits_appended: "fits (length bs) p \<Longrightarrow> fits n (appended bs p) \<longleftrightarrow> fits (length bs + n) p"
  by (simp add: fits_def unat_write_appended [unfolded fits_def] add.assoc)

definition consumed :: "nat \<Rightarrow> packet \<Rightarrow> packet" where
  "consumed n p = p\<lparr>pk_read := pk_read p + of_nat n\<rparr>"

lemma length_unread: "pk_wf p \<Longrightarrow> length (unread p) = unat (bufferLen p) - unat (pk_read p)"
  by (simp add: unread_def pk_wf_def unat_bufferLen)

lemma consumed_0 [simp]: "consumed 0 p = p"
  by (simp add: consumed_def)

lemma consumed_consumed: "consumed m (consumed n p) = consumed (n + m) p"
  by (simp add: consumed_def ac_simps)

lemma consumed_wf:
  assumes "pk_wf p" and "n \<le> length (unread p)"
  shows "pk_wf (consumed n p)" and "unread (consumed n p) = drop n (unread p)"
proof -
  have r: "unat (pk_read p) + n \<le> unat (bufferLen p)"
    using assms by (auto simp: length_unread pk_wf_def word_le_nat_alt)
  moreover have b: "unat (bufferLen p) \<le> 1024"
    using assms(1) by (simp add: pk_wf_def BUFFER_SIZE_def unat_bufferLen)
  ultimately have u: "unat (pk_read p + of_nat n) = unat (pk_read p) + n"
    by (simp add: unat_add16)
  then show "unread (consumed n p) = drop n (unread p)"
    by (simp add: consumed_def unread_def bufferLen_def add.commute)
  show "pk_wf (consumed n p)"
    using assms(1) r u by (simp add: consumed_def pk_wf_def word_le_nat_alt bufferLen_def)
qed

text \<open>A read is \<^verbatim>\<open>ReadOutOfBounds\<close> exactly when too little is left; it never leaves the buffer.\<close>

lemma read_bytes_eq:
  assumes "pk_wf p"
  shows "read_bytes n p = (if unat n \<le> length (unread p)
    then Inr (take (unat n) (unread p), consumed (unat n) p) else Inl ReadOutOfBounds)"
proof -
  have b: "unat (pk_read p) \<le> unat (bufferLen p)" "unat (bufferLen p) \<le> BUFFER_SIZE"
    "length (pk_buffer p) = BUFFER_SIZE"
    using assms by (simp_all add: pk_wf_def BUFFER_SIZE_def unat_bufferLen word_le_nat_alt)
  then show ?thesis
    using assms by (auto simp: read_bytes_def length_unread consumed_def unread_def drop_take
        min_def)
qed

lemma read_eq:
  assumes "pk_wf p"
  shows "read p = (if size_of TYPE('a :: len) \<le> length (unread p)
    then Inr (le_word (take (size_of TYPE('a)) (unread p)) :: 'a word, consumed (size_of TYPE('a)) p)
    else Inl ReadOutOfBounds)"
proof -
  have b: "unat (pk_read p) \<le> unat (bufferLen p)" "unat (bufferLen p) \<le> BUFFER_SIZE"
    "length (pk_buffer p) = BUFFER_SIZE"
    using assms by (simp_all add: pk_wf_def BUFFER_SIZE_def unat_bufferLen word_le_nat_alt)
  then show ?thesis
    using assms by (auto simp: read_def peek_def length_unread consumed_def unread_def drop_take
        min_def)
qed

section \<open>Codecs\<close>

text \<open>
  The contract between the writer and the reader of one kind of value: \<open>enc\<close> is its
  representation, a write appends it or reports that it does not fit, and a read that finds
  it in front returns the value and moves past it. A read never leaves the buffer, whatever
  the bytes.
\<close>

locale codec =
  fixes enc :: "'v \<Rightarrow> uint8 list"
    and ok :: "'v \<Rightarrow> bool"
    and wr :: "'v \<Rightarrow> packet \<Rightarrow> packet_error + packet"
    and rd :: "packet \<Rightarrow> packet_error + ('v \<times> packet)"
  assumes wr_eq: "pk_wf p \<Longrightarrow> ok v \<Longrightarrow>
      wr v p = (if fits (length (enc v)) p then Inr (appended (enc v) p) else Inl OutsideBuffer)"
    and rd_enc: "pk_wf p \<Longrightarrow> ok v \<Longrightarrow> unread p = enc v @ rest \<Longrightarrow>
      rd p = Inr (v, consumed (length (enc v)) p)"
    and rd_any: "pk_wf p \<Longrightarrow> rd p = Inl ReadOutOfBounds
      \<or> (\<exists>v n. rd p = Inr (v, consumed n p) \<and> n \<le> length (unread p))"
begin

lemma wr_wf: "pk_wf p \<Longrightarrow> ok v \<Longrightarrow> wr v p = Inr p' \<Longrightarrow> pk_wf p' \<and> written p' = written p @ enc v"
  by (auto simp: wr_eq pk_wf_appended split: if_splits)

lemma rd_wf: "pk_wf p \<Longrightarrow> rd p = Inr (v, p') \<Longrightarrow> pk_wf p'"
  using rd_any [of p] by (auto simp: consumed_wf)

lemma rd_enc_wf:
  assumes "pk_wf p" and "unread p = enc v @ rest"
  shows "pk_wf (consumed (length (enc v)) p)" and "unread (consumed (length (enc v)) p) = rest"
  using consumed_wf [OF assms(1), of "length (enc v)"] assms(2) by auto

end

text \<open>Two values one after the other.\<close>

locale codec_pair = fst: codec enc1 ok1 wr1 rd1 + snd: codec enc2 ok2 wr2 rd2
  for enc1 ok1 wr1 rd1 enc2 ok2 wr2 rd2

sublocale codec_pair \<subseteq> codec "\<lambda>v. enc1 (fst v) @ enc2 (snd v)" "\<lambda>v. ok1 (fst v) \<and> ok2 (snd v)"
  "\<lambda>v p. rbind (wr1 (fst v) p) (wr2 (snd v))"
  "\<lambda>p. rbind (rd1 p) (\<lambda>(x, p). rbind (rd2 p) (\<lambda>(y, p). Inr ((x, y), p)))"
proof
  fix p and v :: "'a \<times> 'b" assume p: "pk_wf p" and v: "ok1 (fst v) \<and> ok2 (snd v)"
  show "rbind (wr1 (fst v) p) (wr2 (snd v)) =
    (if fits (length (enc1 (fst v) @ enc2 (snd v))) p then Inr (appended (enc1 (fst v) @ enc2 (snd v)) p)
     else Inl OutsideBuffer)"
  proof (cases "fits (length (enc1 (fst v))) p")
    case True
    with p v show ?thesis
      by (simp add: fst.wr_eq snd.wr_eq pk_wf_appended fits_appended appended_appended)
  next
    case False
    then have "\<not> fits (length (enc1 (fst v)) + length (enc2 (snd v))) p" by (simp add: fits_def)
    with False p v show ?thesis by (simp add: fst.wr_eq)
  qed
next
  fix p and v :: "'a \<times> 'b" and rest assume p: "pk_wf p" and v: "ok1 (fst v) \<and> ok2 (snd v)"
    and u: "unread p = (enc1 (fst v) @ enc2 (snd v)) @ rest"
  then have u1: "unread p = enc1 (fst v) @ enc2 (snd v) @ rest" by simp
  from fst.rd_enc [OF p _ u1] fst.rd_enc_wf [OF p u1] snd.rd_enc [of "consumed (length (enc1 (fst v))) p" "snd v" rest] v
  show "rbind (rd1 p) (\<lambda>(x, p). rbind (rd2 p) (\<lambda>(y, p). Inr ((x, y), p))) =
    Inr (v, consumed (length (enc1 (fst v) @ enc2 (snd v))) p)"
    by (simp add: consumed_consumed)
next
  fix p assume p: "pk_wf p"
  show "rbind (rd1 p) (\<lambda>(x, p). rbind (rd2 p) (\<lambda>(y, p). Inr ((x, y), p))) = Inl ReadOutOfBounds
    \<or> (\<exists>v n. rbind (rd1 p) (\<lambda>(x, p). rbind (rd2 p) (\<lambda>(y, p). Inr ((x, y), p))) = Inr (v, consumed n p)
        \<and> n \<le> length (unread p))"
  proof (cases "rd1 p = Inl ReadOutOfBounds")
    case False
    then obtain x n where x: "rd1 p = Inr (x, consumed n p)" "n \<le> length (unread p)"
      using fst.rd_any [OF p] by blast
    note c = consumed_wf [OF p x(2)]
    show ?thesis
    proof (cases "rd2 (consumed n p) = Inl ReadOutOfBounds")
      case False
      then obtain y m where "rd2 (consumed n p) = Inr (y, consumed m (consumed n p))"
        "m \<le> length (unread (consumed n p))"
        using snd.rd_any [OF c(1)] by blast
      with x c(2) have "rbind (rd1 p) (\<lambda>(x, p). rbind (rd2 p) (\<lambda>(y, p). Inr ((x, y), p))) =
          Inr ((x, y), consumed (n + m) p) \<and> n + m \<le> length (unread p)"
        by (simp add: consumed_consumed)
      then show ?thesis by blast
    qed (simp add: x)
  qed simp
qed

lemma codec_word:
  assumes "8 dvd LENGTH('a)"
  shows "codec le_bytes (\<lambda>_. True) (put :: 'a :: len word \<Rightarrow> _) read"
proof
  fix p assume p: "pk_wf p"
  show "(read p :: packet_error + ('a word \<times> packet)) = Inl ReadOutOfBounds
    \<or> (\<exists>(v :: 'a word) n. read p = Inr (v, consumed n p) \<and> n \<le> length (unread p))"
    unfolding read_eq [OF p] by auto
qed (simp_all add: put_eq read_eq assms)

interpretation u8: codec le_bytes "\<lambda>_. True" "put :: uint8 \<Rightarrow> _" read
  by (rule codec_word) simp

interpretation u16: codec le_bytes "\<lambda>_. True" "put :: uint16 \<Rightarrow> _" read
  by (rule codec_word) simp

interpretation u32: codec le_bytes "\<lambda>_. True" "put :: uint32 \<Rightarrow> _" read
  by (rule codec_word) simp

interpretation u64: codec le_bytes "\<lambda>_. True" "put :: uint64 \<Rightarrow> _" read
  by (rule codec_word) simp

interpretation float: codec le_bytes "\<lambda>_. True" put_float read_float
  unfolding put_float_def [abs_def] read_float_def [abs_def] by (rule u32.codec_axioms)

interpretation vec2: codec_pair le_bytes "\<lambda>_. True" put_float read_float
    le_bytes "\<lambda>_. True" put_float read_float
  by unfold_locales

interpretation vec3: codec_pair le_bytes "\<lambda>_. True" put_float read_float
    "\<lambda>v. le_bytes (fst v) @ le_bytes (snd v)" "\<lambda>v. True \<and> True"
    "\<lambda>v p. rbind (put_float (fst v) p) (put_float (snd v))"
    "\<lambda>p. rbind (read_float p) (\<lambda>(x, p). rbind (read_float p) (\<lambda>(y, p). Inr ((x, y), p)))"
  by unfold_locales

lemma put_bytes_eq:
  assumes "pk_wf p"
  shows "rfold put bs p = (if fits (length bs) p \<or> bs = [] then Inr (appended bs p) else Inl OutsideBuffer)"
  using assms
proof (induction bs arbitrary: p)
  case Nil
  then show ?case by (simp add: appended_def written_def)
next
  case (Cons b bs)
  have b: "le_bytes b = [b]" by (simp add: le_bytes_def)
  show ?case
  proof (cases "fits 1 p")
    case True
    then have f: "fits (length [b]) p" by simp
    from appended_appended [OF Cons.prems, of "[b]" bs] pk_wf_appended(1) [OF Cons.prems f]
    show ?thesis
      using True by (auto simp: put_eq [of b p] b Cons.IH fits_appended [OF f, simplified])
  next
    case False
    then have "\<not> fits (Suc (length bs)) p" by (simp add: fits_def)
    with False show ?thesis by (simp add: put_eq [of b p])
  qed
qed

definition enc_string :: "uint8 list \<Rightarrow> uint8 list" where
  "enc_string str = le_bytes (of_nat (length str) :: uint16) @ str"

interpretation str: codec enc_string "\<lambda>str. length str < 65536" put_string read_string
proof
  fix p and str :: "uint8 list" assume p: "pk_wf p" and len: "length str < 65536"
  then have n: "unat (of_nat (length str) :: uint16) = length str" by (simp add: unat_of_nat)
  show "put_string str p = (if fits (length (enc_string str)) p then Inr (appended (enc_string str) p)
      else Inl OutsideBuffer)"
  proof (cases "fits 2 p")
    case True
    then have f: "fits (length (le_bytes (of_nat (length str) :: uint16))) p" by simp
    show ?thesis
      using True appended_appended [OF p, of "le_bytes (of_nat (length str) :: uint16)" str]
      by (auto simp: put_string_def Let_def n put_eq enc_string_def numeral_2_eq_2
          put_bytes_eq [OF pk_wf_appended(1) [OF p f]] fits_appended [OF f, simplified])
  next
    case False
    then have "\<not> fits (2 + length str) p" by (simp add: fits_def)
    with False show ?thesis by (simp add: put_string_def Let_def put_eq enc_string_def)
  qed
next
  fix p and str rest :: "uint8 list"
  assume p: "pk_wf p" and len: "length str < 65536" and u: "unread p = enc_string str @ rest"
  then have n: "unat (of_nat (length str) :: uint16) = length str" by (simp add: unat_of_nat)
  have u1: "unread p = le_bytes (of_nat (length str) :: uint16) @ str @ rest"
    using u by (simp add: enc_string_def)
  show "read_string p = Inr (str, consumed (length (enc_string str)) p)"
    using u16.rd_enc [OF p _ u1] u16.rd_enc_wf [OF p u1]
    by (simp add: read_string_def read_bytes_eq n consumed_consumed enc_string_def)
next
  fix p assume p: "pk_wf p"
  show "read_string p = Inl ReadOutOfBounds
    \<or> (\<exists>v n. read_string p = Inr (v, consumed n p) \<and> n \<le> length (unread p))"
  proof (cases "2 \<le> length (unread p)")
    case True
    let ?m = "unat (le_word (take 2 (unread p)) :: uint16)"
    have "?m \<le> length (unread p) - 2 \<Longrightarrow> 2 + ?m \<le> length (unread p)" using True by simp
    then show ?thesis
      using True consumed_wf [OF p True]
      by (auto simp: read_string_def read_eq [OF p] read_bytes_eq consumed_consumed)
  qed (simp add: read_string_def read_eq [OF p])
qed

section \<open>Messages\<close>

text \<open>
  A message is a sequence of fields of the kinds a packet can carry; \<open>put_field\<close> selects the
  \<^verbatim>\<open>operator<<\<close> and \<open>read_field\<close> the \<^verbatim>\<open>read\<close> of the kind.
\<close>

datatype field = U8 uint8 | U16 uint16 | U32 uint32 | U64 uint64 | F32 uint32
  | V2 "uint32 \<times> uint32" | V3 "uint32 \<times> uint32 \<times> uint32" | Str "uint8 list"

fun put_field :: "field \<Rightarrow> packet \<Rightarrow> packet_error + packet" where
  "put_field (U8 v) p = put v p"
| "put_field (U16 v) p = put v p"
| "put_field (U32 v) p = put v p"
| "put_field (U64 v) p = put v p"
| "put_field (F32 v) p = put_float v p"
| "put_field (V2 v) p = put_vec2 v p"
| "put_field (V3 v) p = put_vec3 v p"
| "put_field (Str v) p = put_string v p"

definition rmap :: "('a \<Rightarrow> 'b) \<Rightarrow> packet_error + ('a \<times> packet) \<Rightarrow> packet_error + ('b \<times> packet)" where
  "rmap f m = rbind m (\<lambda>(v, p). Inr (f v, p))"

text \<open>The first argument only says which kind of field is expected.\<close>

fun read_field :: "field \<Rightarrow> packet \<Rightarrow> packet_error + (field \<times> packet)" where
  "read_field (U8 _) p = rmap U8 (read p)"
| "read_field (U16 _) p = rmap U16 (read p)"
| "read_field (U32 _) p = rmap U32 (read p)"
| "read_field (U64 _) p = rmap U64 (read p)"
| "read_field (F32 _) p = rmap F32 (read_float p)"
| "read_field (V2 _) p = rmap V2 (read_vec2 p)"
| "read_field (V3 _) p = rmap V3 (read_vec3 p)"
| "read_field (Str _) p = rmap Str (read_string p)"

fun enc_field :: "field \<Rightarrow> uint8 list" where
  "enc_field (U8 v) = le_bytes v"
| "enc_field (U16 v) = le_bytes v"
| "enc_field (U32 v) = le_bytes v"
| "enc_field (U64 v) = le_bytes v"
| "enc_field (F32 v) = le_bytes v"
| "enc_field (V2 v) = le_bytes (fst v) @ le_bytes (snd v)"
| "enc_field (V3 v) = le_bytes (fst v) @ le_bytes (fst (snd v)) @ le_bytes (snd (snd v))"
| "enc_field (Str v) = enc_string v"

fun read_fields :: "field list \<Rightarrow> packet \<Rightarrow> packet_error + (field list \<times> packet)" where
  "read_fields [] p = Inr ([], p)"
| "read_fields (k # ks) p =
     rbind (read_field k p) (\<lambda>(v, p). rbind (read_fields ks p) (\<lambda>(vs, p). Inr (v # vs, p)))"

definition field_ok :: "field \<Rightarrow> bool" where
  "field_ok f = (case f of Str v \<Rightarrow> length v < 65536 | _ \<Rightarrow> True)"

lemma put_vec2_eq: "put_vec2 = (\<lambda>v p. rbind (put_float (fst v) p) (put_float (snd v)))"
  by (simp add: put_vec2_def fun_eq_iff)

lemma put_vec3_eq: "put_vec3 = (\<lambda>v p. rbind (put_float (fst v) p)
    (\<lambda>p. rbind (put_float (fst (snd v)) p) (put_float (snd (snd v)))))"
  by (simp add: put_vec3_def fun_eq_iff)

lemma read_vec2_eq: "read_vec2 = (\<lambda>p. rbind (read_float p) (\<lambda>(x, p). rbind (read_float p) (\<lambda>(y, p). Inr ((x, y), p))))"
  by (simp add: read_vec2_def fun_eq_iff)

lemma read_vec3_eq: "read_vec3 = (\<lambda>p. rbind (read_float p) (\<lambda>(x, p). rbind
    (rbind (read_float p) (\<lambda>(y, p). rbind (read_float p) (\<lambda>(z, p). Inr ((y, z), p))))
    (\<lambda>(yz, p). Inr ((x, yz), p))))"
  by (simp add: read_vec3_def fun_eq_iff rbind_assoc case_prod_unfold)

lemma put_field_eq:
  "pk_wf p \<Longrightarrow> field_ok f \<Longrightarrow> put_field f p =
    (if fits (length (enc_field f)) p then Inr (appended (enc_field f) p) else Inl OutsideBuffer)"
  using vec2.wr_eq [of p] vec3.wr_eq [of p]
  by (cases f) (simp_all only: put_field.simps enc_field.simps u8.wr_eq u16.wr_eq u32.wr_eq u64.wr_eq
    float.wr_eq put_vec2_eq put_vec3_eq str.wr_eq field_ok_def field.case simp_thms)

lemma read_field_enc:
  assumes "pk_wf p" and "field_ok f" and "unread p = enc_field f @ rest"
  shows "read_field f p = Inr (f, consumed (length (enc_field f)) p)"
proof (cases f)
  case (V2 v)
  then show ?thesis using vec2.rd_enc [OF assms(1), of v rest] assms(3)
    by (simp add: rmap_def read_vec2_eq)
next
  case (V3 v)
  then show ?thesis using vec3.rd_enc [OF assms(1), of v rest] assms(3)
    by (simp add: rmap_def read_vec3_eq)
qed (use assms in \<open>simp_all add: rmap_def u8.rd_enc u16.rd_enc u32.rd_enc u64.rd_enc float.rd_enc
    str.rd_enc field_ok_def\<close>)

lemma put_fields_eq:
  "pk_wf p \<Longrightarrow> list_all field_ok fs \<Longrightarrow> rfold put_field fs p =
    (if fits (length (concat (map enc_field fs))) p then Inr (appended (concat (map enc_field fs)) p)
     else Inl OutsideBuffer)"
proof (induction fs arbitrary: p)
  case Nil
  then show ?case by (simp add: appended_def written_def fits_def pk_wf_def)
next
  case (Cons f fs)
  show ?case
  proof (cases "fits (length (enc_field f)) p")
    case True
    then show ?thesis
      using Cons by (simp add: put_field_eq pk_wf_appended(1) fits_appended appended_appended)
  next
    case False
    then have "\<not> fits (length (enc_field f) + length (concat (map enc_field fs))) p"
      by (simp add: fits_def)
    with False show ?thesis using Cons.prems by (simp add: put_field_eq)
  qed
qed

lemma read_fields_enc:
  "pk_wf p \<Longrightarrow> list_all field_ok fs \<Longrightarrow> unread p = concat (map enc_field fs) @ rest \<Longrightarrow>
    read_fields fs p = Inr (fs, consumed (length (concat (map enc_field fs))) p)"
proof (induction fs arbitrary: p)
  case (Cons f fs)
  have u: "unread p = enc_field f @ concat (map enc_field fs) @ rest" using Cons.prems(3) by simp
  have n: "length (enc_field f) \<le> length (unread p)" using u by simp
  note c = consumed_wf [OF Cons.prems(1) n]
  show ?case
    using Cons.prems Cons.IH [OF c(1)] c(2) read_field_enc [OF Cons.prems(1) _ u] u
    by (simp add: consumed_consumed)
qed simp

lemma read_field_any:
  assumes "pk_wf p"
  shows "read_field k p = Inl ReadOutOfBounds
    \<or> (\<exists>v n. read_field k p = Inr (v, consumed n p) \<and> n \<le> length (unread p))"
proof -
  have lift: "rmap c m = Inl ReadOutOfBounds \<or> (\<exists>v n. rmap c m = Inr (v, consumed n p) \<and> n \<le> length (unread p))"
    if "m = Inl ReadOutOfBounds \<or> (\<exists>v n. m = Inr (v, consumed n p) \<and> n \<le> length (unread p))"
    for c :: "'v \<Rightarrow> field" and m
    using that by (auto simp: rmap_def)
  show ?thesis
    by (cases k) (simp_all only: read_field.simps read_vec2_eq read_vec3_eq lift [OF u8.rd_any [OF assms]]
      lift [OF u16.rd_any [OF assms]] lift [OF u32.rd_any [OF assms]] lift [OF u64.rd_any [OF assms]]
      lift [OF float.rd_any [OF assms]] lift [OF vec2.rd_any [OF assms]] lift [OF vec3.rd_any [OF assms]]
      lift [OF str.rd_any [OF assms]])
qed

lemma Packet_create_eq:
  assumes "length junk = BUFFER_SIZE"
  shows "\<exists>p. Packet_create opcode junk rx = Inr (p, onPacketWritten opcode (onPacketCreated rx))
    \<and> pk_wf p \<and> written p = le_bytes opcode @ le_bytes (0 :: uint16) \<and> pk_size p = 0 \<and> pk_read p = 0
    \<and> pk_write p = 4 \<and> pk_refs p = 0"
proof -
  let ?p = "fst (Packet_new junk rx)"
  have w: "pk_wf ?p" "fits 4 ?p" "written ?p = []"
    using assms by (simp_all add: Packet_new_def pk_wf_def fits_def written_def BUFFER_SIZE_def)
  have f: "fits (length (le_bytes opcode)) ?p" using w(2) by (simp add: fits_def)
  note a = pk_wf_appended [OF w(1) f]
  have f2: "fits (length (le_bytes (0 :: uint16))) (appended (le_bytes opcode) ?p)"
    using w(2) by (simp add: fits_appended [OF f])
  have "Packet_create opcode junk rx = Inr (appended (le_bytes (0 :: uint16)) (appended (le_bytes opcode) ?p),
      onPacketWritten opcode (onPacketCreated rx))"
    using f f2 by (simp add: Packet_create_def Let_def split_beta put_eq) (simp add: Packet_new_def)
  moreover have "pk_size (appended bs q) = pk_size q" "pk_read (appended bs q) = pk_read q"
    "pk_refs (appended bs q) = pk_refs q" "pk_write (appended bs q) = pk_write q + of_nat (length bs)"
    for bs q by (simp_all add: appended_def)
  ultimately show ?thesis
    using pk_wf_appended [OF a(1) f2] a(2) w(3) by (simp add: Packet_new_def)
qed

lemma sendBuffer_eq:
  assumes "pk_wf p" and "4 \<le> unat (pk_write p)"
  shows "\<exists>p'. sendBuffer p = Inr (p', take 2 (written p) @ le_bytes (pk_write p - 4) @ drop 4 (written p))
    \<and> pk_wf p' \<and> pk_write p' = pk_write p"
proof -
  have len: "length (pk_buffer p) = 1024" "unat (pk_write p) \<le> 1024"
    using assms(1) by (simp_all add: pk_wf_def BUFFER_SIZE_def)
  have "take (unat (pk_write p)) (take 2 (pk_buffer p) @ le_bytes (pk_write p - 4) @ drop 4 (pk_buffer p)) =
      take 2 (written p) @ le_bytes (pk_write p - 4) @ drop 4 (written p)"
    using len assms(2) by (simp add: written_def drop_take min_def)
  moreover have "pk_wf (p\<lparr>pk_buffer := take 2 (pk_buffer p) @ le_bytes (pk_write p - 4) @ drop 4 (pk_buffer p)\<rparr>)"
    using assms(1) len by (simp add: pk_wf_def BUFFER_SIZE_def bufferLen_def)
  ultimately show ?thesis
    using len by (simp add: sendBuffer_def poke_def BUFFER_SIZE_def)
qed

section \<open>Properties of packets\<close>

text \<open>
  C13. Reading is memory safe whatever the bytes received: on a well-formed packet a read of
  any kind either throws \<^verbatim>\<open>ReadOutOfBounds\<close> or returns a value and a well-formed packet over
  the same bytes whose read cursor moved forward within the buffered length.
\<close>

theorem read_safe:
  assumes "pk_wf p"
  shows "read_field k p = Inl ReadOutOfBounds
    \<or> (\<exists>v p'. read_field k p = Inr (v, p') \<and> pk_wf p' \<and> pk_buffer p' = pk_buffer p
         \<and> bufferLen p' = bufferLen p \<and> (\<exists>n. unread p' = drop n (unread p)))"
proof (cases "read_field k p = Inl ReadOutOfBounds")
  case False
  then obtain v n where v: "read_field k p = Inr (v, consumed n p)" "n \<le> length (unread p)"
    using read_field_any [OF assms, of k] by blast
  have "pk_buffer (consumed n p) = pk_buffer p" "bufferLen (consumed n p) = bufferLen p"
    by (simp_all add: consumed_def bufferLen_def)
  with v consumed_wf [OF assms v(2)] show ?thesis by blast
qed simp

theorem read_safe_witness:
  "read_field (Str []) \<lparr>pk_read = 0, pk_size = 3, pk_write = 0, pk_refs = 0,
       pk_buffer = 9 # 0 # replicate 1022 0\<rparr> = Inl ReadOutOfBounds"
proof -
  let ?p = "\<lparr>pk_read = 0, pk_size = 3, pk_write = 0, pk_refs = 0, pk_buffer = 9 # 0 # replicate 1022 (0 :: uint8)\<rparr>"
  have wf: "pk_wf ?p" by (simp add: pk_wf_def BUFFER_SIZE_def bufferLen_def)
  have "unread ?p = [9, 0, 0]" by (simp add: unread_def bufferLen_def)
  then have "read_string ?p = Inl ReadOutOfBounds"
    using consumed_wf [OF wf, of 2] by (simp add: read_string_def read_eq [OF wf] read_bytes_eq)
  then show ?thesis using read_safe [OF wf, of "Str []"] by (simp add: rmap_def)
qed

text \<open>
  C12. The frame on the wire: a packet made by \<^verbatim>\<open>create(opcode)\<close> and filled with any fields
  that fit is sent as the opcode, the length of the payload (everything after the four header
  bytes) and the payload, little-endian. Fields that do not fit are written past the array.
\<close>

theorem packet_frame:
  assumes "length junk = BUFFER_SIZE" and "list_all field_ok fs"
  shows "\<exists>p rx'. Packet_create opcode junk rx = Inr (p, rx')
    \<and> (let payload = concat (map enc_field fs) in
        if 4 + length payload \<le> BUFFER_SIZE
        then \<exists>p' p''. rfold put_field fs p = Inr p'
          \<and> sendBuffer p' = Inr (p'', le_bytes opcode @ le_bytes (of_nat (length payload) :: uint16) @ payload)
        else rfold put_field fs p = Inl OutsideBuffer)"
proof -
  obtain p where p: "Packet_create opcode junk rx = Inr (p, onPacketWritten opcode (onPacketCreated rx))"
    "pk_wf p" "written p = le_bytes opcode @ le_bytes (0 :: uint16)" "pk_write p = 4"
    using Packet_create_eq [OF assms(1)] by blast
  define payload where "payload = concat (map enc_field fs)"
  have put: "rfold put_field fs p = (if 4 + length payload \<le> BUFFER_SIZE
      then Inr (appended payload p) else Inl OutsideBuffer)"
    using put_fields_eq [OF p(2) assms(2)] by (simp add: payload_def fits_def p(4))
  have "\<exists>p''. sendBuffer (appended payload p) = Inr (p'', le_bytes opcode @ le_bytes (of_nat (length payload) :: uint16) @ payload)"
    if l: "4 + length payload \<le> BUFFER_SIZE"
  proof -
    have f: "fits (length payload) p" using l by (simp add: fits_def p(4))
    have "pk_write (appended payload p) - 4 = of_nat (length payload)"
      by (simp add: appended_def p(4))
    moreover have "4 \<le> unat (pk_write (appended payload p))"
      using unat_write_appended [OF f] p(4) by simp
    ultimately show ?thesis
      using sendBuffer_eq [OF pk_wf_appended(1) [OF p(2) f]] pk_wf_appended(2) [OF p(2) f] p(3) by auto
  qed
  with p(1) put show ?thesis by (auto simp: payload_def [symmetric] Let_def)
qed

theorem packet_frame_witness:
  "\<exists>p rx' p' p''. Packet_create 0x0A01 (replicate 1024 0) (Reactive_new True 0 zero_counters) = Inr (p, rx')
    \<and> rfold put_field [U8 7, Str [104, 105]] p = Inr p'
    \<and> sendBuffer p' = Inr (p'', [0x01, 0x0A, 5, 0, 7, 2, 0, 104, 105])"
proof -
  have b: "le_bytes (0x0A01 :: uint16) = [0x01, 0x0A]" "le_bytes (5 :: uint16) = [5, 0]"
    "le_bytes (2 :: uint16) = [2, 0]" "le_bytes (7 :: uint8) = [7]"
    by (simp_all add: le_bytes_def upt_rec)
  show ?thesis
    using packet_frame [of "replicate 1024 0" "[U8 7, Str [104, 105]]" "0x0A01" "Reactive_new True 0 zero_counters"]
    by (simp add: field_ok_def BUFFER_SIZE_def enc_string_def b)
qed

section \<open>Reference counting\<close>

text \<open>
  A history of one packet: \<open>True\<close> when an \<^verbatim>\<open>intrusive_ptr\<close> to it is made, \<open>False\<close> when one is
  dropped. \<open>None\<close> is an access to the packet after its destruction.
\<close>

fun run_refs :: "bool list \<Rightarrow> packet \<Rightarrow> reactive \<Rightarrow> (packet \<times> reactive \<times> bool) option" where
  "run_refs [] p rx = Some (p, rx, False)"
| "run_refs (True # ops) p rx = run_refs ops (add_ref p) rx"
| "run_refs (False # ops) p rx =
     (case release p rx of
        Inl e \<Rightarrow> None
      | Inr (p, rx, destroyed) \<Rightarrow>
          if destroyed then (if ops = [] then Some (p, rx, True) else None) else run_refs ops p rx)"

fun balanced :: "nat \<Rightarrow> bool list \<Rightarrow> bool" where
  "balanced n [] \<longleftrightarrow> n = 0"
| "balanced n (True # ops) \<longleftrightarrow> Suc n < 65536 \<and> balanced (Suc n) ops"
| "balanced n (False # ops) \<longleftrightarrow> 0 < n \<and> (if n = 1 then ops = [] else balanced (n - 1) ops)"

lemma Packet_destroy_total:
  assumes "pk_wf p"
  shows "\<exists>op. Packet_destroy p rx = Inr (onPacketDestroyed op rx)"
proof -
  have "unat (bufferLen p) \<le> BUFFER_SIZE" using assms by (simp add: pk_wf_def unat_bufferLen)
  then show ?thesis
    by (auto simp: Packet_destroy_def peek_def word_le_nat_alt BUFFER_SIZE_def)
qed

lemma pk_wf_refs: "pk_wf (p\<lparr>pk_refs := r\<rparr>) \<longleftrightarrow> pk_wf p"
  by (simp add: pk_wf_def bufferLen_def)

lemma unat_pred16: "0 < unat (r :: uint16) \<Longrightarrow> unat (r - 1) = unat r - 1"
  by (metis gr_implies_not0 unat_0 unat_minus_one)

lemma release_eq:
  assumes "pk_wf p" and "0 < unat (pk_refs p)"
  shows "release p rx = (if unat (pk_refs p) = 1
    then rbind (Packet_destroy (p\<lparr>pk_refs := 0\<rparr>) rx) (\<lambda>rx. Inr (p\<lparr>pk_refs := 0\<rparr>, rx, True))
    else Inr (p\<lparr>pk_refs := pk_refs p - 1\<rparr>, rx, False))"
proof -
  have "unat (pk_refs p) = 1 \<longleftrightarrow> pk_refs p = 1" by (metis unat_1 word_unat_eq_iff)
  then show ?thesis by (auto simp: release_def Let_def)
qed

text \<open>
  C14. A packet shared by up to 65535 \<^verbatim>\<open>intrusive_ptr\<close>s is destroyed exactly when the last of
  them goes: no history of pointers made and dropped, in any interleaving, touches it after
  its destruction, the last drop destroys it, and the monitor counts it out once.
\<close>

theorem refcount_exact:
  assumes "pk_wf p" and "balanced (unat (pk_refs p)) ops" and "ops \<noteq> []"
  shows "\<exists>p' op. run_refs ops p rx = Some (p', onPacketDestroyed op rx, True)"
  using assms
proof (induction ops arbitrary: p)
  case (Cons b ops)
  show ?case
  proof (cases b)
    case True
    then have "unat (pk_refs (add_ref p)) = Suc (unat (pk_refs p))"
      using Cons.prems(2) unat_add16 [of "pk_refs p" 1] by (simp add: add_ref_def)
    moreover have "ops \<noteq> []" using Cons.prems(2) True by auto
    moreover have "pk_wf (add_ref p)" using Cons.prems(1) by (simp add: add_ref_def pk_wf_refs)
    ultimately show ?thesis using Cons True by simp
  next
    case False
    then have pos: "0 < unat (pk_refs p)" using Cons.prems(2) by simp
    show ?thesis
    proof (cases "unat (pk_refs p) = 1")
      case True
      then show ?thesis
        using Cons.prems False Packet_destroy_total [of "p\<lparr>pk_refs := 0\<rparr>" rx]
        by (auto simp: release_eq pk_wf_refs)
    next
      case 1: False
      let ?q = "p\<lparr>pk_refs := pk_refs p - 1\<rparr>"
      have q: "unat (pk_refs ?q) = unat (pk_refs p) - 1" using pos by (simp add: unat_pred16)
      have "balanced (unat (pk_refs ?q)) ops" using Cons.prems(2) 1 False q by simp
      moreover have "ops \<noteq> []" using calculation q pos 1 by auto
      ultimately show ?thesis
        using Cons.IH [of ?q] Cons.prems(1) False 1 pos by (simp add: release_eq pk_wf_refs)
    qed
  qed
qed simp

theorem refcount_exact_witness:
  "\<exists>p' op. run_refs [True, True, False, True, False, False]
     \<lparr>pk_read = 0, pk_size = 0, pk_write = 0, pk_refs = 0, pk_buffer = replicate 1024 0\<rparr>
     (Reactive_new True 0 zero_counters) =
   Some (p', onPacketDestroyed op (Reactive_new True 0 zero_counters), True)"
  by (rule refcount_exact) (simp_all add: pk_wf_def BUFFER_SIZE_def bufferLen_def)

text \<open>
  Appending a packet appends its payload: what \<^verbatim>\<open>operator<<(Packet*)\<close> adds to a packet
  is everything the other one holds from the fifth byte on, when it fits.
\<close>

theorem put_packet_payload:
  assumes "pk_wf p" and "pk_wf from"
  shows "put_packet from p = (let payload = drop 4 (take (unat (bufferLen from)) (pk_buffer from)) in
    if unat (pk_write p) + length payload \<le> BUFFER_SIZE then Inr (appended payload p) else Inl OutsideBuffer)"
proof -
  have m: "max (max (pk_read from) (pk_size from)) (pk_write from) = bufferLen from"
    using assms(2) by (auto simp: pk_wf_def bufferLen_def max_def split: if_splits)
  have l: "unat (bufferLen from) \<le> BUFFER_SIZE" using assms(2) by (simp add: pk_wf_def unat_bufferLen)
  have f0: "unat (pk_write p) \<le> BUFFER_SIZE" using assms(1) by (simp add: pk_wf_def)
  show ?thesis
    using l f0 by (auto simp: put_packet_def m put_bytes_eq [OF assms(1)] fits_def Let_def)
qed

theorem put_packet_payload_witness:
  "put_packet \<lparr>pk_read = 0, pk_size = 0, pk_write = 6, pk_refs = 0,
      pk_buffer = [1, 2, 3, 4, 5, 6] @ replicate 1018 0\<rparr>
    \<lparr>pk_read = 0, pk_size = 0, pk_write = 1, pk_refs = 0, pk_buffer = replicate 1024 9\<rparr> =
   Inr \<lparr>pk_read = 0, pk_size = 0, pk_write = 3, pk_refs = 0, pk_buffer = [9, 5, 6] @ replicate 1021 9\<rparr>"
  by (subst put_packet_payload)
    (simp_all add: pk_wf_def BUFFER_SIZE_def bufferLen_def Let_def appended_def written_def)

end
