(* ===== verification/Movement.thy ===== *)
theory Movement
  imports Physics Packet
begin

unbundle bit_operations_syntax

text \<open>
  Movement (\<^verbatim>\<open>src/movement\<close>): Bezier curves (by the derivative and by arc-length segments),
  the random movement generator and the motion master of an entity. Calls into the map are the
  effects an update returns, in their order: packets to broadcast around the owner, and
  \<^verbatim>\<open>Map::onMove\<close>. Values drawn from the random distributions are arguments.
\<close>

section \<open>Bezier curves\<close>

record bezier =
  bz_a :: vec2
  bz_b :: vec2
  bz_c :: vec2
  bz_d :: vec2

definition calc :: "('z) bezier_scheme \<Rightarrow> rat \<Rightarrow> vec2" where
  "calc z t =
     (let u = fsub 1 t;
          tt = fmul t t;
          uu = fmul u u;
          uuu = fmul uu u;
          ttt = fmul tt t;
          p = scale2 uuu (bz_a z);
          p = p + scale2 (fmul (fmul 3 uu) t) (bz_b z);
          p = p + scale2 (fmul (fmul 3 u) tt) (bz_c z);
          p = p + scale2 ttt (bz_d z)
      in p)"

record derivative_bezier = bezier +
  dv1 :: vec2
  dv2 :: vec2
  dv3 :: vec2

definition DerivativeBezier :: "vec2 \<Rightarrow> vec2 \<Rightarrow> vec2 \<Rightarrow> vec2 \<Rightarrow> derivative_bezier" where
  "DerivativeBezier a b c d =
     \<lparr>bz_a = a, bz_b = b, bz_c = c, bz_d = d,
      dv1 = scale2 (- 3) a + scale2 9 b - scale2 9 c + scale2 3 d,
      dv2 = scale2 6 a - scale2 12 b + scale2 6 c,
      dv3 = scale2 (- 3) a + scale2 3 b\<rparr>"

text \<open>A division by zero has no finite value.\<close>

definition derivative_increase :: "glm \<Rightarrow> derivative_bezier \<Rightarrow> rat \<Rightarrow> rat \<Rightarrow> rat option" where
  "derivative_increase g z t speed =
     fdiv speed (gl_length g (scale2 (fmul t t) (dv1 z) + scale2 t (dv2 z) + dv3 z))"

definition derivative_next :: "derivative_bezier \<Rightarrow> rat \<Rightarrow> vec2" where
  "derivative_next z t = calc z t"

text \<open>\<^verbatim>\<open>SegmentedBezier<len>\<close>: the accumulated lengths at \<open>len + 1\<close> points of the curve.\<close>

record segmented_bezier = bezier +
  sb_segments :: "rat list"
  sb_length :: rat

fun measure_segments :: "glm \<Rightarrow> bezier \<Rightarrow> nat \<Rightarrow> nat list \<Rightarrow> vec2 \<Rightarrow> rat \<Rightarrow> rat list \<Rightarrow> rat list \<times> rat" where
  "measure_segments g z len [] origin tot segs = (segs, tot)"
| "measure_segments g z len (i # is) origin tot segs =
     (let p = calc z (fmul (rnd32 (of_nat i)) (fdivc 1 (rnd32 (of_nat len))));
          tot = fadd tot (gl_distance g p origin)
      in measure_segments g z len is p tot (segs @ [tot]))"

definition SegmentedBezier :: "glm \<Rightarrow> nat \<Rightarrow> vec2 \<Rightarrow> vec2 \<Rightarrow> vec2 \<Rightarrow> vec2 \<Rightarrow> segmented_bezier" where
  "SegmentedBezier g len a b c d =
     (let z = \<lparr>bz_a = a, bz_b = b, bz_c = c, bz_d = d\<rparr>;
          (segs, tot) = measure_segments g z len [1..<len + 1] (calc z 0) 0 [0]
      in \<lparr>bz_a = a, bz_b = b, bz_c = c, bz_d = d, sb_segments = segs, sb_length = tot\<rparr>)"

definition segmented_increase :: "segmented_bezier \<Rightarrow> rat \<Rightarrow> rat \<Rightarrow> rat option" where
  "segmented_increase z t speed = fdiv speed (sb_length z)"

text \<open>The binary search of \<^verbatim>\<open>map\<close>; the result is the last index probed.\<close>

function search :: "rat list \<Rightarrow> rat \<Rightarrow> nat \<Rightarrow> nat \<Rightarrow> nat \<Rightarrow> nat" where
  "search segs target low high index =
     (if low < high
      then let index = low + (high - low) div 2
           in if segs ! index < target then search segs target (index + 1) high index
              else search segs target low index index
      else index)"
  by pat_completeness auto
termination by (relation "measure (\<lambda>(segs, target, low, high, index). high - low)") auto

declare search.simps [simp del]

definition segmented_map :: "nat \<Rightarrow> segmented_bezier \<Rightarrow> rat \<Rightarrow> rat option" where
  "segmented_map len z t =
     (let targetLength = fmul t (sb_segments z ! len);
          found = search (sb_segments z) targetLength 0 len 0;
          index = (if targetLength < sb_segments z ! found then int found - 1 else int found)
      in if index < 0 then None
         else let lengthBefore = sb_segments z ! nat index
              in if lengthBefore = targetLength then Some (fdivc (rnd32 (of_int index)) (rnd32 (of_nat len)))
                 else if len < nat index + 1 then None
                 else case fdiv (fsub targetLength lengthBefore) (fsub (sb_segments z ! (nat index + 1)) lengthBefore) of
                        None \<Rightarrow> None
                      | Some r \<Rightarrow> Some (fdivc (fadd (rnd32 (of_int index)) r) (rnd32 (of_nat len))))"

definition segmented_next :: "nat \<Rightarrow> segmented_bezier \<Rightarrow> rat \<Rightarrow> vec2 option" where
  "segmented_next len z t = map_option (calc z) (segmented_map len z t)"

section \<open>State of the motion master\<close>

definition MOVING :: uint8 where "MOVING = 0x4"
definition ROTATING :: uint8 where "ROTATING = 0x8"

record random_movement =
  rm_hasPoint :: bool
  rm_bezier :: "derivative_bezier option"
  rm_t :: rat
  rm_previous :: vec2

record motion =
  mm_generator :: "random_movement option"
  mm_flags :: uint8
  mm_position :: vec3
  mm_forward :: vec3
  mm_rotationAngle :: rat
  mm_speed :: rat

datatype motion_effect = Broadcast uint16 "field list" | OnMove

datatype motion_fault = NotFinite | NullBezier | NoBoundingBoxSetup

definition MotionMaster_new :: "rat \<Rightarrow> motion" where
  "MotionMaster_new junk =
     \<lparr>mm_generator = None, mm_flags = 0, mm_position = Vec3 0 0 0, mm_forward = Vec3 0 0 1,
      mm_rotationAngle = junk, mm_speed = 0\<rparr>"

definition isMoving :: "motion \<Rightarrow> bool" where
  "isMoving m \<longleftrightarrow> mm_flags m AND MOVING = MOVING"

definition isRotating :: "motion \<Rightarrow> bool" where
  "isRotating m \<longleftrightarrow> mm_flags m AND ROTATING = ROTATING"

definition teleport :: "vec3 \<Rightarrow> motion \<Rightarrow> motion" where
  "teleport to m = m\<lparr>mm_position := to, mm_flags := 0\<rparr>"

definition move :: "motion \<Rightarrow> motion" where
  "move m = m\<lparr>mm_flags := mm_flags m OR MOVING\<rparr>"

definition stop :: "bool \<Rightarrow> motion \<Rightarrow> motion" where
  "stop cleanup m =
     (let m = m\<lparr>mm_flags := (mm_flags m AND NOT MOVING) AND NOT ROTATING\<rparr>
      in if cleanup then m\<lparr>mm_generator := None\<rparr> else m)"

definition speed :: "rat \<Rightarrow> motion \<Rightarrow> motion" where
  "speed s m = m\<lparr>mm_speed := fdivc s 1000\<rparr>"

definition forward_speed :: "rat \<Rightarrow> motion \<Rightarrow> motion" where
  "forward_speed s m =
     (if s = 0 then m\<lparr>mm_flags := mm_flags m AND NOT ROTATING\<rparr>
      else m\<lparr>mm_rotationAngle := fdivc s 1000, mm_flags := mm_flags m OR ROTATING\<rparr>)"

definition forward_to :: "vec3 \<Rightarrow> motion \<Rightarrow> motion" where
  "forward_to v m = m\<lparr>mm_forward := v\<rparr>"

definition generator :: "random_movement option \<Rightarrow> motion \<Rightarrow> motion" where
  "generator r m = m\<lparr>mm_generator := r\<rparr>"

section \<open>Random movement\<close>

text \<open>The bit pattern of a \<^verbatim>\<open>float\<close>: sign, biased exponent and mantissa.\<close>

definition f2u :: "rat \<Rightarrow> uint32" where
  "f2u x =
     (if x = 0 then 0
      else let e = ulp_exp 24 (- 149) x; m = \<lfloor>\<bar>x\<bar> / 2 powi e\<rfloor>
           in (if x < 0 then 0x80000000 else 0) + word_of_int ((e + 149) * 8388608 + m))"

definition bits2 :: "vec2 \<Rightarrow> uint32 \<times> uint32" where
  "bits2 v = (f2u (v2x v), f2u (v2y v))"

record samples =
  rs_speed :: uint8
  rs_x :: rat
  rs_y :: rat
  rs_start :: rat
  rs_nx :: rat
  rs_nz :: rat
  rs_end :: rat

definition RandomMovement_new :: "rat \<Rightarrow> vec2 \<Rightarrow> random_movement" where
  "RandomMovement_new junk_t junk_p =
     \<lparr>rm_hasPoint = False, rm_bezier = None, rm_t = junk_t, rm_previous = junk_p\<rparr>"

definition hasNext :: "random_movement \<Rightarrow> bool" where
  "hasNext r \<longleftrightarrow> rm_bezier r \<noteq> None"

text \<open>The fields of \<^verbatim>\<open>packet()\<close>, opcode \<open>0x0A05\<close>.\<close>

definition path_fields :: "derivative_bezier \<Rightarrow> rat \<Rightarrow> field list" where
  "path_fields z t = [U32 0, V2 (bits2 (bz_a z)), V2 (bits2 (bz_b z)), V2 (bits2 (bz_d z)),
     V2 (bits2 (bz_c z)), F32 (f2u t)]"

definition new_path :: "samples \<Rightarrow> motion \<Rightarrow> derivative_bezier" where
  "new_path s m =
     (let position = mm_position m; forward = mm_forward m;
          start = Vec2 (v3x position) (v3z position);
          end = Vec2 (fadd (v2x start) (rnd32 (rs_x s))) (fadd (v2y start) (rnd32 (rs_y s)))
      in DerivativeBezier start
           (start + scale2 (rnd32 (rs_start s)) (Vec2 (v3x forward) (v3z forward)))
           (end + scale2 (rnd32 (rs_end s))
              (Vec2 (rnd32 (rnd64 (- v3x forward * rs_nx s))) (rnd32 (rnd64 (- v3z forward * rs_nz s)))))
           end)"

definition start_path :: "samples \<Rightarrow> uint64 \<Rightarrow> random_movement \<Rightarrow> motion \<Rightarrow> random_movement \<times> motion \<times> motion_effect list" where
  "start_path s owner r m =
     (let z = new_path s m
      in (r\<lparr>rm_bezier := Some z, rm_t := 0, rm_previous := bz_a z, rm_hasPoint := True\<rparr>,
          move (speed (of_int (uint (rs_speed s))) m),
          [Broadcast 0x0A04 [U64 owner, U8 (rs_speed s), V2 (bits2 (bz_a z))],
           Broadcast 0x0A05 (path_fields z 0 @ [U64 owner])]))"

text \<open>
  \<^verbatim>\<open>boundingBox()\<close> asserts that the box was set up; with assertions off (\<open>debug = False\<close>) an
  entity without a box is skipped.
\<close>

definition rotate_owner :: "glm \<Rightarrow> bool \<Rightarrow> rat \<Rightarrow> box option \<Rightarrow> motion_fault + box option" where
  "rotate_owner g debug angle bb =
     (case bb of
        Some b \<Rightarrow> Inr (Some (box_rotate g angle b))
      | None \<Rightarrow> if debug then Inl NoBoundingBoxSetup else Inr None)"

definition advance :: "glm \<Rightarrow> bool \<Rightarrow> rat \<Rightarrow> random_movement \<Rightarrow> motion \<Rightarrow> box option
    \<Rightarrow> motion_fault + (vec3 \<times> random_movement \<times> motion \<times> box option)" where
  "advance g debug elapsed r m bb =
     (case rm_bezier r of
        None \<Rightarrow> Inl NullBezier
      | Some z \<Rightarrow>
          (case derivative_increase g z (rm_t r) (mm_speed m) of
             None \<Rightarrow> Inl NotFinite
           | Some inc \<Rightarrow>
               let t = fadd (rm_t r) (fmul inc elapsed);
                   nextPoint = derivative_next z t;
                   forward = gl_normalize2 g (nextPoint - rm_previous r);
                   oldForward = mm_forward m;
                   m = forward_to (Vec3 (v2x forward) (v3y oldForward) (v2y forward)) m;
                   angle = rnd32 (c_atan2 g (fsub (v2y forward) (v3y oldForward)) (fsub (v2x forward) (v3x oldForward)))
               in rbind (rotate_owner g debug angle bb) (\<lambda>bb.
                    let r = r\<lparr>rm_t := t, rm_previous := nextPoint\<rparr>;
                        (r, m) = (if 1 \<le> t then (r\<lparr>rm_hasPoint := False, rm_bezier := None\<rparr>, stop False m) else (r, m))
                    in Inr (Vec3 (v2x nextPoint) (v3y (mm_position m)) (v2y nextPoint), r, m, bb))))"

definition RandomMovement_update :: "glm \<Rightarrow> bool \<Rightarrow> samples \<Rightarrow> uint64 \<Rightarrow> rat \<Rightarrow> random_movement \<Rightarrow> motion \<Rightarrow> box option
    \<Rightarrow> motion_fault + (vec3 \<times> random_movement \<times> motion \<times> box option \<times> motion_effect list)" where
  "RandomMovement_update g debug s owner elapsed r m bb =
     (let (r, m, effects) = (if rm_hasPoint r then (r, m, []) else start_path s owner r m)
      in rbind (advance g debug elapsed r m bb) (\<lambda>(pos, r, m, bb). Inr (pos, r, m, bb, effects)))"

section \<open>The update of the motion master\<close>

definition step_generator :: "glm \<Rightarrow> bool \<Rightarrow> samples \<Rightarrow> uint64 \<Rightarrow> rat \<Rightarrow> motion \<Rightarrow> box option
    \<Rightarrow> motion_fault + (motion \<times> box option \<times> motion_effect list)" where
  "step_generator g debug s owner elapsed m bb =
     (case mm_generator m of
        None \<Rightarrow> Inr (m, bb, [])
      | Some r \<Rightarrow>
          rbind (RandomMovement_update g debug s owner elapsed r m bb) (\<lambda>(newPos, r, m, bb, effects).
            if \<not> hasNext r then Inr (generator None m, bb, effects)
            else Inr ((generator (Some r) m)\<lparr>mm_position := newPos\<rparr>, bb, effects @ [OnMove])))"

definition step_rotation :: "glm \<Rightarrow> bool \<Rightarrow> rat \<Rightarrow> motion \<Rightarrow> box option \<Rightarrow> motion_fault + (motion \<times> box option)" where
  "step_rotation g debug elapsed m bb =
     (if isRotating m
      then let elapsedAngle = fmul (mm_rotationAngle m) elapsed;
               m = m\<lparr>mm_forward := gl_normalize3 g (gl_rotateY g (mm_forward m) elapsedAngle)\<rparr>
           in rbind (rotate_owner g debug elapsedAngle bb) (\<lambda>bb. Inr (m, bb))
      else Inr (m, bb))"

definition step_forward :: "rat \<Rightarrow> motion \<Rightarrow> motion \<times> motion_effect list" where
  "step_forward elapsed m =
     (if mm_generator m = None \<and> isMoving m
      then (m\<lparr>mm_position := mm_position m + scale3 (fmul (mm_speed m) elapsed) (mm_forward m)\<rparr>, [OnMove])
      else (m, []))"

definition MotionMaster_update :: "glm \<Rightarrow> bool \<Rightarrow> samples \<Rightarrow> uint64 \<Rightarrow> uint64 \<Rightarrow> motion \<Rightarrow> box option
    \<Rightarrow> motion_fault + (motion \<times> box option \<times> motion_effect list)" where
  "MotionMaster_update g debug s owner elapsed m bb =
     (let el = rnd32 (of_int (uint elapsed))
      in rbind (step_generator g debug s owner el m bb) (\<lambda>(m, bb, eff1).
           rbind (step_rotation g debug el m bb) (\<lambda>(m, bb).
             let (m, eff2) = step_forward el m in Inr (m, bb, eff1 @ eff2))))"

section \<open>Properties of curves\<close>

text \<open>
  A curve starts at its first and ends at its last control point, exactly, with every
  \<^verbatim>\<open>float\<close> operation rounded.
\<close>

theorem bezier_endpoints:
  assumes "is_vec2 (bz_a z)" and "is_vec2 (bz_d z)"
  shows "calc z 0 = bz_a z \<and> calc z 1 = bz_d z"
  using assms by (cases "bz_a z"; cases "bz_d z")
    (simp add: calc_def Let_def plus_vec2_def is_vec2_def, simp add: fsub_def fmul_def is_float_def)

theorem bezier_endpoints_witness:
  "calc \<lparr>bz_a = Vec2 1 2, bz_b = Vec2 3 4, bz_c = Vec2 5 6, bz_d = Vec2 7 8\<rparr> 1 = Vec2 7 8"
proof -
  have "is_vec2 (Vec2 1 2)" "is_vec2 (Vec2 7 8)" by (simp_all add: is_vec2_def is_float_def)
  then show ?thesis
    using bezier_endpoints [of "\<lparr>bz_a = Vec2 1 2, bz_b = Vec2 3 4, bz_c = Vec2 5 6, bz_d = Vec2 7 8\<rparr>"] by simp
qed

text \<open>The search ends next to the target: below it, or at the first segment that reaches it.\<close>

lemma search_result:
  assumes "low < high" and "high \<le> n" and "\<And>i. i < low \<Longrightarrow> segs ! i < target"
    and "\<And>i j. i \<le> j \<Longrightarrow> j \<le> n \<Longrightarrow> segs ! i \<le> segs ! j" and "target \<le> segs ! n"
    and "high < n \<Longrightarrow> target \<le> segs ! high"
  shows "\<exists>k. search segs target low high index = k \<and> k < n
    \<and> (segs ! k < target \<and> target \<le> segs ! (k + 1)
       \<or> target \<le> segs ! k \<and> (0 < k \<longrightarrow> segs ! (k - 1) < target))"
  using assms
proof (induction segs target low high index rule: search.induct)
  case (1 segs target low high index)
  let ?i = "low + (high - low) div 2"
  have i: "low \<le> ?i" "?i < high" using "1.prems"(1) by auto
  show ?case
  proof (cases "segs ! ?i < target")
    case True
    then have low: "\<And>j. j < ?i + 1 \<Longrightarrow> segs ! j < target"
      using "1.prems"(4) i "1.prems"(2) by (metis Suc_eq_plus1 less_Suc_eq_le order.strict_trans1 order.trans less_imp_le)
    show ?thesis
    proof (cases "?i + 1 < high")
      case t: True
      show ?thesis
        using "1.IH"(1) [OF "1.prems"(1) refl True t "1.prems"(2) low "1.prems"(4,5,6)] True "1.prems"(1)
        by (subst search.simps) (simp add: Let_def)
    next
      case False
      then have h: "high = ?i + 1" using i by simp
      have "target \<le> segs ! (?i + 1)" using "1.prems"(2,5,6) h by (cases "high < n") auto
      moreover have "search segs target low high index = ?i"
        using "1.prems"(1) True h by (subst search.simps, simp add: Let_def, subst search.simps, simp)
      ultimately show ?thesis using True i "1.prems"(2) by auto
    qed
  next
    case False
    show ?thesis
    proof (cases "low < ?i")
      case t: True
      have "?i \<le> n" using i "1.prems"(2) by simp
      then show ?thesis
        using "1.IH"(2) [OF "1.prems"(1) refl False t _ "1.prems"(3,4,5)] False "1.prems"(1)
        by (subst search.simps) (simp add: Let_def)
    next
      case f: False
      then have "?i = low" using i by simp
      moreover from this have "search segs target low high index = ?i"
        using "1.prems"(1) False by (subst search.simps, simp add: Let_def, subst search.simps, simp)
      ultimately show ?thesis
        using False i "1.prems"(2,3) by (auto simp: not_less)
    qed
  qed
qed

lemma fdivc_unit: "0 \<le> a \<Longrightarrow> a \<le> b \<Longrightarrow> 0 < b \<Longrightarrow> 0 \<le> fdivc a b \<and> fdivc a b \<le> 1"
  using f32.nonneg [of "a / b"] f32.mono [of "a / b" 1] by (simp add: fdivc_def)

lemma float_grid:
  assumes "is_float x"
  obtains k where "x = of_int k * 2 powi (- 149)"
proof (cases "x = 0")
  case True
  then show thesis using that [of 0] by simp
next
  case False
  let ?e = "ulp_exp 24 (- 149) x"
  have "x = of_int (round_half_even (x / 2 powi ?e)) * 2 powi ?e"
    using assms False by (simp add: is_float_def rnd_def Let_def mult.commute)
  moreover have "- 149 \<le> ?e" by (simp add: ulp_exp_def)
  then obtain m where "of_int (round_half_even (x / 2 powi ?e)) * (2 :: rat) powi ?e = 2 powi (- 149) * of_int m"
    by (rule grid_multiple)
  ultimately show thesis using that [of m] by (simp add: mult.commute)
qed

lemma fsub_pos:
  assumes "is_float a" and "is_float b" and "a < b"
  shows "0 < fsub b a"
proof -
  obtain i j where ij: "a = of_int i * 2 powi (- 149)" "b = of_int j * 2 powi (- 149)"
    using float_grid assms(1,2) by metis
  then have "i < j" using assms(3) by simp
  then have "(1 :: rat) \<le> of_int (j - i)" by linarith
  then have "2 powi (- 149) \<le> of_int (j - i) * (2 :: rat) powi (- 149)"
    by (metis mult_le_cancel_right1 mult_1 not_less zero_le_power_int zero_le_numeral)
  then have "2 powi (- 149) \<le> b - a" by (simp add: ij left_diff_distrib)
  then have "rnd32 (2 powi (- 149)) \<le> fsub b a" unfolding fsub_def by (rule f32.mono)
  moreover have "rnd32 (2 powi (- 149)) = 2 powi (- 149)" using rnd_exact [of 1 24 "- 149" "- 149"] by simp
  ultimately show ?thesis by (metis less_le_trans zero_less_numeral zero_less_power_int)
qed

lemma fadd_index:
  assumes "0 \<le> r" and "r \<le> 1" and "i < 16777216"
  shows "of_nat i \<le> fadd (of_nat i) r \<and> fadd (of_nat i) r \<le> (of_nat i + 1 :: rat)"
proof -
  have "rnd32 (of_nat i) = of_nat i" "rnd32 (of_nat i + 1) = of_nat i + 1"
    using f32.small_int [of "int i"] f32.small_int [of "int i + 1"] assms(3) by simp_all
  then show ?thesis
    using f32.mono [of "of_nat i" "of_nat i + r"] f32.mono [of "of_nat i + r" "of_nat i + 1"] assms
    by (simp add: fadd_def)
qed

lemma fdivc_mono: "a \<le> b \<Longrightarrow> 0 < c \<Longrightarrow> fdivc a c \<le> fdivc b c"
  by (simp add: fdivc_def f32.mono divide_right_mono)

text \<open>
  C30. The arc-length parameter: for a table of non-decreasing lengths that starts at zero and any
  \<open>t\<close> between 0 and 1, \<^verbatim>\<open>SegmentedBezier::map\<close> never reads outside the table and never divides by
  zero, and returns a parameter between 0 and 1 in the segment whose lengths bracket the target.
\<close>

theorem segmented_map_correct:
  fixes z :: segmented_bezier and len :: nat and t :: rat
  defines "segs \<equiv> sb_segments z" and "target \<equiv> fmul t (sb_segments z ! len)"
  assumes "0 < len" and "len \<le> 16777216" and "length segs = len + 1" and "sorted segs" and "segs ! 0 = 0"
    and "\<forall>x \<in> set segs. is_float x" and "0 \<le> t" and "t \<le> 1"
  shows "\<exists>u i. segmented_map len z t = Some u \<and> 0 \<le> u \<and> u \<le> 1 \<and> i < len
    \<and> segs ! i \<le> target \<and> target \<le> segs ! (i + 1)
    \<and> fdivc (of_nat i) (of_nat len) \<le> u \<and> u \<le> fdivc (of_nat (i + 1)) (of_nat len)"
proof -
  have mono: "segs ! i \<le> segs ! j" if "i \<le> j" "j \<le> len" for i j
    using assms(5,6) that by (simp add: sorted_nth_mono)
  have fl: "is_float (segs ! i)" if "i \<le> len" for i using assms(5,8) that by (simp add: nth_mem)
  have pos: "0 \<le> segs ! len" using mono [of 0 len] assms(7) by simp
  have T: "0 \<le> target" "target \<le> segs ! len"
    using f32.nonneg [of "t * segs ! len"] f32.mono [of "t * segs ! len" "segs ! len"] pos assms(9,10) fl [of len]
    by (simp_all add: target_def segs_def [symmetric] fmul_def is_float_def mult_left_le_one_le)
  have rlen: "rnd32 (of_nat n) = of_nat n" if "n \<le> len" for n
    using f32.small_int [of "int n"] that assms(4) by simp
  define k where "k = search segs target 0 len 0"
  have k: "k < len" "segs ! k < target \<and> target \<le> segs ! (k + 1)
      \<or> target \<le> segs ! k \<and> (0 < k \<longrightarrow> segs ! (k - 1) < target)"
    using search_result [of 0 len len segs target 0] assms(3) mono T(2) by (auto simp: k_def)
  define i where "i = (if target < segs ! k then k - 1 else k)"
  have k0: "0 < k" if "target < segs ! k" using that T(1) assms(7) by (cases k) auto
  have i: "i < len" "segs ! i \<le> target" "target \<le> segs ! (i + 1)"
    using k k0 mono [of k "k + 1"] by (auto simp: i_def split: if_splits)
  have idx: "(if target < segs ! k then int k - 1 else int k) = int i" using k0 by (auto simp: i_def)
  have L: "0 < (of_nat len :: rat)" using assms(3) by simp
  note m = segmented_map_def [of len z t, folded segs_def target_def, unfolded Let_def,
      folded segs_def target_def k_def, unfolded idx]
  show ?thesis
  proof (cases "segs ! i = target")
    case True
    then have "segmented_map len z t = Some (fdivc (of_nat i) (of_nat len))"
      using i(1) rlen [of i] rlen [of len] unfolding m by simp
    moreover have "0 \<le> fdivc (of_nat i) (of_nat len)" "fdivc (of_nat i) (of_nat len) \<le> 1"
      using fdivc_unit [of "of_nat i" "of_nat len"] i(1) L by simp_all
    moreover have "fdivc (of_nat i) (of_nat len) \<le> fdivc (of_nat (i + 1)) (of_nat len)"
      by (rule fdivc_mono) (use L in auto)
    ultimately show ?thesis using i by blast
  next
    case False
    then have lt: "segs ! i < target" "segs ! i < segs ! (i + 1)" using i by auto
    have d: "0 < fsub (segs ! (i + 1)) (segs ! i)" using lt(2) fl [of i] fl [of "i + 1"] i(1) by (intro fsub_pos) auto
    define r where "r = rnd32 (fsub target (segs ! i) / fsub (segs ! (i + 1)) (segs ! i))"
    have "0 \<le> fsub target (segs ! i)" "fsub target (segs ! i) \<le> fsub (segs ! (i + 1)) (segs ! i)"
      using f32.nonneg [of "target - segs ! i"] f32.mono [of "target - segs ! i" "segs ! (i + 1) - segs ! i"] i lt
      by (simp_all add: fsub_def)
    then have r: "0 \<le> r" "r \<le> 1" using fdivc_unit [OF _ _ d] by (simp_all add: r_def fdivc_def)
    let ?u = "fdivc (fadd (of_nat i) r) (of_nat len)"
    have b: "of_nat i \<le> fadd (of_nat i) r" "fadd (of_nat i) r \<le> of_nat i + 1"
      using fadd_index [OF r] i(1) assms(4) by simp_all
    have "segmented_map len z t = Some ?u"
      using False i(1) d rlen [of i] rlen [of len] unfolding m by (simp add: fdiv_def r_def)
    moreover have "fdivc (of_nat i) (of_nat len) \<le> ?u" "?u \<le> fdivc (of_nat (i + 1)) (of_nat len)"
      using fdivc_mono [OF b(1) L] fdivc_mono [OF b(2) L] by (simp_all add: add.commute)
    moreover have "fadd (of_nat i) r \<le> of_nat len" using b(2) i(1)
      by (metis (mono_tags, opaque_lifting) Suc_leI add.commute of_nat_Suc of_nat_le_iff order.trans)
    then have "0 \<le> ?u" "?u \<le> 1"
      using fdivc_unit [of "fadd (of_nat i) r" "of_nat len"] b(1) L by (simp_all add: order.trans [OF of_nat_0_le_iff])
    ultimately show ?thesis using i by blast
  qed
qed

theorem segmented_map_correct_witness:
  "\<exists>u i. segmented_map 2 \<lparr>bz_a = Vec2 0 0, bz_b = Vec2 0 0, bz_c = Vec2 0 0, bz_d = Vec2 0 0,
       sb_segments = [0, 4, 10], sb_length = 10\<rparr> (1 / 2) = Some u \<and> 0 \<le> u \<and> u \<le> 1 \<and> i < 2
    \<and> [0, 4, 10] ! i \<le> fmul (1 / 2) 10 \<and> fmul (1 / 2) 10 \<le> [0, 4, 10] ! (i + 1)
    \<and> fdivc (of_nat i) 2 \<le> u \<and> u \<le> fdivc (of_nat (i + 1)) 2"
proof -
  let ?z = "\<lparr>bz_a = Vec2 0 0, bz_b = Vec2 0 0, bz_c = Vec2 0 0, bz_d = Vec2 0 0,
       sb_segments = [0, 4, 10], sb_length = 10\<rparr> :: segmented_bezier"
  have "0 < (2 :: nat)" "2 \<le> (16777216 :: nat)" "length (sb_segments ?z) = 2 + 1" "sorted (sb_segments ?z)"
    "sb_segments ?z ! 0 = 0" "\<forall>x \<in> set (sb_segments ?z). is_float x" "0 \<le> (1 / 2 :: rat)" "1 / 2 \<le> (1 :: rat)"
    by (simp_all add: is_float_def)
  from segmented_map_correct [OF this] show ?thesis by simp
qed

section \<open>Properties of motion\<close>

definition unit_glm :: glm where
  "unit_glm = plain_glm\<lparr>gl_length := \<lambda>_. 1\<rparr>"

definition sample_draws :: samples where
  "sample_draws = \<lparr>rs_speed = 5, rs_x = 100, rs_y = 100, rs_start = 250, rs_nx = 0, rs_nz = 0, rs_end = 250\<rparr>"

definition sample_path :: random_movement where
  "sample_path = \<lparr>rm_hasPoint = True, rm_bezier = Some (DerivativeBezier (Vec2 0 0) (Vec2 1 0) (Vec2 2 0) (Vec2 3 0)),
     rm_t = 0, rm_previous = Vec2 0 0\<rparr>"

definition sample_motion :: motion where
  "sample_motion = (MotionMaster_new 0)\<lparr>mm_generator := Some sample_path, mm_speed := 1, mm_flags := MOVING\<rparr>"

lemma flag_simps:
  "isMoving (m\<lparr>mm_flags := f\<rparr>) \<longleftrightarrow> bit f 2" "isRotating (m\<lparr>mm_flags := f\<rparr>) \<longleftrightarrow> bit f 3"
  "isMoving m \<longleftrightarrow> bit (mm_flags m) 2" "isRotating m \<longleftrightarrow> bit (mm_flags m) 3"
proof -
  have "w AND 2 ^ k = 2 ^ k \<longleftrightarrow> bit w k" if k: "k < 8" for w :: uint8 and k
  proof
    assume "w AND 2 ^ k = 2 ^ k"
    from arg_cong [OF this, of "\<lambda>x. bit x k"] show "bit w k" using k by (simp add: bit_simps)
  next
    assume "bit w k"
    then show "w AND 2 ^ k = 2 ^ k" by (intro bit_word_eqI) (auto simp: bit_and_iff bit_exp_iff)
  qed
  from this [of 2] this [of 3] have "w AND 4 = 4 \<longleftrightarrow> bit w 2" "w AND 8 = 8 \<longleftrightarrow> bit w 3" for w :: uint8
    by simp_all
  then show "isMoving (m\<lparr>mm_flags := f\<rparr>) \<longleftrightarrow> bit f 2" "isRotating (m\<lparr>mm_flags := f\<rparr>) \<longleftrightarrow> bit f 3"
    "isMoving m \<longleftrightarrow> bit (mm_flags m) 2" "isRotating m \<longleftrightarrow> bit (mm_flags m) 3"
    by (simp_all add: isMoving_def isRotating_def MOVING_def ROTATING_def)
qed

lemma flag_bits: "bit MOVING n \<longleftrightarrow> n = 2" "bit ROTATING n \<longleftrightarrow> n = 3"
proof -
  have pow: "MOVING = 2 ^ 2" "ROTATING = 2 ^ 3" by (simp_all add: MOVING_def ROTATING_def)
  show "bit MOVING n \<longleftrightarrow> n = 2" "bit ROTATING n \<longleftrightarrow> n = 3" unfolding pow bit_exp_iff by auto
qed

lemma stop_flags: "\<not> isMoving (stop c m)" "\<not> isRotating (stop c m)"
  by (simp_all add: stop_def Let_def flag_simps bit_simps flag_bits)

text \<open>
  The movement flags: \<^verbatim>\<open>move\<close> starts moving without touching the rotation, \<^verbatim>\<open>forward(speed)\<close>
  rotates exactly for a speed other than zero without touching the movement, \<^verbatim>\<open>stop\<close> and
  \<^verbatim>\<open>teleport\<close> end both, and a motion master at rest without a generator is left as it is by an
  update, which then does not call into the map.
\<close>

theorem motion_flags:
  "isMoving (move m) \<and> (isRotating (move m) \<longleftrightarrow> isRotating m)
   \<and> (isRotating (forward_speed s m) \<longleftrightarrow> s \<noteq> 0) \<and> (isMoving (forward_speed s m) \<longleftrightarrow> isMoving m)
   \<and> \<not> isMoving (stop c m) \<and> \<not> isRotating (stop c m)
   \<and> \<not> isMoving (teleport v m) \<and> \<not> isRotating (teleport v m)
   \<and> MotionMaster_update g debug smp owner elapsed (stop True m) bb = Inr (stop True m, bb, [])"
proof -
  have "MotionMaster_update g debug smp owner elapsed (stop True m) bb = Inr (stop True m, bb, [])"
    using stop_flags [of True m]
    by (simp add: MotionMaster_update_def Let_def step_generator_def step_rotation_def step_forward_def)
      (simp add: stop_def Let_def)
  then show ?thesis
    using stop_flags
    by (simp add: move_def forward_speed_def teleport_def flag_simps bit_simps flag_bits)
qed

lemma advance_result:
  assumes "advance g debug elapsed r m bb = Inr (pos, r', m', bb')" and "rm_hasPoint r"
  shows "hasNext r' \<longleftrightarrow> rm_t r' < 1" and "rm_hasPoint r' \<longleftrightarrow> hasNext r'"
    and "\<not> hasNext r' \<Longrightarrow> \<not> isMoving m' \<and> \<not> isRotating m'" and "mm_position m' = mm_position m"
  using assms stop_flags
  by (auto simp: advance_def rbind_eq_Inr Let_def hasNext_def split: option.splits if_splits)
    (simp_all add: forward_to_def stop_def Let_def)

lemma random_update_lifecycle:
  assumes "rm_hasPoint r \<longleftrightarrow> hasNext r"
    and "RandomMovement_update g debug s owner elapsed r m bb = Inr (pos, r', m', bb', eff)"
  shows "(rm_hasPoint r' \<longleftrightarrow> hasNext r') \<and> (hasNext r' \<longleftrightarrow> rm_t r' < 1)
    \<and> (\<not> hasNext r' \<longrightarrow> \<not> isMoving m' \<and> \<not> isRotating m')
    \<and> (if hasNext r then eff = []
       else eff = [Broadcast 0x0A04 [U64 owner, U8 (rs_speed s), V2 (bits2 (bz_a (new_path s m)))],
                   Broadcast 0x0A05 (path_fields (new_path s m) 0 @ [U64 owner])])"
proof -
  define start where "start = (if rm_hasPoint r then (r, m, []) else start_path s owner r m)"
  obtain r0 m0 e0 where s0: "start = (r0, m0, e0)" by (cases start)
  have a: "advance g debug elapsed r0 m0 bb = Inr (pos, r', m', bb')" "eff = e0"
    using assms(2) by (auto simp: RandomMovement_update_def start_def [symmetric] s0 rbind_eq_Inr)
  have p: "rm_hasPoint r0" "hasNext r \<longrightarrow> e0 = []"
    using s0 assms(1) by (auto simp: start_def start_path_def Let_def split: if_splits)
  have "\<not> hasNext r \<longrightarrow> e0 = [Broadcast 0x0A04 [U64 owner, U8 (rs_speed s), V2 (bits2 (bz_a (new_path s m)))],
      Broadcast 0x0A05 (path_fields (new_path s m) 0 @ [U64 owner])]"
    using s0 assms(1) by (auto simp: start_def start_path_def Let_def)
  then show ?thesis
    using advance_result [OF a(1) p(1)] p(2) a(2) by auto
qed

text \<open>
  The life of a random path: as long as the generator has a curve exactly when it has a
  target, an update keeps that; starting a path announces it with the two packets
  \<open>0x0A04\<close> and \<open>0x0A05\<close> and later updates broadcast nothing; the curve is dropped exactly when the
  parameter reaches one, and then the owner stands still.
\<close>

theorem random_movement_lifecycle:
  assumes "rm_hasPoint r \<longleftrightarrow> hasNext r"
    and "RandomMovement_update g debug s owner elapsed r m bb = Inr (pos, r', m', bb', eff)"
  shows "(rm_hasPoint r' \<longleftrightarrow> hasNext r') \<and> (hasNext r' \<longleftrightarrow> rm_t r' < 1)
    \<and> (\<not> hasNext r' \<longrightarrow> \<not> isMoving m' \<and> \<not> isRotating m')
    \<and> (if hasNext r then eff = []
       else eff = [Broadcast 0x0A04 [U64 owner, U8 (rs_speed s), V2 (bits2 (bz_a (new_path s m)))],
                   Broadcast 0x0A05 (path_fields (new_path s m) 0 @ [U64 owner])])"
  by (rule random_update_lifecycle [OF assms])

theorem random_movement_lifecycle_witness:
  "\<exists>pos r' m' bb' eff. RandomMovement_update unit_glm True sample_draws 1 10 (RandomMovement_new 0 (Vec2 0 0))
      (MotionMaster_new 0) (Some (CIRCULAR \<lparr>cb_center = Vec3 0 0 0, cb_radius = 1\<rparr>)) = Inr (pos, r', m', bb', eff)
    \<and> length eff = 2 \<and> (hasNext r' \<longleftrightarrow> rm_t r' < 1)"
proof -
  let ?u = "RandomMovement_update unit_glm True sample_draws 1 10 (RandomMovement_new 0 (Vec2 0 0))
      (MotionMaster_new 0) (Some (CIRCULAR \<lparr>cb_center = Vec3 0 0 0, cb_radius = 1\<rparr>))"
  have new: "rm_hasPoint (RandomMovement_new 0 (Vec2 0 0)) \<longleftrightarrow> hasNext (RandomMovement_new 0 (Vec2 0 0))"
    "\<not> hasNext (RandomMovement_new 0 (Vec2 0 0))"
    by (simp_all add: RandomMovement_new_def hasNext_def)
  have "\<exists>x. ?u = Inr x"
    by (simp add: RandomMovement_update_def RandomMovement_new_def start_path_def advance_def Let_def
        derivative_increase_def fdiv_def unit_glm_def rotate_owner_def)
  then obtain pos r' m' bb' eff where u: "?u = Inr (pos, r', m', bb', eff)" by (metis prod_cases5)
  show ?thesis using u random_movement_lifecycle [OF new(1) u] new(2) by auto
qed

text \<open>
  The last point of a path is not applied: in the update in which the generator reaches
  the end, its owner keeps the old position, loses the generator and the map is not told.
\<close>

theorem path_end_keeps_position:
  assumes "mm_generator m = Some r" and "rm_hasPoint r \<longleftrightarrow> hasNext r"
    and "MotionMaster_update g debug s owner elapsed m bb = Inr (m', bb', eff)"
    and "mm_generator m' = None"
  shows "mm_position m' = mm_position m \<and> OnMove \<notin> set eff"
proof -
  let ?el = "rnd32 (of_int (uint elapsed))"
  obtain m1 bb1 eff1 where g: "step_generator g debug s owner ?el m bb = Inr (m1, bb1, eff1)"
    and rest: "rbind (step_rotation g debug ?el m1 bb1)
      (\<lambda>(m, bb). let (m, eff2) = step_forward ?el m in Inr (m, bb, eff1 @ eff2)) = Inr (m', bb', eff)"
    using assms(3) by (auto simp: MotionMaster_update_def Let_def rbind_eq_Inr)
  have gen: "mm_generator m' = mm_generator m1"
    using rest by (auto simp: rbind_eq_Inr step_rotation_def step_forward_def Let_def split: if_splits)
  obtain np r' m2 bb2 e2 where u: "RandomMovement_update g debug s owner ?el r m bb = Inr (np, r', m2, bb2, e2)"
    and m1: "if hasNext r' then m1 = (generator (Some r') m2)\<lparr>mm_position := np\<rparr>
        else m1 = generator None m2 \<and> eff1 = e2"
    using g assms(1) by (auto simp: step_generator_def rbind_eq_Inr split: if_splits)
  have nh: "\<not> hasNext r'" using m1 gen assms(4) by (auto simp: generator_def split: if_splits)
  note life = random_update_lifecycle [OF assms(2) u]
  have still: "\<not> isMoving m2" "\<not> isRotating m2" using life nh by auto
  have "mm_position m2 = mm_position m"
    using u by (auto simp: RandomMovement_update_def rbind_eq_Inr start_path_def Let_def move_def speed_def
        split: if_splits dest: advance_result(4))
  moreover have "OnMove \<notin> set e2" using life by (auto split: if_splits)
  ultimately show ?thesis
    using rest m1 nh still
    by (auto simp: step_rotation_def step_forward_def generator_def isMoving_def isRotating_def)
qed

theorem path_end_keeps_position_witness:
  "\<exists>m' bb' eff. MotionMaster_update unit_glm True sample_draws 1 1000 sample_motion
      (Some (CIRCULAR \<lparr>cb_center = Vec3 0 0 0, cb_radius = 1\<rparr>)) = Inr (m', bb', eff)
    \<and> mm_generator m' = None \<and> mm_position m' = Vec3 0 0 0 \<and> OnMove \<notin> set eff"
proof -
  let ?u = "MotionMaster_update unit_glm True sample_draws 1 1000 sample_motion
      (Some (CIRCULAR \<lparr>cb_center = Vec3 0 0 0, cb_radius = 1\<rparr>))"
  have gen: "mm_generator sample_motion = Some sample_path" "rm_hasPoint sample_path \<longleftrightarrow> hasNext sample_path"
    by (simp_all add: sample_motion_def sample_path_def hasNext_def)
  have "\<exists>pos r1 m1. advance unit_glm True 1000 sample_path sample_motion
      (Some (CIRCULAR \<lparr>cb_center = Vec3 0 0 0, cb_radius = 1\<rparr>)) =
      Inr (pos, r1, stop False m1, Some (CIRCULAR \<lparr>cb_center = Vec3 0 0 0, cb_radius = 1\<rparr>)) \<and> \<not> hasNext r1"
    by (simp add: advance_def sample_path_def sample_motion_def derivative_increase_def fdiv_def unit_glm_def
        rotate_owner_def box_rotate_def Let_def hasNext_def fadd_def fmul_def) blast
  then obtain pos r1 m1 where adv: "advance unit_glm True 1000 sample_path sample_motion
      (Some (CIRCULAR \<lparr>cb_center = Vec3 0 0 0, cb_radius = 1\<rparr>)) =
      Inr (pos, r1, stop False m1, Some (CIRCULAR \<lparr>cb_center = Vec3 0 0 0, cb_radius = 1\<rparr>))" "\<not> hasNext r1"
    by blast
  have still: "\<not> isMoving (generator None (stop False m1))" "\<not> isRotating (generator None (stop False m1))"
    using stop_flags [of False m1] by (simp_all add: generator_def isMoving_def isRotating_def)
  have "rm_hasPoint sample_path" by (simp add: sample_path_def)
  then have "\<exists>m' bb' eff. ?u = Inr (m', bb', eff) \<and> mm_generator m' = None"
    using adv still
    by (simp add: MotionMaster_update_def step_generator_def gen(1) RandomMovement_update_def
        step_rotation_def step_forward_def) (simp add: generator_def)
  then obtain m' bb' eff where u: "?u = Inr (m', bb', eff)" "mm_generator m' = None" by blast
  have "mm_position sample_motion = Vec3 0 0 0" by (simp add: sample_motion_def MotionMaster_new_def)
  then show ?thesis using u path_end_keeps_position [OF gen u] by auto
qed

end
