(* ===== verification/Executor.thy ===== *)
theory Executor
  imports Prelude
begin

text \<open>
  The executor of servers and entities (\<^verbatim>\<open>src/executor\<close>): a bounded queue of works and a
  priority queue of time-stamped tasks, drained by \<^verbatim>\<open>executeJobs\<close>. What a work's handler does
  is a parameter: it runs on the executor itself and on the state \<open>'s\<close> of the program, and
  either returns the next work, if any, or throws \<^verbatim>\<open>ReadOutOfBounds\<close>. The loops take their
  number of iterations as fuel, since a handler may keep scheduling works forever.
\<close>

section \<open>Data\<close>

text \<open>A task has an address (\<open>st_addr\<close>), so that the model sees which one is deleted.\<close>

record 't schedulable =
  st_addr :: nat
  st_when :: int
  st_task :: 't

record ('j, 't) executor =
  ex_jobs :: "'j bqueue"
  ex_tasks :: "'t schedulable list"
  ex_addr :: nat

datatype 'j outcome = Done "'j option" | Threw

record ('j, 't, 's) program =
  pg_ready :: "'j \<Rightarrow> 's \<Rightarrow> bool"
  pg_handler :: "'j \<Rightarrow> ('j, 't) executor \<times> 's \<Rightarrow> 'j outcome \<times> ('j, 't) executor \<times> 's"
  pg_onWorkError :: "'j \<Rightarrow> 's \<Rightarrow> 's"
  pg_task :: "'t \<Rightarrow> ('j, 't) executor \<times> 's \<Rightarrow> ('j, 't) executor \<times> 's"

datatype exec_fault = TaskUseAfterFree | ExecutorOutOfFuel

section \<open>Operations\<close>

definition Executor_new :: "nat \<Rightarrow> ('j, 't) executor" where
  "Executor_new MaxQueued = \<lparr>ex_jobs = \<lparr>cap = Some MaxQueued, items = []\<rparr>, ex_tasks = [], ex_addr = 0\<rparr>"

text \<open>The result of the push is ignored.\<close>

definition schedule :: "'j \<Rightarrow> ('j, 't) executor \<Rightarrow> ('j, 't) executor" where
  "schedule job ex = ex\<lparr>ex_jobs := fst (bq_push job (ex_jobs ex))\<rparr>"

definition schedule_task :: "'t \<Rightarrow> int \<Rightarrow> ('j, 't) executor \<Rightarrow> ('j, 't) executor" where
  "schedule_task task when ex =
     ex\<lparr>ex_tasks := \<lparr>st_addr = ex_addr ex, st_when = when, st_task = task\<rparr> # ex_tasks ex, ex_addr := ex_addr ex + 1\<rparr>"

text \<open>\<^verbatim>\<open>AbstractWork::call\<close>: whether the handler returned, and its next work.\<close>

definition call :: "('j, 't, 's) program \<Rightarrow> 'j \<Rightarrow> ('j, 't) executor \<times> 's \<Rightarrow> bool \<times> 'j option \<times> ('j, 't) executor \<times> 's" where
  "call pg job st =
     (case pg_handler pg job st of
        (Done next, ex, s) \<Rightarrow> (True, next, ex, s)
      | (Threw, ex, s) \<Rightarrow> (False, None, ex, pg_onWorkError pg job s))"

text \<open>The first loop of \<^verbatim>\<open>executeJobs\<close>: its result is \<open>success\<close>, the state and \<open>reschedule\<close>.\<close>

fun jobs_loop :: "nat \<Rightarrow> ('j, 't, 's) program \<Rightarrow> 'j list \<Rightarrow> ('j, 't) executor \<times> 's
    \<Rightarrow> exec_fault + (bool \<times> 'j list \<times> ('j, 't) executor \<times> 's)" where
  "jobs_loop 0 pg reschedule st = Inl ExecutorOutOfFuel"
| "jobs_loop (Suc n) pg reschedule (ex, s) =
     (case bq_pop (ex_jobs ex) of
        None \<Rightarrow> Inr (True, reschedule, ex, s)
      | Some (q, job) \<Rightarrow>
          let ex = ex\<lparr>ex_jobs := q\<rparr>
          in if \<not> pg_ready pg job s then jobs_loop n pg (reschedule @ [job]) (ex, s)
             else (case call pg job (ex, s) of
                     (True, next, st) \<Rightarrow>
                       jobs_loop n pg (reschedule @ (case next of None \<Rightarrow> [] | Some j \<Rightarrow> [j])) st
                   | (False, _, st) \<Rightarrow> Inr (False, reschedule, st)))"

text \<open>
  \<^verbatim>\<open>std::priority_queue\<close> with \<^verbatim>\<open>SchedulableComparator\<close>: the top is an element with the greatest
  \<open>when\<close>; \<^verbatim>\<open>pop\<close> removes the top.
\<close>

fun task_top :: "'t schedulable list \<Rightarrow> 't schedulable option" where
  "task_top [] = None"
| "task_top (x # xs) =
     (case task_top xs of
        None \<Rightarrow> Some x
      | Some y \<Rightarrow> if st_when x < st_when y then Some y else Some x)"

fun remove_addr :: "nat \<Rightarrow> 't schedulable list \<Rightarrow> 't schedulable list" where
  "remove_addr a [] = []"
| "remove_addr a (x # xs) = (if st_addr x = a then xs else x # remove_addr a xs)"

definition task_pop :: "'t schedulable list \<Rightarrow> 't schedulable list" where
  "task_pop ts = (case task_top ts of None \<Rightarrow> ts | Some x \<Rightarrow> remove_addr (st_addr x) ts)"

text \<open>The second loop: run the top, pop, delete; \<open>freed\<close> are the deleted tasks.\<close>

fun tasks_loop :: "nat \<Rightarrow> ('j, 't, 's) program \<Rightarrow> int \<Rightarrow> nat list \<Rightarrow> ('j, 't) executor \<times> 's
    \<Rightarrow> exec_fault + (('j, 't) executor \<times> 's)" where
  "tasks_loop 0 pg now freed st = Inl ExecutorOutOfFuel"
| "tasks_loop (Suc n) pg now freed (ex, s) =
     (case task_top (ex_tasks ex) of
        None \<Rightarrow> Inr (ex, s)
      | Some st \<Rightarrow>
          if st_addr st \<in> set freed then Inl TaskUseAfterFree
          else if st_when st < now
          then (case pg_task pg (st_task st) (ex, s) of
                  (ex, s) \<Rightarrow>
                    tasks_loop n pg now (st_addr st # freed) (ex\<lparr>ex_tasks := task_pop (ex_tasks ex)\<rparr>, s))
          else Inr (ex, s))"

definition executeJobs :: "nat \<Rightarrow> ('j, 't, 's) program \<Rightarrow> int \<Rightarrow> ('j, 't) executor \<times> 's
    \<Rightarrow> exec_fault + (('j, 't) executor \<times> 's)" where
  "executeJobs n pg now st =
     rbind (jobs_loop n pg [] st) (\<lambda>(success, reschedule, ex, s).
       if \<not> success then Inr (ex, s)
       else tasks_loop n pg now [] (fold schedule reschedule ex, s))"

section \<open>Works\<close>

text \<open>
  A handler is quiet when it leaves the executor alone and only returns its next work. The
  reference semantics of the loop then is a fold over the queued works.
\<close>

definition quiet :: "('j, 't, 's) program \<Rightarrow> bool" where
  "quiet pg \<longleftrightarrow> (\<forall>job ex s. fst (snd (pg_handler pg job (ex, s))) = ex)
     \<and> (\<forall>job ex ex' s. fst (pg_handler pg job (ex, s)) = fst (pg_handler pg job (ex', s))
          \<and> snd (snd (pg_handler pg job (ex, s))) = snd (snd (pg_handler pg job (ex', s))))
     \<and> (\<forall>t ex s. fst (pg_task pg t (ex, s)) = ex)
     \<and> (\<forall>t ex ex' s. snd (pg_task pg t (ex, s)) = snd (pg_task pg t (ex', s)))"

text \<open>The works left in the queue, the works to reschedule, and the state; \<open>ex0\<close> is any executor.\<close>

fun jobs_ref :: "('j, 't, 's) program \<Rightarrow> ('j, 't) executor \<Rightarrow> 'j list \<Rightarrow> 's \<Rightarrow> bool \<times> 'j list \<times> 'j list \<times> 's" where
  "jobs_ref pg ex0 [] s = (True, [], [], s)"
| "jobs_ref pg ex0 (job # jobs) s =
     (if \<not> pg_ready pg job s
      then (case jobs_ref pg ex0 jobs s of (ok, rest, resched, s) \<Rightarrow> (ok, rest, job # resched, s))
      else case pg_handler pg job (ex0, s) of
             (Threw, _, s) \<Rightarrow> (False, jobs, [], pg_onWorkError pg job s)
           | (Done next, _, s) \<Rightarrow>
               (case jobs_ref pg ex0 jobs s of
                  (ok, rest, resched, s) \<Rightarrow> (ok, rest, (case next of None \<Rightarrow> [] | Some j \<Rightarrow> [j]) @ resched, s)))"

lemma jobs_loop_ref:
  assumes "quiet pg" and "length (items (ex_jobs ex)) < n"
  shows "jobs_loop n pg acc (ex, s) =
    (case jobs_ref pg ex0 (items (ex_jobs ex)) s of
       (ok, rest, resched, s) \<Rightarrow> Inr (ok, acc @ resched, ex\<lparr>ex_jobs := (ex_jobs ex)\<lparr>items := rest\<rparr>\<rparr>, s))"
  using assms(2)
proof (induction n arbitrary: ex s acc)
  case (Suc n)
  show ?case
  proof (cases "items (ex_jobs ex)")
    case Nil
    then show ?thesis by (simp add: bq_pop_def)
  next
    case (Cons job jobs)
    let ?ex = "ex\<lparr>ex_jobs := (ex_jobs ex)\<lparr>items := jobs\<rparr>\<rparr>"
    have pop: "bq_pop (ex_jobs ex) = Some ((ex_jobs ex)\<lparr>items := jobs\<rparr>, job)"
      using Cons by (simp add: bq_pop_def)
    have len: "length (items (ex_jobs ?ex)) < n" using Suc.prems Cons by simp
    obtain out s' where h: "pg_handler pg job (?ex, s) = (out, ?ex, s')" "pg_handler pg job (ex0, s) = (out, ex0, s')"
      using assms(1) unfolding quiet_def by (metis prod.collapse)
    show ?thesis
      using Suc.IH [OF len] pop h Cons
      by (cases out) (auto simp: call_def Let_def split: prod.splits option.splits)
  qed
qed simp

lemma jobs_ref_ok: "jobs_ref pg ex0 jobs s = (True, rest, resched, s') \<Longrightarrow> rest = []"
  by (induction jobs arbitrary: s resched) (auto split: if_splits prod.splits outcome.splits)

lemma schedule_items:
  assumes "cap (ex_jobs ex) = Some c"
  shows "fold schedule js ex = ex\<lparr>ex_jobs := (ex_jobs ex)\<lparr>items :=
    items (ex_jobs ex) @ take (c - length (items (ex_jobs ex))) js\<rparr>\<rparr>"
  using assms
proof (induction js arbitrary: ex)
  case (Cons j js)
  show ?case
  proof (cases "c \<le> length (items (ex_jobs ex))")
    case True
    then have "schedule j ex = ex" using Cons.prems by (simp add: schedule_def bq_push_def bq_full_def)
    with True Cons show ?thesis by simp
  next
    case False
    let ?ex = "ex\<lparr>ex_jobs := (ex_jobs ex)\<lparr>items := items (ex_jobs ex) @ [j]\<rparr>\<rparr>"
    have "schedule j ex = ?ex" using False Cons.prems by (simp add: schedule_def bq_push_def bq_full_def)
    moreover have "take (c - length (items (ex_jobs ex))) (j # js) = j # take (c - Suc (length (items (ex_jobs ex)))) js"
      using False by (simp add: take_Cons' diff_Suc)
    ultimately show ?thesis using Cons.IH [of ?ex] Cons.prems by simp
  qed
qed simp

section \<open>What the loops may do to the state\<close>

text \<open>
  If the handlers of works and tasks change the state only as the relation \<open>R\<close> allows, so
  does \<^verbatim>\<open>executeJobs\<close>, provided \<open>R\<close> is reflexive and transitive.
\<close>

definition works_within :: "('s \<Rightarrow> 's \<Rightarrow> bool) \<Rightarrow> ('j, 't, 's) program \<Rightarrow> bool" where
  "works_within R pg \<longleftrightarrow>
     (\<forall>job ex s. R s (snd (snd (pg_handler pg job (ex, s)))))
     \<and> (\<forall>job s. R s (pg_onWorkError pg job s))
     \<and> (\<forall>task ex s. R s (snd (pg_task pg task (ex, s))))"

lemma call_within:
  assumes "call pg job (ex, s) = (b, nx, ex', s')" and "works_within R pg" and "\<And>a b c. R a b \<Longrightarrow> R b c \<Longrightarrow> R a c"
  shows "R s s'"
  using assms(1,2) unfolding call_def works_within_def
  by (auto split: prod.splits outcome.splits) (metis assms(3) snd_conv)+

lemma jobs_loop_within:
  assumes "jobs_loop n pg r (ex, s) = Inr (b, r', ex', s')" and "works_within R pg"
    and "\<And>a. R a a" and "\<And>a b c. R a b \<Longrightarrow> R b c \<Longrightarrow> R a c"
  shows "R s s'"
  using assms(1)
proof (induction n arbitrary: r ex s)
  case (Suc n)
  show ?case
  proof (cases "bq_pop (ex_jobs ex)")
    case (Some z)
    obtain q job where z: "z = (q, job)" by fastforce
    obtain b1 nx ex1 s1 where c: "call pg job (ex\<lparr>ex_jobs := q\<rparr>, s) = (b1, nx, ex1, s1)"
      using prod_cases4 by blast
    then have "R s s1" by (rule call_within [OF _ assms(2,4)])
    then have "R s1 s' \<Longrightarrow> R s s'" by (rule assms(4))
    with Suc c Some z \<open>R s s1\<close> show ?thesis
      by (simp add: Let_def split: if_splits bool.splits)
  qed (use Suc.prems assms(3) in simp)
qed simp

lemma tasks_loop_within:
  assumes "tasks_loop n pg now freed (ex, s) = Inr (ex', s')" and "works_within R pg"
    and "\<And>a. R a a" and "\<And>a b c. R a b \<Longrightarrow> R b c \<Longrightarrow> R a c"
  shows "R s s'"
  using assms(1)
proof (induction n arbitrary: freed ex s)
  case (Suc n)
  show ?case
  proof (cases "task_top (ex_tasks ex)")
    case (Some z)
    obtain ex1 s1 where t: "pg_task pg (st_task z) (ex, s) = (ex1, s1)" by fastforce
    then have "R s s1"
      using assms(2) unfolding works_within_def by (metis snd_conv)
    then have "R s1 s' \<Longrightarrow> R s s'" by (rule assms(4))
    with Suc t Some show ?thesis
      by (simp add: assms(3) split: if_splits)
  qed (use Suc.prems assms(3) in simp)
qed simp

lemma executeJobs_within:
  assumes "executeJobs n pg now (ex, s) = Inr (ex', s')" and "works_within R pg"
    and "\<And>a. R a a" and "\<And>a b c. R a b \<Longrightarrow> R b c \<Longrightarrow> R a c"
  shows "R s s'"
proof -
  obtain b r ex1 s1 where j: "jobs_loop n pg [] (ex, s) = Inr (b, r, ex1, s1)"
    and t: "(if \<not> b then Inr (ex1, s1) else tasks_loop n pg now [] (fold schedule r ex1, s1)) = Inr (ex', s')"
    using assms(1) by (auto simp: executeJobs_def rbind_eq_Inr)
  have "R s1 s'"
  proof (cases b)
    case True
    then have "tasks_loop n pg now [] (fold schedule r ex1, s1) = Inr (ex', s')" using t by simp
    then show ?thesis by (rule tasks_loop_within [OF _ assms(2-4)])
  next
    case False
    then show ?thesis using t assms(3) by simp
  qed
  with jobs_loop_within [OF j assms(2-4)] show ?thesis by (rule assms(4))
qed

section \<open>Tasks\<close>

lemma task_top_None: "task_top ts = None \<longleftrightarrow> ts = []"
  by (cases ts) (auto split: option.splits)

lemma task_top_max: "task_top ts = Some x \<Longrightarrow> x \<in> set ts \<and> (\<forall>y \<in> set ts. st_when y \<le> st_when x)"
proof (induction ts arbitrary: x)
  case (Cons t ts)
  then show ?case by (cases "task_top ts") (auto simp: task_top_None split: if_splits)
qed simp

lemma remove_addr_mset:
  "distinct (map st_addr ts) \<Longrightarrow> x \<in> set ts \<Longrightarrow> mset ts = add_mset x (mset (remove_addr (st_addr x) ts))"
  by (induction ts) (auto simp: rev_image_eqI)

lemma remove_addr_props:
  "set (remove_addr a ts) \<subseteq> set ts" "distinct (map st_addr ts) \<Longrightarrow> distinct (map st_addr (remove_addr a ts))"
  "distinct (map st_addr ts) \<Longrightarrow> a \<notin> st_addr ` set (remove_addr a ts)"
  by (induction ts) auto

text \<open>A quiet program runs its tasks only when the latest of them is due, and then all, latest first.\<close>

lemma tasks_loop_all:
  assumes "quiet pg" and "length (ex_tasks ex) < n" and "distinct (map st_addr (ex_tasks ex))"
    and "set freed \<inter> st_addr ` set (ex_tasks ex) = {}" and "\<forall>t \<in> set (ex_tasks ex). st_when t < now"
  shows "\<exists>ts. tasks_loop n pg now freed (ex, s) =
      Inr (ex\<lparr>ex_tasks := []\<rparr>, fold (\<lambda>t s. snd (pg_task pg (st_task t) (ex0, s))) ts s)
    \<and> mset ts = mset (ex_tasks ex) \<and> sorted_wrt (\<lambda>a b. st_when b \<le> st_when a) ts"
  using assms(2-)
proof (induction n arbitrary: ex s freed)
  case (Suc n)
  show ?case
  proof (cases "task_top (ex_tasks ex)")
    case None
    then have "ex_tasks ex = []" by (simp add: task_top_None)
    then show ?thesis by (intro exI [of _ "[]"]) simp
  next
    case (Some x)
    note x = task_top_max [OF Some]
    let ?ts = "remove_addr (st_addr x) (ex_tasks ex)"
    let ?ex = "ex\<lparr>ex_tasks := ?ts\<rparr>"
    have m: "mset (ex_tasks ex) = add_mset x (mset ?ts)" using remove_addr_mset Suc.prems(2) x by blast
    then have len: "length (ex_tasks ?ex) < n" using Suc.prems(1) by (metis executor.select_convs(2) executor.surjective executor.update_convs(2) length_Cons mset.simps(2) mset_eq_length not_less_eq)
    obtain s1 where task: "pg_task pg (st_task x) (ex, s) = (ex, s1)" "snd (pg_task pg (st_task x) (ex0, s)) = s1"
      using assms(1) unfolding quiet_def by (metis prod.collapse)
    have step: "tasks_loop (Suc n) pg now freed (ex, s) = tasks_loop n pg now (st_addr x # freed) (?ex, s1)"
      using Some x Suc.prems(3,4) task(1) by (auto simp: task_pop_def)
    have "\<exists>ts. tasks_loop n pg now (st_addr x # freed) (?ex, s1) =
        Inr (?ex\<lparr>ex_tasks := []\<rparr>, fold (\<lambda>t s. snd (pg_task pg (st_task t) (ex0, s))) ts s1)
      \<and> mset ts = mset (ex_tasks ?ex) \<and> sorted_wrt (\<lambda>a b. st_when b \<le> st_when a) ts"
      using Suc.prems remove_addr_props(1) [where a = "st_addr x" and ts = "ex_tasks ex"]
        remove_addr_props(2,3) [OF Suc.prems(2), of "st_addr x"] len by (intro Suc.IH) auto
    then obtain ts where ts: "tasks_loop n pg now (st_addr x # freed) (?ex, s1) =
        Inr (?ex\<lparr>ex_tasks := []\<rparr>, fold (\<lambda>t s. snd (pg_task pg (st_task t) (ex0, s))) ts s1)"
      "mset ts = mset ?ts" "sorted_wrt (\<lambda>a b. st_when b \<le> st_when a) ts" by auto
    have "\<forall>y \<in> set ts. st_when y \<le> st_when x"
      using x remove_addr_props(1) mset_eq_setD [OF ts(2)] by blast
    then show ?thesis
      using step ts m task(2) by (intro exI [of _ "x # ts"]) simp
  qed
qed simp

lemma tasks_loop_blocked:
  assumes "t \<in> set (ex_tasks ex)" and "now \<le> st_when t"
    and "set freed \<inter> st_addr ` set (ex_tasks ex) = {}"
  shows "tasks_loop (Suc n) pg now freed (ex, s) = Inr (ex, s)"
proof (cases "task_top (ex_tasks ex)")
  case None
  with assms(1) show ?thesis by (simp add: task_top_None)
next
  case (Some x)
  note x = task_top_max [OF Some]
  have "now \<le> st_when x" using x assms(1,2) by fastforce
  moreover have "st_addr x \<notin> set freed" using x assms(3) by blast
  ultimately show ?thesis using Some by simp
qed

text \<open>\<^verbatim>\<open>executeJobs\<close> in terms of the reference: what is left of the queue and of the tasks, and the state.\<close>

lemma executeJobs_ref:
  assumes "quiet pg" and "length (items (ex_jobs ex)) < n" and "length (ex_tasks ex) < n"
    and "cap (ex_jobs ex) = Some c" and "distinct (map st_addr (ex_tasks ex))"
    and ref: "jobs_ref pg ex (items (ex_jobs ex)) s = (ok, rest, resched, s1)"
  shows "\<exists>ex' s'. executeJobs n pg now (ex, s) = Inr (ex', s')
    \<and> ex_jobs ex' = (ex_jobs ex)\<lparr>items := if ok then take c resched else rest\<rparr>
    \<and> (if ok then ex_tasks ex' = [] \<or> ex_tasks ex' = ex_tasks ex else ex_tasks ex' = ex_tasks ex \<and> s' = s1)
    \<and> (\<exists>ts. s' = fold (\<lambda>t s. snd (pg_task pg t (ex, s))) ts s1)"
proof -
  have loop: "jobs_loop n pg [] (ex, s) = Inr (ok, resched, ex\<lparr>ex_jobs := (ex_jobs ex)\<lparr>items := rest\<rparr>\<rparr>, s1)"
    using jobs_loop_ref [OF assms(1,2), of "[]" s ex] ref by simp
  show ?thesis
  proof (cases ok)
    case False
    then show ?thesis using loop by (auto simp: executeJobs_def intro: exI [of _ "[]"])
  next
    case True
    then have rest: "rest = []" using jobs_ref_ok [of pg ex "items (ex_jobs ex)" s rest resched s1] ref by simp
    let ?ex = "ex\<lparr>ex_jobs := (ex_jobs ex)\<lparr>items := take c resched\<rparr>\<rparr>"
    have sched: "fold schedule resched (ex\<lparr>ex_jobs := (ex_jobs ex)\<lparr>items := []\<rparr>\<rparr>) = ?ex"
      using schedule_items [of "ex\<lparr>ex_jobs := (ex_jobs ex)\<lparr>items := []\<rparr>\<rparr>" c resched] assms(4) by simp
    have "\<exists>ex' s'. tasks_loop n pg now [] (?ex, s1) = Inr (ex', s') \<and> ex_jobs ex' = ex_jobs ?ex
      \<and> (ex_tasks ex' = [] \<or> ex_tasks ex' = ex_tasks ex) \<and> (\<exists>ts. s' = fold (\<lambda>t s. snd (pg_task pg t (ex, s))) ts s1)"
    proof (cases "\<forall>t \<in> set (ex_tasks ?ex). st_when t < now")
      case True
      have t: "length (ex_tasks ?ex) < n" "distinct (map st_addr (ex_tasks ?ex))" "set [] \<inter> st_addr ` set (ex_tasks ?ex) = {}"
        using assms(3,5) by simp_all
      obtain ts where "tasks_loop n pg now [] (?ex, s1) = Inr (?ex\<lparr>ex_tasks := []\<rparr>, fold (\<lambda>t s. snd (pg_task pg (st_task t) (ex, s))) ts s1)"
          "mset ts = mset (ex_tasks ?ex)"
        using tasks_loop_all [OF assms(1) t True, of s1 ex] by blast
      moreover have "fold (\<lambda>t s. snd (pg_task pg (st_task t) (ex, s))) ts s1 = fold (\<lambda>t s. snd (pg_task pg t (ex, s))) (map st_task ts) s1"
        by (simp add: fold_map comp_def)
      ultimately show ?thesis by auto
    next
      case False
      then obtain t where "t \<in> set (ex_tasks ?ex)" "now \<le> st_when t" by (auto simp: not_less)
      moreover obtain k where "n = Suc k" using assms(2) by (cases n) auto
      ultimately have "tasks_loop n pg now [] (?ex, s1) = Inr (?ex, s1)"
        by (simp only: tasks_loop_blocked [of t ?ex now "[]"] list.set Int_empty_left)
      then show ?thesis by (auto intro: exI [of _ "[]"])
    qed
    then show ?thesis using loop True rest sched by (auto simp: executeJobs_def)
  qed
qed


definition idle_program :: "(nat, nat, nat list) program" where
  "idle_program = \<lparr>pg_ready = \<lambda>j s. j \<noteq> 2, pg_handler = \<lambda>j (ex, s). (if j = 9 then Threw else Done (if j = 3 then Some 4 else None), ex, s @ [j]),
     pg_onWorkError = \<lambda>j s. s @ [0], pg_task = \<lambda>t (ex, s). (ex, s @ [t])\<rparr>"

lemma quiet_idle: "quiet idle_program"
  by (simp add: quiet_def idle_program_def)


text \<open>
  The tasks run only when the latest of them is due, and then all of them, latest first:
  as long as one task lies in the future, no task that is already due runs, because the priority
  queue keeps the greatest time on top and the loop stops at a top that is not due.
\<close>

theorem tasks_blocked_by_latest:
  assumes "quiet pg" and "length (ex_tasks ex) < n" and "distinct (map st_addr (ex_tasks ex))"
  shows "if \<forall>t \<in> set (ex_tasks ex). st_when t < now
    then \<exists>ts. tasks_loop n pg now [] (ex, s) =
           Inr (ex\<lparr>ex_tasks := []\<rparr>, fold (\<lambda>t s. snd (pg_task pg (st_task t) (ex, s))) ts s)
         \<and> mset ts = mset (ex_tasks ex) \<and> sorted_wrt (\<lambda>a b. st_when b \<le> st_when a) ts
    else tasks_loop n pg now [] (ex, s) = Inr (ex, s)"
proof (cases "\<forall>t \<in> set (ex_tasks ex). st_when t < now")
  case True
  then show ?thesis using tasks_loop_all [OF assms _ True, of "[]" s ex] by simp
next
  case False
  then obtain t where t: "t \<in> set (ex_tasks ex)" "now \<le> st_when t" by (auto simp: not_less)
  obtain k where "n = Suc k" using assms(2) by (cases n) auto
  then have "tasks_loop n pg now [] (ex, s) = Inr (ex, s)"
    by (simp only: tasks_loop_blocked [OF t, of "[]"] list.set Int_empty_left)
  then show ?thesis by (simp only: False if_False)
qed

theorem tasks_blocked_by_latest_witness:
  "tasks_loop 3 idle_program 50 [] (\<lparr>ex_jobs = \<lparr>cap = Some 16, items = []\<rparr>,
      ex_tasks = [\<lparr>st_addr = 0, st_when = 10, st_task = 1\<rparr>, \<lparr>st_addr = 1, st_when = 90, st_task = 2\<rparr>], ex_addr = 2\<rparr>, []) =
   Inr (\<lparr>ex_jobs = \<lparr>cap = Some 16, items = []\<rparr>,
      ex_tasks = [\<lparr>st_addr = 0, st_when = 10, st_task = 1\<rparr>, \<lparr>st_addr = 1, st_when = 90, st_task = 2\<rparr>], ex_addr = 2\<rparr>, [])"
  using tasks_blocked_by_latest [OF quiet_idle, of "\<lparr>ex_jobs = \<lparr>cap = Some 16, items = []\<rparr>,
      ex_tasks = [\<lparr>st_addr = 0, st_when = 10, st_task = 1\<rparr>, \<lparr>st_addr = 1, st_when = 90, st_task = 2\<rparr>], ex_addr = 2\<rparr>" 3 50 "[]"]
  by simp

text \<open>
  C39. A task that schedules a later one breaks the queue: the loop runs the top before it pops,
  so when a due task schedules a task for a later time, \<^verbatim>\<open>pop\<close> removes the new task, which never
  runs, while the old one is deleted and stays in the queue; the next look at it is a use after
  free.
\<close>

theorem rescheduling_task_use_after_free:
  assumes "pg_task pg t (ex, s) = (schedule_task t' later ex, s')"
    and "ex_tasks ex = [\<lparr>st_addr = a, st_when = w, st_task = t\<rparr>]" and "a < ex_addr ex"
    and "w < now" and "w < later"
  shows "tasks_loop (Suc (Suc n)) pg now [] (ex, s) = Inl TaskUseAfterFree"
  using assms by (simp add: schedule_task_def task_pop_def)

definition periodic_program :: "(nat, nat, nat list) program" where
  "periodic_program = \<lparr>pg_ready = \<lambda>j s. True, pg_handler = \<lambda>j (ex, s). (Done None, ex, s),
     pg_onWorkError = \<lambda>j s. s, pg_task = \<lambda>t (ex, s). (schedule_task t 100 ex, s @ [t])\<rparr>"

theorem rescheduling_task_use_after_free_witness:
  "tasks_loop 2 periodic_program 50 [] (schedule_task 7 10 (Executor_new 16), []) = Inl TaskUseAfterFree"
  using rescheduling_task_use_after_free [of periodic_program 7 "schedule_task 7 10 (Executor_new 16)" "[]" 7 100 "[7]" 0 10 50 0]
  by (simp add: periodic_program_def schedule_task_def Executor_new_def numeral_2_eq_2)

end
