(* ===== verification/World.thy ===== *)
theory World
  imports Hex_Grid Quadtree Movement Executor
begin

text \<open>
  The state the map, its cells, its cluster and the entities share (\<^verbatim>\<open>src/map\<close>). Objects live at
  addresses: cells and entities are partial maps from addresses, so that a null pointer, a
  pointer to a destroyed object and two pointers to one object are all visible. Operations
  return either a fault or the new state. Unordered containers are lists.
\<close>

section \<open>Data\<close>

type_synonym addr = nat

text \<open>A pointer to a packet: \<open>None\<close> is null, \<open>Some i\<close> the \<open>i\<close>-th packet ever created.\<close>

type_synonym packet_ptr = "nat option"

datatype fault =
    NullDereference
  | UseAfterFree
  | AssertFailed
  | EraseEnd
  | OutsideTable
  | BadOffset
  | TreeFault qt_error
  | MotionFault motion_fault
  | PacketFault packet_error
  | ExecFault exec_fault

datatype request_type = SPAWN | DESPAWN

record request =
  rq_who :: addr
  rq_type :: request_type

record entity =
  en_id :: uint64
  en_client :: "addr option"
  en_cell :: "addr option"
  en_box :: "box option"
  en_motion :: motion
  en_isUpdater :: bool
  en_exec :: "(nat, nat) executor"

record cell =
  cl_offset :: offset
  cl_tree :: "addr radial_quadtree"
  cl_entities :: "(uint64 \<times> addr) list"
  cl_clientsCount :: uint16
  cl_queue1 :: "packet_ptr list"
  cl_queue2 :: "packet_ptr list"
  cl_first :: bool
  cl_requests :: "request list"
  cl_isRegistered :: bool
  cl_isOnCooldown :: bool
  cl_remaining :: uint64

datatype map_operation_type = ADD_ENTITY | REMOVE_ENTITY | DESTROY

record map_operation =
  mo_type :: map_operation_type
  mo_offset :: offset
  mo_entity :: "addr option"
  mo_param :: "addr option"

datatype cluster_operation = KEEP addr | UNKEEP addr

text \<open>
  The cluster: \<open>cu_nv\<close> and \<open>cu_edges\<close> are the graph, whose vertices are numbered in the order
  in which they are added.
\<close>

record cluster =
  cu_ops :: "cluster_operation bqueue"
  cu_nv :: nat
  cu_edges :: "(nat \<times> nat) list"
  cu_current :: "addr list"
  cu_old :: "addr list"
  cu_stall :: "addr list"
  cu_numStall :: uint16
  cu_numStallCandidates :: uint16
  cu_cellsByCluster :: "nat \<Rightarrow> addr list"
  cu_vertices :: "(addr \<times> nat) list"
  cu_keepers :: "addr list"
  cu_num_components :: uint16

record world =
  w_cells :: "addr \<Rightarrow> cell option"
  w_next :: addr
  w_index :: "(offset \<times> addr) list"
  w_ops :: "map_operation bqueue"
  w_cluster :: cluster
  w_entities :: "addr \<Rightarrow> entity option"
  w_packets :: "packet list"
  w_sent :: "(addr \<times> uint8 list) list"
  w_rx :: reactive

text \<open>
  What the world is parametrised by: the build (assertions on), the libraries, the packets of
  the virtual \<^verbatim>\<open>spawnPacket\<close> and \<^verbatim>\<open>despawnPacket\<close> (an opcode and fields, or null), the contents of
  uninitialised memory, the algorithm of \<^verbatim>\<open>boost::connected_components\<close>, the random draws, the
  clock and the handlers of works.
\<close>

record env =
  ev_debug :: bool
  ev_glm :: glm
  ev_spawn :: "addr \<Rightarrow> (uint16 \<times> field list) option"
  ev_despawn :: "addr \<Rightarrow> (uint16 \<times> field list) option"
  ev_junk_count :: uint16
  ev_junk_buffer :: "uint8 list"
  ev_components :: "nat \<Rightarrow> (nat \<times> nat) list \<Rightarrow> nat list \<times> nat"
  ev_samples :: "addr \<Rightarrow> samples"
  ev_now :: int
  ev_fuel :: nat

section \<open>Objects\<close>

definition cell_at :: "addr \<Rightarrow> world \<Rightarrow> fault + cell" where
  "cell_at a w = (case w_cells w a of None \<Rightarrow> Inl UseAfterFree | Some c \<Rightarrow> Inr c)"

definition entity_at :: "addr \<Rightarrow> world \<Rightarrow> fault + entity" where
  "entity_at e w = (case w_entities w e of None \<Rightarrow> Inl UseAfterFree | Some x \<Rightarrow> Inr x)"

definition the_ptr :: "addr option \<Rightarrow> fault + addr" where
  "the_ptr p = (case p of None \<Rightarrow> Inl NullDereference | Some a \<Rightarrow> Inr a)"

definition set_cell :: "addr \<Rightarrow> cell \<Rightarrow> world \<Rightarrow> world" where
  "set_cell a c w = w\<lparr>w_cells := (w_cells w)(a := Some c)\<rparr>"

definition set_entity :: "addr \<Rightarrow> entity \<Rightarrow> world \<Rightarrow> world" where
  "set_entity e x w = w\<lparr>w_entities := (w_entities w)(e := Some x)\<rparr>"

definition on_cell :: "addr \<Rightarrow> (cell \<Rightarrow> cell) \<Rightarrow> world \<Rightarrow> fault + world" where
  "on_cell a f w = rbind (cell_at a w) (\<lambda>c. Inr (set_cell a (f c) w))"

definition on_entity :: "addr \<Rightarrow> (entity \<Rightarrow> entity) \<Rightarrow> world \<Rightarrow> fault + world" where
  "on_entity e f w = rbind (entity_at e w) (\<lambda>x. Inr (set_entity e (f x) w))"

definition on_cluster :: "(cluster \<Rightarrow> cluster) \<Rightarrow> world \<Rightarrow> world" where
  "on_cluster f w = w\<lparr>w_cluster := f (w_cluster w)\<rparr>"

text \<open>\<^verbatim>\<open>Map::get\<close>.\<close>

definition get :: "world \<Rightarrow> int32 \<Rightarrow> int32 \<Rightarrow> addr option" where
  "get w q r = map_of (w_index w) (Offset q r)"

text \<open>A packet made by \<^verbatim>\<open>Packet::create(opcode)\<close> and filled with fields, and its pointer.\<close>

definition new_packet :: "env \<Rightarrow> (uint16 \<times> field list) option \<Rightarrow> world \<Rightarrow> fault + (packet_ptr \<times> world)" where
  "new_packet ev spec w =
     (case spec of
        None \<Rightarrow> Inr (None, w)
      | Some (opcode, fs) \<Rightarrow>
          (case Packet_create opcode (ev_junk_buffer ev) (w_rx w) of
             Inl x \<Rightarrow> Inl (PacketFault x)
           | Inr (p, rx) \<Rightarrow>
               (case rfold put_field fs p of
                  Inl x \<Rightarrow> Inl (PacketFault x)
                | Inr p \<Rightarrow> Inr (Some (length (w_packets w)), w\<lparr>w_packets := w_packets w @ [p], w_rx := rx\<rparr>))))"

text \<open>\<^verbatim>\<open>Client::send\<close>: the header is patched and the written bytes go to the socket of the client.\<close>

definition send :: "addr \<Rightarrow> packet_ptr \<Rightarrow> world \<Rightarrow> fault + world" where
  "send client ptr w =
     rbind (the_ptr ptr) (\<lambda>i.
       let p = w_packets w ! i
       in case peek 0 p :: packet_error + uint16 of
            Inl x \<Rightarrow> Inl (PacketFault x)
          | Inr opcode \<Rightarrow>
              (case sendBuffer p of
                 Inl x \<Rightarrow> Inl (PacketFault x)
               | Inr (p, bytes) \<Rightarrow> Inr (w\<lparr>w_packets := (w_packets w)[i := p], w_sent := w_sent w @ [(client, bytes)]\<rparr>)))"

section \<open>Rules\<close>

named_theorems world_simps "access to objects of the world"

lemma cell_at_set_cell [world_simps]:
  "cell_at b (set_cell a c w) = (if a = b then Inr c else cell_at b w)"
  by (simp add: cell_at_def set_cell_def)

lemma cell_at_eq_Inr [world_simps]: "cell_at a w = Inr c \<longleftrightarrow> w_cells w a = Some c"
  by (auto simp: cell_at_def split: option.splits)

lemma entity_at_eq_Inr [world_simps]: "entity_at e w = Inr x \<longleftrightarrow> w_entities w e = Some x"
  by (auto simp: entity_at_def split: option.splits)

lemma set_cell_sel [simp]:
  "w_cells (set_cell a c w) = (w_cells w)(a := Some c)" "w_next (set_cell a c w) = w_next w"
  "w_index (set_cell a c w) = w_index w" "w_ops (set_cell a c w) = w_ops w"
  "w_cluster (set_cell a c w) = w_cluster w" "w_entities (set_cell a c w) = w_entities w"
  "w_packets (set_cell a c w) = w_packets w" "w_sent (set_cell a c w) = w_sent w" "w_rx (set_cell a c w) = w_rx w"
  by (simp_all add: set_cell_def)

lemma set_entity_sel [simp]:
  "w_entities (set_entity e x w) = (w_entities w)(e := Some x)" "w_next (set_entity e x w) = w_next w"
  "w_index (set_entity e x w) = w_index w" "w_ops (set_entity e x w) = w_ops w"
  "w_cluster (set_entity e x w) = w_cluster w" "w_cells (set_entity e x w) = w_cells w"
  "w_packets (set_entity e x w) = w_packets w" "w_sent (set_entity e x w) = w_sent w" "w_rx (set_entity e x w) = w_rx w"
  by (simp_all add: set_entity_def)

lemma on_cluster_sel [simp]:
  "w_entities (on_cluster f w) = w_entities w" "w_next (on_cluster f w) = w_next w"
  "w_index (on_cluster f w) = w_index w" "w_ops (on_cluster f w) = w_ops w"
  "w_cluster (on_cluster f w) = f (w_cluster w)" "w_cells (on_cluster f w) = w_cells w"
  "w_packets (on_cluster f w) = w_packets w" "w_sent (on_cluster f w) = w_sent w" "w_rx (on_cluster f w) = w_rx w"
  by (simp_all add: on_cluster_def)

lemma on_cell_eq_Inr [world_simps]:
  "on_cell a f w = Inr w' \<longleftrightarrow> (\<exists>c. w_cells w a = Some c \<and> w' = set_cell a (f c) w)"
  by (auto simp: on_cell_def rbind_eq_Inr cell_at_eq_Inr)

lemma on_entity_eq_Inr [world_simps]:
  "on_entity a f w = Inr w' \<longleftrightarrow> (\<exists>c. w_entities w a = Some c \<and> w' = set_entity a (f c) w)"
  by (auto simp: on_entity_def rbind_eq_Inr entity_at_eq_Inr)

lemma the_ptr_eq_Inr [world_simps]: "the_ptr p = Inr a \<longleftrightarrow> p = Some a"
  by (auto simp: the_ptr_def split: option.splits)

lemma the_ptr_Some [simp]: "the_ptr (Some a) = Inr a"
  by (simp add: the_ptr_def)

lemma cell_at_Some [simp]: "w_cells w a = Some c \<Longrightarrow> cell_at a w = Inr c"
  by (simp add: cell_at_def)

lemma entity_at_Some [simp]: "w_entities w a = Some c \<Longrightarrow> entity_at a w = Inr c"
  by (simp add: entity_at_def)

lemma on_cell_Some [simp]: "w_cells w a = Some c \<Longrightarrow> on_cell a f w = Inr (set_cell a (f c) w)"
  by (simp add: on_cell_def)

lemma on_entity_Some [simp]: "w_entities w a = Some c \<Longrightarrow> on_entity a f w = Inr (set_entity a (f c) w)"
  by (simp add: on_entity_def)

end
