(* ===== verification/Cell.thy ===== *)
theory Cell
  imports World
begin

text \<open>
  Cells (\<^verbatim>\<open>src/map/cell.cpp\<close>): the entities of a cell, its two broadcast queues of which one is
  written while the other is delivered, the spawn and despawn requests, and the quadtree for
  collisions. The update of an entity is virtual, so \<open>Cell_update\<close> takes it as an argument
  \<open>upd\<close>.
\<close>

section \<open>Definitions\<close>

definition Cell_new :: "env \<Rightarrow> offset \<Rightarrow> cell" where
  "Cell_new ev off =
     \<lparr>cl_offset = off, cl_tree = RadialQuadTree (center off) (fadd cellSize_x 10), cl_entities = [],
      cl_clientsCount = ev_junk_count ev, cl_queue1 = [], cl_queue2 = [], cl_first = True,
      cl_requests = [], cl_isRegistered = False, cl_isOnCooldown = False, cl_remaining = 0\<rparr>"

text \<open>\<^verbatim>\<open>emplace\<close> leaves an existing entry alone; the clients are counted in any case.\<close>

definition addEntity :: "addr \<Rightarrow> addr \<Rightarrow> world \<Rightarrow> fault + world" where
  "addEntity a e w =
     rbind (entity_at e w) (\<lambda>x. on_cell a (\<lambda>c.
       let c = (if en_id x \<in> fst ` set (cl_entities c) then c
                else c\<lparr>cl_entities := cl_entities c @ [(en_id x, e)]\<rparr>)
       in if en_client x \<noteq> None then c\<lparr>cl_clientsCount := cl_clientsCount c + 1\<rparr> else c) w)"

definition removeEntity :: "addr \<Rightarrow> addr \<Rightarrow> world \<Rightarrow> fault + world" where
  "removeEntity a e w =
     rbind (entity_at e w) (\<lambda>x. on_cell a (\<lambda>c.
       let c = c\<lparr>cl_entities := filter (\<lambda>p. fst p \<noteq> en_id x) (cl_entities c)\<rparr>
       in if en_client x \<noteq> None then c\<lparr>cl_clientsCount := cl_clientsCount c - 1\<rparr> else c) w)"

text \<open>\<^verbatim>\<open>assert(who->client())\<close> is compiled out without assertions.\<close>

definition Cell_request :: "env \<Rightarrow> addr \<Rightarrow> addr \<Rightarrow> request_type \<Rightarrow> world \<Rightarrow> fault + world" where
  "Cell_request ev a who type w =
     rbind (entity_at who w) (\<lambda>x.
       if ev_debug ev \<and> en_client x = None then Inl AssertFailed
       else on_cell a (\<lambda>c. c\<lparr>cl_requests := cl_requests c @ [\<lparr>rq_who = who, rq_type = type\<rparr>]\<rparr>) w)"

definition push_broadcast :: "packet_ptr \<Rightarrow> cell \<Rightarrow> cell" where
  "push_broadcast p c =
     (if 0 < cl_clientsCount c
      then (if cl_first c then c\<lparr>cl_queue1 := cl_queue1 c @ [p]\<rparr> else c\<lparr>cl_queue2 := cl_queue2 c @ [p]\<rparr>)
      else c)"

definition Cell_broadcast :: "addr \<Rightarrow> packet_ptr \<Rightarrow> world \<Rightarrow> fault + world" where
  "Cell_broadcast a p w = on_cell a (push_broadcast p) w"

definition clearQueues :: "cell \<Rightarrow> cell" where
  "clearQueues c =
     (if cl_first c then c\<lparr>cl_queue2 := [], cl_requests := []\<rparr> else c\<lparr>cl_queue1 := [], cl_requests := []\<rparr>)"

definition Cell_cleanup :: "addr \<Rightarrow> world \<Rightarrow> fault + world" where
  "Cell_cleanup a w =
     on_cell a (\<lambda>c. let c = clearQueues c
       in c\<lparr>cl_tree := (cl_tree c)\<lparr>rq_tree := clear (rq_tree (cl_tree c))\<rparr>\<rparr>) w"

text \<open>One request served with one entity: its spawn or despawn packet goes to who asked.\<close>

definition serve :: "env \<Rightarrow> addr \<Rightarrow> request \<Rightarrow> world \<Rightarrow> fault + world" where
  "serve ev e rq w =
     (if rq_who rq = e then Inr w
      else rbind (new_packet ev (case rq_type rq of SPAWN \<Rightarrow> ev_spawn ev e | DESPAWN \<Rightarrow> ev_despawn ev e) w)
             (\<lambda>(p, w). rbind (entity_at (rq_who rq) w) (\<lambda>x. rbind (the_ptr (en_client x)) (\<lambda>client. send client p w))))"

definition processRequests :: "env \<Rightarrow> addr \<Rightarrow> addr \<Rightarrow> world \<Rightarrow> fault + world" where
  "processRequests ev a e w = rbind (cell_at a w) (\<lambda>c. rfold (serve ev e) (cl_requests c) w)"

text \<open>
  \<^verbatim>\<open>boundingBox()->asRect()\<close> of an entity. \<^verbatim>\<open>normals()\<close> caches what it computes; the value is the
  same before and after (\<open>rect_asRect_cached\<close>), so the tree only reads it.
\<close>

definition entity_rect :: "world \<Rightarrow> addr \<Rightarrow> vec4 option" where
  "entity_rect w e =
     (case w_entities w e of
        None \<Rightarrow> None
      | Some x \<Rightarrow> (case en_box x of
                     None \<Rightarrow> None
                   | Some b \<Rightarrow> map_option fst (asRect (mm_position (en_motion x)) b)))"

definition tree_insert :: "addr \<Rightarrow> addr \<Rightarrow> world \<Rightarrow> fault + world" where
  "tree_insert a e w =
     rbind (cell_at a w) (\<lambda>c.
       case qt_insert (entity_rect w) e (rq_tree (cl_tree c)) of
         Inl x \<Rightarrow> Inl (TreeFault x)
       | Inr t \<Rightarrow> Inr (set_cell a (c\<lparr>cl_tree := (cl_tree c)\<lparr>rq_tree := t\<rparr>\<rparr>) w))"

text \<open>\<^verbatim>\<open>Map::getSiblings\<close>: null where there is no cell.\<close>

definition getSiblings :: "addr \<Rightarrow> world \<Rightarrow> fault + addr option list" where
  "getSiblings a w = rbind (cell_at a w) (\<lambda>c. Inr (map (\<lambda>p. get w (off_q p) (off_r p)) (sibling_offsets (cl_offset c))))"

definition insert_sibling :: "addr \<Rightarrow> addr option \<Rightarrow> world \<Rightarrow> fault + world" where
  "insert_sibling e s w =
     (case s of
        None \<Rightarrow> Inr w
      | Some a \<Rightarrow>
          rbind (cell_at a w) (\<lambda>c. rbind (entity_at e w) (\<lambda>x.
            if contains (position2D (mm_position (en_motion x))) (cl_tree c) then tree_insert a e w else Inr w)))"

definition update_entity :: "env \<Rightarrow> (addr \<Rightarrow> world \<Rightarrow> fault + world) \<Rightarrow> addr \<Rightarrow> packet_ptr list \<Rightarrow> addr \<Rightarrow> world \<Rightarrow> fault + world" where
  "update_entity ev upd a currentQueue e w =
     rbind (entity_at e w) (\<lambda>x.
     rbind (upd e w) (\<lambda>w.
     rbind (case en_client x of None \<Rightarrow> Inr w | Some client \<Rightarrow> rfold (send client) currentQueue w) (\<lambda>w.
     rbind (processRequests ev a e w) (\<lambda>w.
     rbind (tree_insert a e w) (\<lambda>w.
     rbind (getSiblings a w) (\<lambda>sibs. rfold (insert_sibling e) sibs w))))))"

text \<open>The beginning of \<^verbatim>\<open>Cell::update\<close>: broadcasts go to the other queue from now on.\<close>

definition flip :: "cell \<Rightarrow> cell" where
  "flip c = c\<lparr>cl_first := \<not> cl_first c\<rparr>"

definition Cell_update :: "env \<Rightarrow> (addr \<Rightarrow> world \<Rightarrow> fault + world) \<Rightarrow> addr \<Rightarrow> world \<Rightarrow> fault + world" where
  "Cell_update ev upd a w =
     rbind (cell_at a w) (\<lambda>c.
       let currentQueue = (if cl_first c then cl_queue1 c else cl_queue2 c)
       in rfold (\<lambda>p. update_entity ev upd a currentQueue (snd p)) (cl_entities c)
            (set_cell a (flip c) w))"

text \<open>
  The collision pass: candidates from the tree, and the test of each pair, whose result the
  source leaves unused. The boxes keep what \<^verbatim>\<open>normals()\<close> cached.
\<close>

definition test_pair :: "env \<Rightarrow> addr \<Rightarrow> addr \<Rightarrow> world \<Rightarrow> fault + world" where
  "test_pair ev e1 e2 w =
     (if e1 = e2 then Inr w
      else rbind (entity_at e1 w) (\<lambda>x1. rbind (entity_at e2 w) (\<lambda>x2.
        case (en_box x1, en_box x2) of
          (Some b1, Some b2) \<Rightarrow>
            (case collides (ev_glm ev) (mm_position (en_motion x1), b1) (mm_position (en_motion x2), b2) of
               None \<Rightarrow> Inl NullDereference
             | Some (_, b1, b2) \<Rightarrow> Inr (set_entity e2 (x2\<lparr>en_box := Some b2\<rparr>) (set_entity e1 (x1\<lparr>en_box := Some b1\<rparr>) w)))
        | _ \<Rightarrow> Inl (if ev_debug ev then AssertFailed else NullDereference))))"

definition physics_entity :: "env \<Rightarrow> addr \<Rightarrow> addr \<Rightarrow> world \<Rightarrow> fault + world" where
  "physics_entity ev a e w =
     rbind (cell_at a w) (\<lambda>c. rbind (entity_at e w) (\<lambda>x.
       case en_box x of
         None \<Rightarrow> Inl (if ev_debug ev then AssertFailed else NullDereference)
       | Some b \<Rightarrow>
           (case asRect (mm_position (en_motion x)) b of
              None \<Rightarrow> Inl NullDereference
            | Some (rect, b) \<Rightarrow>
                rfold (test_pair ev e) (retrieve rect (rq_tree (cl_tree c)) [])
                  (set_entity e (x\<lparr>en_box := Some b\<rparr>) w))))"

definition Cell_physics :: "env \<Rightarrow> addr \<Rightarrow> world \<Rightarrow> fault + world" where
  "Cell_physics ev a w =
     rbind (cell_at a w) (\<lambda>c. rfold (\<lambda>p. physics_entity ev a (snd p)) (cl_entities c) w)"

end
