(* ===== verification/Cluster.thy ===== *)
theory Cluster
  imports Cell "HOL-Library.AList"
begin

text \<open>
  The cluster (\<^verbatim>\<open>src/map/map-cluster/cluster.cpp\<close>): which cells are updated in the next round,
  grouped into the connected components that are updated in parallel, and the cells that are
  stalled because nothing keeps them. Components are processed one after the other here.
\<close>

section \<open>Definitions\<close>

definition Cluster_new :: "uint16 \<Rightarrow> uint16 \<Rightarrow> cluster" where
  "Cluster_new junk1 junk2 =
     \<lparr>cu_ops = \<lparr>cap = Some 4096, items = []\<rparr>, cu_nv = 0, cu_edges = [], cu_current = [], cu_old = [],
      cu_stall = [], cu_numStall = junk1, cu_numStallCandidates = junk2, cu_cellsByCluster = (\<lambda>_. []),
      cu_vertices = [], cu_keepers = [], cu_num_components = 0\<rparr>"

text \<open>\<^verbatim>\<open>_stallCells.erase(std::find(...))\<close>: erasing the end iterator is undefined.\<close>

definition erase_stall :: "addr \<Rightarrow> world \<Rightarrow> fault + world" where
  "erase_stall a w =
     (if a \<in> set (cu_stall (w_cluster w))
      then Inr (on_cluster (\<lambda>cu. cu\<lparr>cu_stall := uset_erase a (cu_stall cu)\<rparr>) w)
      else Inl EraseEnd)"

definition add_vertex :: "addr \<Rightarrow> cluster \<Rightarrow> cluster" where
  "add_vertex a cu =
     cu\<lparr>cu_vertices := AList.update a (cu_nv cu) (cu_vertices cu), cu_nv := cu_nv cu + 1\<rparr>"

definition touch :: "env \<Rightarrow> bool \<Rightarrow> addr \<Rightarrow> world \<Rightarrow> fault + (bool \<times> world)" where
  "touch ev isStall a w =
     rbind (cell_at a w) (\<lambda>c.
       if ev_debug ev \<and> \<not> isStall \<and> cl_isOnCooldown c then Inl AssertFailed
       else let result = \<not> cl_isOnCooldown c;
                w = (if result
                     then on_cluster (\<lambda>cu. case uset_insert a (cu_current cu) of
                            (cur, new) \<Rightarrow> if new then add_vertex a (cu\<lparr>cu_current := cur\<rparr>) else cu) w
                     else w)
            in if \<not> isStall \<and> (cl_isRegistered c \<or> cl_isOnCooldown c)
               then rbind (erase_stall a (set_cell a (c\<lparr>cl_isRegistered := False, cl_isOnCooldown := False\<rparr>) w))
                      (\<lambda>w. Inr (result, w))
               else Inr (result, w))"

text \<open>\<^verbatim>\<open>_vertices[cell]\<close> adds a vertex number zero for a cell that has none.\<close>

definition vertex_of :: "addr \<Rightarrow> cluster \<Rightarrow> nat \<times> cluster" where
  "vertex_of a cu =
     (case map_of (cu_vertices cu) a of
        Some v \<Rightarrow> (v, cu)
      | None \<Rightarrow> (0, cu\<lparr>cu_vertices := AList.update a 0 (cu_vertices cu)\<rparr>))"

definition connect :: "env \<Rightarrow> addr \<Rightarrow> addr \<Rightarrow> world \<Rightarrow> fault + world" where
  "connect ev a b w =
     (let cu = w_cluster w
      in if ev_debug ev \<and> (map_of (cu_vertices cu) a = None \<or> map_of (cu_vertices cu) b = None)
         then Inl AssertFailed
         else let (va, cu) = vertex_of a cu; (vb, cu) = vertex_of b cu
              in Inr (w\<lparr>w_cluster := cu\<lparr>cu_edges := cu_edges cu @ [(va, vb)]\<rparr>\<rparr>))"

definition touch_neighbour :: "env \<Rightarrow> bool \<Rightarrow> addr \<Rightarrow> addr option \<Rightarrow> world \<Rightarrow> fault + world" where
  "touch_neighbour ev isStall a nn w =
     (case nn of
        None \<Rightarrow> Inr w
      | Some b \<Rightarrow>
          if b = a then Inr w
          else rbind (touch ev isStall b w) (\<lambda>(touched, w). if touched then connect ev a b w else Inr w))"

definition touchWithNeighbours :: "env \<Rightarrow> bool \<Rightarrow> addr option \<Rightarrow> world \<Rightarrow> fault + (bool \<times> world)" where
  "touchWithNeighbours ev isStall ptr w =
     rbind (the_ptr ptr) (\<lambda>a.
     rbind (touch ev isStall a w) (\<lambda>(firstInserted, w).
       if \<not> firstInserted \<and> isStall then Inr (False, w)
       else rbind (cell_at a w) (\<lambda>c.
              rbind (rfold (touch_neighbour ev isStall a) (inRadius (get w) (cl_offset c) 1) w)
                (\<lambda>w. Inr (True, w)))))"

definition onCellCreated :: "env \<Rightarrow> addr \<Rightarrow> world \<Rightarrow> fault + world" where
  "onCellCreated ev a w = rbind (touchWithNeighbours ev False (Some a) w) (\<lambda>(_, w). Inr w)"

text \<open>The queue has a capacity of 4096; what it refuses is lost.\<close>

definition push_cluster_op :: "cluster_operation \<Rightarrow> world \<Rightarrow> world" where
  "push_cluster_op op w = on_cluster (\<lambda>cu. cu\<lparr>cu_ops := fst (bq_push op (cu_ops cu))\<rparr>) w"

definition Cluster_add :: "addr \<Rightarrow> world \<Rightarrow> fault + world" where
  "Cluster_add e w = rbind (entity_at e w) (\<lambda>x. if en_isUpdater x then Inr (push_cluster_op (KEEP e) w) else Inr w)"

definition Cluster_remove :: "addr \<Rightarrow> world \<Rightarrow> fault + world" where
  "Cluster_remove e w = rbind (entity_at e w) (\<lambda>x. if en_isUpdater x then Inr (push_cluster_op (UNKEEP e) w) else Inr w)"

definition checkStall :: "addr option \<Rightarrow> addr \<Rightarrow> world \<Rightarrow> fault + world" where
  "checkStall from to w =
     (case from of
        None \<Rightarrow> Inr w
      | Some f \<Rightarrow>
          rbind (cell_at to w) (\<lambda>ct.
            if \<not> cl_isRegistered ct \<or> cl_isOnCooldown ct then Inr w
            else rbind (cell_at f w) (\<lambda>cf.
                   if \<not> cl_isRegistered cf \<and> \<not> cl_isOnCooldown cf
                   then erase_stall to (set_cell to (ct\<lparr>cl_isRegistered := False, cl_isOnCooldown := False\<rparr>) w)
                   else Inr w)))"

definition push_op :: "map_operation \<Rightarrow> world \<Rightarrow> world" where
  "push_op op w = w\<lparr>w_ops := fst (bq_push op (w_ops w))\<rparr>"

definition destroyCell :: "addr \<Rightarrow> world \<Rightarrow> fault + world" where
  "destroyCell a w =
     rbind (cell_at a w) (\<lambda>c. Inr (push_op \<lparr>mo_type = DESTROY, mo_offset = cl_offset c, mo_entity = None, mo_param = Some a\<rparr> w))"

text \<open>
  The loop of \<^verbatim>\<open>processStallCells\<close> over the cells that were stalled when it began; its state is
  \<open>addCount\<close> and the world.
\<close>

definition process_stall :: "env \<Rightarrow> addr \<Rightarrow> uint16 \<times> world \<Rightarrow> fault + (uint16 \<times> world)" where
  "process_stall ev a st =
     (case st of (addCount, w) \<Rightarrow>
        rbind (cell_at a w) (\<lambda>c.
          if \<not> cl_isOnCooldown c
          then rbind (touchWithNeighbours ev True (Some a) w)
                 (\<lambda>(added, w). Inr (if added then addCount + 1 else addCount, w))
          else rbind (destroyCell a w) (\<lambda>w.
                 Inr (addCount, on_cluster (\<lambda>cu. cu\<lparr>cu_stall := uset_erase a (cu_stall cu)\<rparr>) w))))"

definition processStallCells :: "env \<Rightarrow> world \<Rightarrow> fault + (uint16 \<times> world)" where
  "processStallCells ev w =
     rfold (process_stall ev) (cu_stall (w_cluster w))
       (0, on_cluster (\<lambda>cu. cu\<lparr>cu_numStallCandidates := of_nat (length (cu_stall cu))\<rparr>) w)"

definition cluster_op :: "cluster_operation \<Rightarrow> world \<Rightarrow> fault + world" where
  "cluster_op op w =
     (case op of
        KEEP e \<Rightarrow> Inr (on_cluster (\<lambda>cu. cu\<lparr>cu_keepers := cu_keepers cu @ [e]\<rparr>) w)
      | UNKEEP e \<Rightarrow>
          if e \<in> set (cu_keepers (w_cluster w))
          then Inr (on_cluster (\<lambda>cu. cu\<lparr>cu_keepers := remove1 e (cu_keepers cu)\<rparr>) w)
          else Inl EraseEnd)"

definition keep_cells :: "env \<Rightarrow> addr \<Rightarrow> world \<Rightarrow> fault + world" where
  "keep_cells ev e w =
     rbind (entity_at e w) (\<lambda>x. rbind (touchWithNeighbours ev False (en_cell x) w) (\<lambda>(_, w). Inr w))"

definition STALL_TIME :: uint64 where "STALL_TIME = 120000"

definition stall_candidate :: "addr \<Rightarrow> world \<Rightarrow> fault + world" where
  "stall_candidate a w =
     (if a \<in> set (cu_current (w_cluster w)) then Inr w
      else case uset_insert a (cu_stall (w_cluster w)) of
             (st, new) \<Rightarrow>
               let w = on_cluster (\<lambda>cu. cu\<lparr>cu_stall := st\<rparr>) w
               in if new
                  then on_cell a (\<lambda>c. c\<lparr>cl_isRegistered := True, cl_isOnCooldown := False, cl_remaining := STALL_TIME\<rparr>) w
                  else Inr w)"

definition Cluster_runScheduledOperations :: "env \<Rightarrow> world \<Rightarrow> fault + world" where
  "Cluster_runScheduledOperations ev w =
     rbind (rfold cluster_op (items (cu_ops (w_cluster w)))
              (on_cluster (\<lambda>cu. cu\<lparr>cu_ops := (cu_ops cu)\<lparr>items := []\<rparr>\<rparr>) w)) (\<lambda>w.
     rbind (rfold (keep_cells ev) (cu_keepers (w_cluster w)) w) (\<lambda>w.
     rbind (rfold stall_candidate (cu_old (w_cluster w)) w) (\<lambda>w.
     rbind (processStallCells ev w) (\<lambda>(n, w).
       Inr (on_cluster (\<lambda>cu. cu\<lparr>cu_numStall := n\<rparr>) w)))))"

text \<open>The stall clock of one cell, and the cleanup of a cell of the cluster.\<close>

definition stall_tick :: "uint64 \<Rightarrow> cell \<Rightarrow> cell" where
  "stall_tick elapsed c =
     (if cl_isRegistered c
      then if elapsed < cl_remaining c then c\<lparr>cl_remaining := cl_remaining c - elapsed\<rparr>
           else c\<lparr>cl_isOnCooldown := True, cl_isRegistered := False\<rparr>
      else c)"

definition cleanup_cell :: "uint64 \<Rightarrow> addr \<Rightarrow> world \<Rightarrow> fault + world" where
  "cleanup_cell elapsed a w = rbind (Cell_cleanup a w) (on_cell a (stall_tick elapsed))"

text \<open>The cells of the components in their order, as the work posted to the pool visits them.\<close>

definition cluster_cells :: "cluster \<Rightarrow> addr list" where
  "cluster_cells cu = concat (map (cu_cellsByCluster cu) [0..<unat (cu_num_components cu)])"

definition Cluster_cleanup :: "uint64 \<Rightarrow> world \<Rightarrow> fault + world" where
  "Cluster_cleanup elapsed w =
     rbind (if cu_vertices (w_cluster w) \<noteq> []
            then rbind (rfold (cleanup_cell elapsed) (cluster_cells (w_cluster w)) w) (\<lambda>w.
                   Inr (on_cluster (\<lambda>cu. cu\<lparr>cu_nv := 0, cu_edges := [], cu_vertices := [],
                     cu_cellsByCluster := (\<lambda>cid. if cid < unat (cu_num_components cu) then [] else cu_cellsByCluster cu cid),
                     cu_num_components := 0\<rparr>) w))
            else Inr w)
       (\<lambda>w. Inr (on_cluster (\<lambda>cu. cu\<lparr>cu_old := cu_current cu, cu_current := []\<rparr>) w))"

definition group_cells :: "nat list \<Rightarrow> (addr \<times> nat) list \<Rightarrow> (nat \<Rightarrow> addr list) \<Rightarrow> nat \<Rightarrow> addr list" where
  "group_cells comps vs by = fold (\<lambda>(a, v) by. by(comps ! v := by (comps ! v) @ [a])) vs by"

text \<open>The groups after the components were computed.\<close>

definition grouped :: "(nat \<Rightarrow> (nat \<times> nat) list \<Rightarrow> nat list \<times> nat) \<Rightarrow> cluster \<Rightarrow> cluster" where
  "grouped components cu =
     (let (comps, n) = components (cu_nv cu) (cu_edges cu)
      in cu\<lparr>cu_num_components := of_nat n,
            cu_cellsByCluster := group_cells comps (cu_vertices cu) (cu_cellsByCluster cu)\<rparr>)"

definition Cluster_update :: "env \<Rightarrow> (addr \<Rightarrow> world \<Rightarrow> fault + world) \<Rightarrow> world \<Rightarrow> fault + world" where
  "Cluster_update ev upd w =
     rbind (if cu_vertices (w_cluster w) \<noteq> []
            then let cu = grouped (ev_components ev) (w_cluster w)
                 in rbind (rfold (Cell_update ev upd) (cluster_cells cu) (w\<lparr>w_cluster := cu\<rparr>))
                      (rfold (Cell_physics ev) (cluster_cells cu))
            else Inr w)
       (\<lambda>w. let cu = w_cluster w
             in Inr (w\<lparr>w_rx := onClusterUpdate (cu_num_components cu)
                  (of_nat (length (cu_vertices cu)) - cu_numStall cu) (cu_numStall cu) (cu_numStallCandidates cu) (w_rx w)\<rparr>))"

end
