(* ===== verification/Game_Map.thy ===== *)
theory Game_Map
  imports Cluster
begin

text \<open>
  The map (\<^verbatim>\<open>src/map/map.cpp\<close>, \<^verbatim>\<open>map.hpp\<close>) and its entities (\<^verbatim>\<open>map_aware_entity.cpp\<close>): lookup and
  creation of cells, broadcasts, the operations that add, remove and destroy, which are queued
  and run at the beginning of the next update, and the update and cleanup of the whole map.
\<close>

section \<open>Definitions\<close>

definition World_new :: "uint16 \<Rightarrow> uint16 \<Rightarrow> reactive \<Rightarrow> world" where
  "World_new junk1 junk2 rx =
     \<lparr>w_cells = (\<lambda>_. None), w_next = 0, w_index = [], w_ops = \<lparr>cap = None, items = []\<rparr>,
      w_cluster = Cluster_new junk1 junk2, w_entities = (\<lambda>_. None), w_packets = [], w_sent = [], w_rx = rx\<rparr>"

definition MapAwareEntity_new :: "uint64 \<Rightarrow> addr option \<Rightarrow> rat \<Rightarrow> entity" where
  "MapAwareEntity_new ident client junk =
     \<lparr>en_id = ident, en_client = client, en_cell = None, en_box = None, en_motion = MotionMaster_new junk,
      en_isUpdater = (client \<noteq> None), en_exec = Executor_new 16\<rparr>"

definition setupBoundingBox :: "env \<Rightarrow> vec2 \<Rightarrow> vec2 \<Rightarrow> vec2 list \<Rightarrow> entity \<Rightarrow> fault + entity" where
  "setupBoundingBox ev junk_min junk_max vertices x =
     (if ev_debug ev \<and> en_box x \<noteq> None then Inl AssertFailed
      else Inr (x\<lparr>en_box := Some (RECT (RectBoundingBox junk_min junk_max vertices))\<rparr>))"

definition triggerUpdater :: "entity \<Rightarrow> entity" where
  "triggerUpdater x = x\<lparr>en_isUpdater := True\<rparr>"

definition Map_size :: "world \<Rightarrow> nat" where
  "Map_size w = length (w_index w)"

text \<open>\<^verbatim>\<open>getOrCreate\<close> returns the address of the cell.\<close>

definition getOrCreate :: "env \<Rightarrow> offset \<Rightarrow> world \<Rightarrow> fault + (addr \<times> world)" where
  "getOrCreate ev off w =
     (case get w (off_q off) (off_r off) of
        Some a \<Rightarrow> Inr (a, w)
      | None \<Rightarrow>
          let a = w_next w;
              w = (set_cell a (Cell_new ev off) w)\<lparr>w_next := a + 1, w_index := w_index w @ [(off, a)]\<rparr>
          in rbind (onCellCreated ev a w) (\<lambda>w. Inr (a, w)))"

fun getOrCreate_all :: "env \<Rightarrow> offset list \<Rightarrow> world \<Rightarrow> fault + (addr list \<times> world)" where
  "getOrCreate_all ev [] w = Inr ([], w)"
| "getOrCreate_all ev (p # ps) w =
     rbind (getOrCreate ev p w) (\<lambda>(a, w). rbind (getOrCreate_all ev ps w) (\<lambda>(as, w). Inr (a # as, w)))"

definition createSiblings :: "env \<Rightarrow> addr \<Rightarrow> world \<Rightarrow> fault + (addr list \<times> world)" where
  "createSiblings ev a w =
     rbind (cell_at a w) (\<lambda>c. getOrCreate_all ev (sibling_offsets (cl_offset c)) w)"

definition getCellsExcluding :: "env \<Rightarrow> addr option \<Rightarrow> addr option \<Rightarrow> world \<Rightarrow> fault + (addr list \<times> world)" where
  "getCellsExcluding ev cell exclude w =
     (case (cell, exclude) of
        (Some a, Some x) \<Rightarrow>
          rbind (cell_at a w) (\<lambda>ca. rbind (cell_at x w) (\<lambda>cx.
            case excluding_offsets (cl_offset ca) (cl_offset cx) of
              None \<Rightarrow> Inl OutsideTable
            | Some ps \<Rightarrow> getOrCreate_all ev ps w))
      | (Some a, None) \<Rightarrow> rbind (createSiblings ev a w) (\<lambda>(as, w). Inr (as @ [a], w))
      | (None, Some x) \<Rightarrow> rbind (createSiblings ev x w) (\<lambda>(as, w). Inr (as @ [x], w))
      | (None, None) \<Rightarrow> Inl NullDereference)"

definition Map_broadcast :: "addr list \<Rightarrow> packet_ptr \<Rightarrow> (addr \<Rightarrow> world \<Rightarrow> fault + world) \<Rightarrow> world \<Rightarrow> fault + world" where
  "Map_broadcast cells p callback w =
     rfold (\<lambda>a w. rbind (Cell_broadcast a p w) (callback a)) cells w"

text \<open>The siblings may be null, and a null cell is dereferenced.\<close>

definition broadcastToSiblings :: "addr option \<Rightarrow> packet_ptr \<Rightarrow> world \<Rightarrow> fault + world" where
  "broadcastToSiblings cell p w =
     rbind (the_ptr cell) (\<lambda>a. rbind (Cell_broadcast a p w) (\<lambda>w.
       rbind (getSiblings a w) (\<lambda>sibs.
         rfold (\<lambda>s w. rbind (the_ptr s) (\<lambda>b. Cell_broadcast b p w)) sibs w)))"

definition broadcastExcluding :: "env \<Rightarrow> addr option \<Rightarrow> addr option \<Rightarrow> packet_ptr \<Rightarrow> world \<Rightarrow> fault + world" where
  "broadcastExcluding ev cell exclude p w =
     rbind (getCellsExcluding ev cell exclude w) (\<lambda>(cells, w). Map_broadcast cells p (\<lambda>_. Inr) w)"

section \<open>Entities entering and leaving cells\<close>

definition onAdded :: "env \<Rightarrow> addr \<Rightarrow> addr \<Rightarrow> addr option \<Rightarrow> world \<Rightarrow> fault + (addr list \<times> world)" where
  "onAdded ev e cell old w =
     rbind (on_entity e (\<lambda>x. x\<lparr>en_cell := Some cell\<rparr>) w) (\<lambda>w.
     rbind (new_packet ev (ev_spawn ev e) w) (\<lambda>(p, w).
     rbind (getCellsExcluding ev (Some cell) old w) (\<lambda>(newCells, w).
     rbind (entity_at e w) (\<lambda>x.
     rbind (Map_broadcast newCells p (\<lambda>a w. if en_client x \<noteq> None then Cell_request ev a e SPAWN w else Inr w) w) (\<lambda>w.
       Inr (newCells, w))))))"

definition onRemoved :: "env \<Rightarrow> addr \<Rightarrow> addr \<Rightarrow> addr option \<Rightarrow> world \<Rightarrow> fault + (addr list \<times> world)" where
  "onRemoved ev e cell to w =
     rbind (on_entity e (\<lambda>x. x\<lparr>en_cell := None\<rparr>) w) (\<lambda>w.
     rbind (new_packet ev (ev_despawn ev e) w) (\<lambda>(p, w).
     rbind (getCellsExcluding ev (Some cell) to w) (\<lambda>(oldCells, w).
     rbind (entity_at e w) (\<lambda>x.
     rbind (if to \<noteq> None \<and> en_client x \<noteq> None
            then Map_broadcast oldCells p (\<lambda>a. Cell_request ev a e DESPAWN) w
            else Map_broadcast oldCells p (\<lambda>_. Inr) w) (\<lambda>w.
       Inr (oldCells, w))))))"

section \<open>Scheduled operations\<close>

definition addTo :: "offset \<Rightarrow> addr \<Rightarrow> addr option \<Rightarrow> world \<Rightarrow> world" where
  "addTo off e old w = push_op \<lparr>mo_type = ADD_ENTITY, mo_offset = off, mo_entity = Some e, mo_param = old\<rparr> w"

definition removeFrom :: "offset \<Rightarrow> addr \<Rightarrow> addr option \<Rightarrow> world \<Rightarrow> world" where
  "removeFrom off e to w = push_op \<lparr>mo_type = REMOVE_ENTITY, mo_offset = off, mo_entity = Some e, mo_param = to\<rparr> w"

definition addTo_cell :: "addr option \<Rightarrow> addr \<Rightarrow> addr option \<Rightarrow> world \<Rightarrow> fault + world" where
  "addTo_cell cell e old w =
     rbind (the_ptr cell) (\<lambda>a. rbind (cell_at a w) (\<lambda>c. Inr (addTo (cl_offset c) e old w)))"

definition removeFrom_cell :: "addr option \<Rightarrow> addr \<Rightarrow> addr option \<Rightarrow> world \<Rightarrow> fault + world" where
  "removeFrom_cell cell e to w =
     rbind (the_ptr cell) (\<lambda>a. rbind (cell_at a w) (\<lambda>c. Inr (removeFrom (cl_offset c) e to w)))"

definition offset_of_pos :: "vec3 \<Rightarrow> fault + offset" where
  "offset_of_pos pos = (case offsetOf (v3x pos) (v3z pos) of None \<Rightarrow> Inl BadOffset | Some p \<Rightarrow> Inr p)"

definition addTo3D :: "vec3 \<Rightarrow> addr \<Rightarrow> addr option \<Rightarrow> world \<Rightarrow> fault + world" where
  "addTo3D pos e old w = rbind (offset_of_pos pos) (\<lambda>p. Inr (addTo p e old w))"

definition removeFrom3D :: "vec3 \<Rightarrow> addr \<Rightarrow> addr option \<Rightarrow> world \<Rightarrow> fault + world" where
  "removeFrom3D pos e to w = rbind (offset_of_pos pos) (\<lambda>p. Inr (removeFrom p e to w))"

definition addTo_entity :: "addr \<Rightarrow> addr option \<Rightarrow> world \<Rightarrow> fault + world" where
  "addTo_entity e old w = rbind (entity_at e w) (\<lambda>x. addTo3D (mm_position (en_motion x)) e old w)"

definition removeFrom_entity :: "addr \<Rightarrow> addr option \<Rightarrow> world \<Rightarrow> fault + world" where
  "removeFrom_entity e to w = rbind (entity_at e w) (\<lambda>x. removeFrom3D (mm_position (en_motion x)) e to w)"

definition onMove :: "env \<Rightarrow> addr \<Rightarrow> world \<Rightarrow> fault + world" where
  "onMove ev e w =
     rbind (entity_at e w) (\<lambda>x.
     rbind (offset_of_pos (mm_position (en_motion x))) (\<lambda>p.
     rbind (getOrCreate ev p w) (\<lambda>(a, w).
       if Some a \<noteq> en_cell x
       then rbind (removeFrom_cell (en_cell x) e (Some a) w) (addTo_cell (Some a) e (en_cell x))
       else Inr w)))"

definition run_add :: "env \<Rightarrow> offset \<Rightarrow> addr \<Rightarrow> addr option \<Rightarrow> world \<Rightarrow> fault + world" where
  "run_add ev off e old w =
     rbind (getOrCreate ev off w) (\<lambda>(a, w).
     rbind (on_entity e (\<lambda>x. x\<lparr>en_cell := Some a\<rparr>) w) (\<lambda>w.
     rbind (addEntity a e w) (\<lambda>w.
     rbind (entity_at e w) (\<lambda>x.
     rbind (if en_isUpdater x then rbind (createSiblings ev a w) (\<lambda>(_, w). Cluster_add e w) else Inr w) (\<lambda>w.
     rbind (onAdded ev e a old w) (\<lambda>(_, w). checkStall old a w))))))"

definition run_remove :: "env \<Rightarrow> offset \<Rightarrow> addr \<Rightarrow> addr option \<Rightarrow> world \<Rightarrow> fault + world" where
  "run_remove ev off e to w =
     (case get w (off_q off) (off_r off) of
        None \<Rightarrow> Inr w
      | Some a \<Rightarrow>
          rbind (removeEntity a e w) (\<lambda>w.
          rbind (entity_at e w) (\<lambda>x.
          rbind (if en_isUpdater x then Cluster_remove e w else Inr w) (\<lambda>w.
          rbind (onRemoved ev e a to w) (\<lambda>(_, w). Inr w)))))"

definition run_destroy :: "offset \<Rightarrow> addr option \<Rightarrow> world \<Rightarrow> fault + world" where
  "run_destroy off param w =
     rbind (the_ptr param) (\<lambda>a. rbind (cell_at a w) (\<lambda>_.
       Inr (w\<lparr>w_index := filter (\<lambda>p. fst p \<noteq> off) (w_index w), w_cells := (w_cells w)(a := None)\<rparr>)))"

definition run_op :: "env \<Rightarrow> map_operation \<Rightarrow> world \<Rightarrow> fault + world" where
  "run_op ev op w =
     (case mo_type op of
        ADD_ENTITY \<Rightarrow> rbind (the_ptr (mo_entity op)) (\<lambda>e. run_add ev (mo_offset op) e (mo_param op) w)
      | REMOVE_ENTITY \<Rightarrow> rbind (the_ptr (mo_entity op)) (\<lambda>e. run_remove ev (mo_offset op) e (mo_param op) w)
      | DESTROY \<Rightarrow> run_destroy (mo_offset op) (mo_param op) w)"

text \<open>No operation pushes another (\<open>run_op_ops\<close> below), so the loop visits what was queued.\<close>

definition Map_runScheduledOperations :: "env \<Rightarrow> world \<Rightarrow> fault + world" where
  "Map_runScheduledOperations ev w =
     rfold (run_op ev) (items (w_ops w)) (w\<lparr>w_ops := (w_ops w)\<lparr>items := []\<rparr>\<rparr>)"

section \<open>Update\<close>

definition run_effect :: "env \<Rightarrow> addr \<Rightarrow> motion_effect \<Rightarrow> world \<Rightarrow> fault + world" where
  "run_effect ev e eff w =
     (case eff of
        Broadcast opcode fs \<Rightarrow>
          rbind (new_packet ev (Some (opcode, fs)) w) (\<lambda>(p, w).
            rbind (entity_at e w) (\<lambda>x. broadcastToSiblings (en_cell x) p w))
      | OnMove \<Rightarrow> onMove ev e w)"

definition MotionMaster_run :: "env \<Rightarrow> uint64 \<Rightarrow> addr \<Rightarrow> world \<Rightarrow> fault + world" where
  "MotionMaster_run ev elapsed e w =
     rbind (entity_at e w) (\<lambda>x.
       case MotionMaster_update (ev_glm ev) (ev_debug ev) (ev_samples ev e) (en_id x) elapsed (en_motion x) (en_box x) of
         Inl f \<Rightarrow> Inl (MotionFault f)
       | Inr (m, bb, effs) \<Rightarrow> rfold (run_effect ev e) effs (set_entity e (x\<lparr>en_motion := m, en_box := bb\<rparr>) w))"

definition MapAwareEntity_update :: "env \<Rightarrow> (nat, nat, world) program \<Rightarrow> uint64 \<Rightarrow> addr \<Rightarrow> world \<Rightarrow> fault + world" where
  "MapAwareEntity_update ev pg elapsed e w =
     rbind (entity_at e w) (\<lambda>x.
       case executeJobs (ev_fuel ev) pg (ev_now ev) (en_exec x, w) of
         Inl f \<Rightarrow> Inl (ExecFault f)
       | Inr (ex, w) \<Rightarrow> rbind (on_entity e (\<lambda>x. x\<lparr>en_exec := ex\<rparr>) w) (MotionMaster_run ev elapsed e))"

definition Map_update :: "env \<Rightarrow> (nat, nat, world) program \<Rightarrow> uint64 \<Rightarrow> world \<Rightarrow> fault + world" where
  "Map_update ev pg elapsed w =
     rbind (Map_runScheduledOperations ev w) (Cluster_update ev (MapAwareEntity_update ev pg elapsed))"

definition Map_cleanup :: "env \<Rightarrow> uint64 \<Rightarrow> world \<Rightarrow> fault + world" where
  "Map_cleanup ev elapsed w =
     rbind (Cluster_cleanup elapsed w) (Cluster_runScheduledOperations ev)"

end
