(* ===== verification/World_Steps.thy ===== *)
theory World_Steps
  imports Game_Map
begin

text \<open>
  The map as a transition system. Whatever an operation of the cells, the cluster or the map
  does to the world is a sequence of a few kinds of primitive steps (\<open>world_step\<close>); for each
  operation a lemma says which kinds it takes, and an invariant is proved once per kind. On
  top of it are the invariant of the index of cells and what the updates of entities may not
  touch.
\<close>

section \<open>The invariant of the cluster\<close>

text \<open>
  The stalled cells and the cells with a vertex are listed once, every current cell has a
  vertex of the graph, different current cells have different vertices, and the edges join
  vertices of the graph.
\<close>

definition cluster_ok :: "cluster \<Rightarrow> bool" where
  "cluster_ok cu \<longleftrightarrow> distinct (cu_stall cu) \<and> distinct (map fst (cu_vertices cu)) \<and> distinct (cu_current cu)
     \<and> (\<forall>a\<in>set (cu_current cu). \<exists>v<cu_nv cu. map_of (cu_vertices cu) a = Some v)
     \<and> inj_on (map_of (cu_vertices cu)) (set (cu_current cu))
     \<and> (\<forall>a v. map_of (cu_vertices cu) a = Some v \<longrightarrow> v < cu_nv cu) \<and> set (cu_edges cu) \<subseteq> {..<cu_nv cu} \<times> {..<cu_nv cu}"

lemma map_of_AList_update: "map_of (AList.update k v xs) = (map_of xs)(k \<mapsto> v)"
  by (rule update_conv')

lemma cluster_ok_insert:
  assumes "cluster_ok cu"
  shows "cluster_ok (case uset_insert a (cu_current cu) of
           (cur, new) \<Rightarrow> if new then add_vertex a (cu\<lparr>cu_current := cur\<rparr>) else cu)"
proof (cases "a \<in> set (cu_current cu)")
  case False
  have v: "\<forall>b\<in>set (cu_current cu). \<exists>v<cu_nv cu. map_of (cu_vertices cu) b = Some v"
    and i: "inj_on (map_of (cu_vertices cu)) (set (cu_current cu))"
    using assms unfolding cluster_ok_def by blast+
  have "inj_on ((map_of (cu_vertices cu))(a \<mapsto> cu_nv cu)) (set (cu_current cu))"
    using i False by (simp add: inj_on_def)
  moreover have "Some (cu_nv cu) \<notin> map_of (cu_vertices cu) ` set (cu_current cu)"
    using v by fastforce
  ultimately have "inj_on ((map_of (cu_vertices cu))(a \<mapsto> cu_nv cu)) (insert a (set (cu_current cu)))"
    using False by (auto simp: inj_on_insert)
  then show ?thesis
    using assms False
    by (auto simp del: map_of_eq_Some_iff simp: uset_insert_def cluster_ok_def add_vertex_def map_of_AList_update distinct_update less_Suc_eq)
qed (use assms in \<open>simp add: uset_insert_def\<close>)

lemma cluster_ok_vertex_of:
  assumes "cluster_ok cu" and "0 < cu_nv cu"
  shows "cluster_ok (snd (vertex_of a cu))" and "fst (vertex_of a cu) < cu_nv cu" and "cu_nv (snd (vertex_of a cu)) = cu_nv cu"
proof -
  show "fst (vertex_of a cu) < cu_nv cu" "cu_nv (snd (vertex_of a cu)) = cu_nv cu"
    using assms by (auto simp del: map_of_eq_Some_iff simp: vertex_of_def cluster_ok_def split: option.splits)
  show "cluster_ok (snd (vertex_of a cu))"
  proof (cases "map_of (cu_vertices cu) a")
    case None
    then have n: "a \<notin> set (cu_current cu)"
      using assms by (auto simp: cluster_ok_def)
    then have "inj_on ((map_of (cu_vertices cu))(a \<mapsto> 0)) (set (cu_current cu))"
      using assms by (auto simp: cluster_ok_def inj_on_def)
    with None assms n show ?thesis
      by (auto simp del: map_of_eq_Some_iff simp: vertex_of_def cluster_ok_def map_of_AList_update distinct_update)
  qed (use assms in \<open>simp add: vertex_of_def\<close>)
qed

lemma cluster_ok_ops [simp]:
  "cluster_ok (cu\<lparr>cu_ops := q\<rparr>) = cluster_ok cu" "cluster_ok (cu\<lparr>cu_old := old\<rparr>) = cluster_ok cu"
  "cluster_ok (cu\<lparr>cu_keepers := ks\<rparr>) = cluster_ok cu" "cluster_ok (cu\<lparr>cu_numStall := n\<rparr>) = cluster_ok cu"
  "cluster_ok (cu\<lparr>cu_numStallCandidates := n\<rparr>) = cluster_ok cu"
  "cluster_ok (cu\<lparr>cu_num_components := m, cu_cellsByCluster := by\<rparr>) = cluster_ok cu"
  by (simp_all add: cluster_ok_def)

lemma cluster_ok_stall:
  "cluster_ok cu \<Longrightarrow> distinct st \<Longrightarrow> cluster_ok (cu\<lparr>cu_stall := st\<rparr>)" "cluster_ok cu \<Longrightarrow> distinct (cu_stall cu)"
  unfolding cluster_ok_def by (simp_all del: map_of_eq_Some_iff)

lemma cluster_ok_current:
  "cluster_ok cu \<Longrightarrow> a \<in> set (cu_current cu) \<Longrightarrow> \<exists>v<cu_nv cu. map_of (cu_vertices cu) a = Some v"
  unfolding cluster_ok_def by blast

lemma cluster_ok_edge:
  assumes "cluster_ok cu" and "u < cu_nv cu" and "v < cu_nv cu"
  shows "cluster_ok (cu\<lparr>cu_edges := cu_edges cu @ [(u, v)]\<rparr>)"
  using assms by (simp add: cluster_ok_def del: map_of_eq_Some_iff)

lemma cluster_ok_grouped [simp]: "cluster_ok (grouped components cu) = cluster_ok cu"
  by (simp add: grouped_def Let_def split_def)

lemma cluster_ok_new: "cluster_ok (Cluster_new j1 j2)"
  by (simp add: cluster_ok_def Cluster_new_def)

section \<open>Primitive steps\<close>

datatype step_kind =
    Stall | Queue | Request | Tree | Member | Graph | Create | Message | Schedule | Doom | Motion | Place | Deliver | Destroy

inductive world_step :: "env \<Rightarrow> step_kind \<Rightarrow> world \<Rightarrow> world \<Rightarrow> bool" for ev where
  stall: "w_cells w a = Some c \<Longrightarrow>
    world_step ev Stall w (set_cell a (c\<lparr>cl_isRegistered := r, cl_isOnCooldown := d, cl_remaining := t\<rparr>) w)"
| queue: "w_cells w a = Some c \<Longrightarrow>
    world_step ev Queue w (set_cell a (c\<lparr>cl_queue1 := q1, cl_queue2 := q2, cl_first := f\<rparr>) w)"
| request: "w_cells w a = Some c \<Longrightarrow> world_step ev Request w (set_cell a (c\<lparr>cl_requests := rs\<rparr>) w)"
| tree: "w_cells w a = Some c \<Longrightarrow> world_step ev Tree w (set_cell a (c\<lparr>cl_tree := t\<rparr>) w)"
| member: "w_cells w a = Some c \<Longrightarrow>
    world_step ev Member w (set_cell a (c\<lparr>cl_entities := es, cl_clientsCount := n\<rparr>) w)"
| graph: "(cluster_ok (w_cluster w) \<Longrightarrow> cluster_ok cu) \<Longrightarrow> world_step ev Graph w (w\<lparr>w_cluster := cu\<rparr>)"
| create: "get w (off_q p) (off_r p) = None \<Longrightarrow>
    world_step ev Create w ((set_cell (w_next w) (Cell_new ev p) w)\<lparr>w_next := w_next w + 1, w_index := w_index w @ [(p, w_next w)]\<rparr>)"
| message: "world_step ev Message w (w\<lparr>w_packets := w_packets w @ ps, w_rx := rx\<rparr>)"
| schedule: "mo_type op \<noteq> DESTROY \<Longrightarrow> world_step ev Schedule w (push_op op w)"
| doom: "w_cells w a = Some c \<Longrightarrow>
    world_step ev Doom w (push_op \<lparr>mo_type = DESTROY, mo_offset = cl_offset c, mo_entity = None, mo_param = Some a\<rparr> w)"
| motion: "w_entities w e = Some x \<Longrightarrow>
    world_step ev Motion w (set_entity e (x\<lparr>en_motion := m, en_box := bb, en_exec := ex\<rparr>) w)"
| place: "w_entities w e = Some x \<Longrightarrow> world_step ev Place w (set_entity e (x\<lparr>en_cell := p\<rparr>) w)"
| deliver: "length pks = length (w_packets w) \<Longrightarrow>
    world_step ev Deliver w (w\<lparr>w_packets := pks, w_sent := w_sent w @ ms\<rparr>)"
| destroy: "w_cells w a = Some c \<Longrightarrow> cl_offset c = p \<Longrightarrow>
    world_step ev Destroy w (w\<lparr>w_index := filter (\<lambda>x. fst x \<noteq> p) (w_index w), w_cells := (w_cells w)(a := None)\<rparr>)"

inductive_cases world_stepE: "world_step ev k w w'"

text \<open>Sequences of steps of the kinds in \<open>K\<close>.\<close>

definition steps :: "env \<Rightarrow> step_kind set \<Rightarrow> world \<Rightarrow> world \<Rightarrow> bool" where
  "steps ev K = (\<lambda>w w'. \<exists>k\<in>K. world_step ev k w w')\<^sup>*\<^sup>*"

named_theorems step_rules "the kinds of steps an operation takes"

lemma steps_refl [simp, intro]: "steps ev K w w"
  by (simp add: steps_def)

lemma steps_step: "world_step ev k w w' \<Longrightarrow> k \<in> K \<Longrightarrow> steps ev K w w'"
  unfolding steps_def by (blast intro: r_into_rtranclp)

lemma steps_trans [trans]: "steps ev K w w' \<Longrightarrow> steps ev K w' w'' \<Longrightarrow> steps ev K w w''"
  unfolding steps_def by simp

lemma steps_mono: "steps ev K w w' \<Longrightarrow> K \<subseteq> L \<Longrightarrow> steps ev L w w'"
  unfolding steps_def by (erule rtranclp_mono [THEN predicate2D, rotated]) blast

lemma steps_invariant:
  assumes "steps ev K w w'" and "P w"
    and "\<And>k w w'. k \<in> K \<Longrightarrow> world_step ev k w w' \<Longrightarrow> P w \<Longrightarrow> P w'"
  shows "P w'"
  using assms(1) unfolding steps_def
  by (induction rule: rtranclp_induct) (use assms in blast)+

lemma rfold_steps:
  assumes "rfold f xs w = Inr w'" and "\<And>x w w'. x \<in> set xs \<Longrightarrow> f x w = Inr w' \<Longrightarrow> steps ev K w w'"
  shows "steps ev K w w'"
  using assms
proof (induction xs arbitrary: w)
  case (Cons x xs)
  then obtain w1 where "f x w = Inr w1" "rfold f xs w1 = Inr w'"
    by (auto simp: rbind_eq_Inr)
  then show ?case
    using Cons.IH [of w1] Cons.prems(2) by (meson list.set_intros steps_trans)
qed auto

lemma rfold_steps_pair:
  assumes "rfold f xs (n, w) = Inr (m, w')"
    and "\<And>x n w m w'. x \<in> set xs \<Longrightarrow> f x (n, w) = Inr (m, w') \<Longrightarrow> steps ev K w w'"
  shows "steps ev K w w'"
  using assms
proof (induction xs arbitrary: n w)
  case (Cons x xs)
  then obtain n1 w1 where "f x (n, w) = Inr (n1, w1)" "rfold f xs (n1, w1) = Inr (m, w')"
    by (auto simp: rbind_eq_Inr)
  then show ?case
    using Cons.IH [of n1 w1] Cons.prems(2) by (meson list.set_intros steps_trans)
qed auto

section \<open>The kinds of steps of each operation\<close>

lemma on_cluster_steps:
  "Graph \<in> K \<Longrightarrow> (cluster_ok (w_cluster w) \<Longrightarrow> cluster_ok (f (w_cluster w))) \<Longrightarrow> steps ev K w (on_cluster f w)"
  unfolding on_cluster_def by (rule steps_step [OF graph])

lemma erase_stall_steps: "erase_stall a w = Inr w' \<Longrightarrow> Graph \<in> K \<Longrightarrow> steps ev K w w'"
  by (auto simp: erase_stall_def intro!: on_cluster_steps cluster_ok_stall(1) distinct_uset_erase
      dest: cluster_ok_stall(2) split: if_splits)

lemma stall_steps:
  "w_cells w a = Some c \<Longrightarrow> Stall \<in> K \<Longrightarrow>
     steps ev K w (set_cell a (c\<lparr>cl_isRegistered := r, cl_isOnCooldown := d\<rparr>) w)"
  using steps_step [OF stall [where t = "cl_remaining c"]] by fastforce

lemma touch_steps:
  assumes "touch ev isStall a w = Inr (b, w')" and "{Stall, Graph} \<subseteq> K"
  shows "steps ev K w w'"
proof -
  obtain c where c: "w_cells w a = Some c"
    using assms(1) by (auto simp: touch_def rbind_eq_Inr world_simps)
  define w1 where "w1 = (if \<not> cl_isOnCooldown c
      then on_cluster (\<lambda>cu. case uset_insert a (cu_current cu) of
                            (cur, new) \<Rightarrow> if new then add_vertex a (cu\<lparr>cu_current := cur\<rparr>) else cu) w else w)"
  have 1: "steps ev K w w1"
    using assms(2) by (auto simp: w1_def intro!: on_cluster_steps cluster_ok_insert)
  have c1: "w_cells w1 a = Some c"
    using c by (simp add: w1_def)
  have "w' = w1 \<or> (\<exists>r d. erase_stall a (set_cell a (c\<lparr>cl_isRegistered := r, cl_isOnCooldown := d\<rparr>) w1) = Inr w')"
    using assms(1) c unfolding w1_def by (auto simp: touch_def Let_def rbind_eq_Inr split: if_splits)
  then show ?thesis
    using 1 stall_steps [OF c1, of K] erase_stall_steps assms(2) by (meson insert_subset steps_trans)
qed

lemma cluster_ok_connect:
  assumes "cluster_ok cu" and "0 < cu_nv cu"
    and "cu1 = snd (vertex_of a cu)" and "cu2 = snd (vertex_of b cu1)"
  shows "cluster_ok (cu2\<lparr>cu_edges := cu_edges cu2 @ [(fst (vertex_of a cu), fst (vertex_of b cu1))]\<rparr>)"
proof -
  have "cluster_ok cu2" "cu_nv cu2 = cu_nv cu" "fst (vertex_of a cu) < cu_nv cu" "fst (vertex_of b cu1) < cu_nv cu"
    using cluster_ok_vertex_of [OF assms(1,2)] cluster_ok_vertex_of [of cu1 b] assms by simp_all
  then show ?thesis by (simp add: cluster_ok_edge)
qed

lemma connect_steps:
  assumes "connect ev a b w = Inr w'" and "b \<in> set (cu_current (w_cluster w))" and "Graph \<in> K"
  shows "steps ev K w w'"
proof -
  let ?cu = "w_cluster w"
  let ?cu1 = "snd (vertex_of a ?cu)"
  let ?cu2 = "snd (vertex_of b ?cu1)"
  have w': "w' = w\<lparr>w_cluster := ?cu2\<lparr>cu_edges := cu_edges ?cu2 @ [(fst (vertex_of a ?cu), fst (vertex_of b ?cu1))]\<rparr>\<rparr>"
    using assms(1) by (auto simp: connect_def Let_def split_def split: if_splits)
  have "0 < cu_nv ?cu" if "cluster_ok ?cu"
    using cluster_ok_current [OF that assms(2)] by auto
  then show ?thesis
    unfolding w' using assms(3) by (intro steps_step [OF graph]) (auto intro: cluster_ok_connect)
qed

lemma touch_current: "touch ev isStall a w = Inr (True, w') \<Longrightarrow> a \<in> set (cu_current (w_cluster w'))"
  by (auto simp: touch_def rbind_eq_Inr Let_def uset_insert_def erase_stall_def add_vertex_def split: if_splits)

lemma touch_neighbour_steps:
  "touch_neighbour ev isStall a nn w = Inr w' \<Longrightarrow> {Stall, Graph} \<subseteq> K \<Longrightarrow> steps ev K w w'"
  by (auto simp: touch_neighbour_def rbind_eq_Inr split: option.splits if_splits)
    (meson insert_subset steps_trans touch_steps connect_steps touch_current empty_subsetI)+

lemma touchWithNeighbours_steps:
  assumes "touchWithNeighbours ev isStall p w = Inr (b, w')" and "{Stall, Graph} \<subseteq> K"
  shows "steps ev K w w'"
proof -
  have "steps ev K w w'" if "rfold (touch_neighbour ev isStall a) ns w = Inr w'" for a ns w w'
    using that assms(2) by (blast intro: rfold_steps touch_neighbour_steps)
  then show ?thesis
    using assms(1) touch_steps [OF _ assms(2)]
    by (auto simp: touchWithNeighbours_def rbind_eq_Inr world_simps split: if_splits)
      (meson steps_trans)+
qed

lemma onCellCreated_steps:
  "onCellCreated ev a w = Inr w' \<Longrightarrow> {Stall, Graph} \<subseteq> K \<Longrightarrow> steps ev K w w'"
  by (auto simp: onCellCreated_def rbind_eq_Inr intro: touchWithNeighbours_steps)

lemma getOrCreate_steps:
  assumes "getOrCreate ev p w = Inr (a, w')" and "{Stall, Graph, Create} \<subseteq> K"
  shows "steps ev K w w'"
proof (cases "get w (off_q p) (off_r p)")
  case None
  then have "steps ev K w ((set_cell (w_next w) (Cell_new ev p) w)\<lparr>w_next := w_next w + 1, w_index := w_index w @ [(p, w_next w)]\<rparr>)"
    using assms(2) by (intro steps_step [OF create]) auto
  then show ?thesis
    using assms None onCellCreated_steps [where K = K]
    by (auto simp: getOrCreate_def Let_def rbind_eq_Inr) (meson steps_trans)
next
  case (Some b)
  then show ?thesis using assms(1) by (simp add: getOrCreate_def)
qed

lemma getOrCreate_all_steps:
  "getOrCreate_all ev ps w = Inr (as, w') \<Longrightarrow> {Stall, Graph, Create} \<subseteq> K \<Longrightarrow> steps ev K w w'"
proof (induction ps arbitrary: w as)
  case (Cons p ps)
  then obtain a w1 as1 where "getOrCreate ev p w = Inr (a, w1)" "getOrCreate_all ev ps w1 = Inr (as1, w')"
    by (auto simp: rbind_eq_Inr)
  then show ?case
    using Cons getOrCreate_steps by (meson steps_trans)
qed simp

lemma createSiblings_steps:
  "createSiblings ev a w = Inr (as, w') \<Longrightarrow> {Stall, Graph, Create} \<subseteq> K \<Longrightarrow> steps ev K w w'"
  by (auto simp: createSiblings_def rbind_eq_Inr intro: getOrCreate_all_steps)

lemma getCellsExcluding_steps:
  "getCellsExcluding ev cell exclude w = Inr (as, w') \<Longrightarrow> {Stall, Graph, Create} \<subseteq> K \<Longrightarrow> steps ev K w w'"
  by (auto simp: getCellsExcluding_def rbind_eq_Inr intro: createSiblings_steps getOrCreate_all_steps
      split: option.splits)

lemma new_packet_steps: "new_packet ev spec w = Inr (p, w') \<Longrightarrow> Message \<in> K \<Longrightarrow> steps ev K w w'"
  by (auto simp: new_packet_def split: option.splits sum.splits) (rule steps_step [OF message])

lemma push_broadcast_steps:
  "w_cells w a = Some c \<Longrightarrow> Queue \<in> K \<Longrightarrow> steps ev K w (set_cell a (push_broadcast p c) w)"
proof -
  have "\<exists>q1 q2. push_broadcast p c = c\<lparr>cl_queue1 := q1, cl_queue2 := q2, cl_first := cl_first c\<rparr>"
    by (cases c) (auto simp: push_broadcast_def)
  then show "w_cells w a = Some c \<Longrightarrow> Queue \<in> K \<Longrightarrow> ?thesis"
    using steps_step [OF queue] by metis
qed

lemma Cell_broadcast_steps: "Cell_broadcast a p w = Inr w' \<Longrightarrow> Queue \<in> K \<Longrightarrow> steps ev K w w'"
  by (auto simp: Cell_broadcast_def world_simps intro: push_broadcast_steps)

lemma broadcastToSiblings_steps:
  assumes "broadcastToSiblings cell p w = Inr w'" and "Queue \<in> K"
  shows "steps ev K w w'"
proof -
  have "steps ev K w w'" if "rfold (\<lambda>s w. rbind (the_ptr s) (\<lambda>b. Cell_broadcast b p w)) sibs w = Inr w'" for sibs w
    using that assms(2) by (rule_tac rfold_steps) (auto simp: rbind_eq_Inr intro: Cell_broadcast_steps)
  then show ?thesis
    using assms Cell_broadcast_steps by (auto simp: broadcastToSiblings_def rbind_eq_Inr) (meson steps_trans)
qed

lemma Map_broadcast_steps:
  assumes "Map_broadcast cells p cb w = Inr w'" and "Queue \<in> K"
    and "\<And>a w w'. cb a w = Inr w' \<Longrightarrow> steps ev K w w'"
  shows "steps ev K w w'"
  using assms(1) unfolding Map_broadcast_def
proof (rule rfold_steps)
  fix a w w'
  assume "rbind (Cell_broadcast a p w) (cb a) = Inr w'"
  then obtain w1 where "Cell_broadcast a p w = Inr w1" "cb a w1 = Inr w'"
    by (auto simp: rbind_eq_Inr)
  then show "steps ev K w w'"
    using assms(2,3) Cell_broadcast_steps steps_trans by metis
qed

lemma Cell_request_steps: "Cell_request ev a who t w = Inr w' \<Longrightarrow> Request \<in> K \<Longrightarrow> steps ev K w w'"
  by (auto simp: Cell_request_def rbind_eq_Inr world_simps intro: steps_step request split: if_splits)

lemma place_steps:
  "on_entity e (\<lambda>x. x\<lparr>en_cell := p\<rparr>) w = Inr w' \<Longrightarrow> Place \<in> K \<Longrightarrow> steps ev K w w'"
  by (auto simp: world_simps intro: steps_step place)

lemma set_cell_steps:
  assumes "w_cells w a = Some c"
  shows "c' = c\<lparr>cl_entities := cl_entities c', cl_clientsCount := cl_clientsCount c'\<rparr> \<Longrightarrow> Member \<in> K
      \<Longrightarrow> steps ev K w (set_cell a c' w)"
    and "c' = c\<lparr>cl_queue1 := cl_queue1 c', cl_queue2 := cl_queue2 c', cl_first := cl_first c'\<rparr> \<Longrightarrow> Queue \<in> K
      \<Longrightarrow> steps ev K w (set_cell a c' w)"
    and "c' = c\<lparr>cl_isRegistered := cl_isRegistered c', cl_isOnCooldown := cl_isOnCooldown c', cl_remaining := cl_remaining c'\<rparr>
      \<Longrightarrow> Stall \<in> K \<Longrightarrow> steps ev K w (set_cell a c' w)"
  using assms by (metis steps_step [OF member] steps_step [OF queue] steps_step [OF stall])+

lemma addEntity_steps: "addEntity a e w = Inr w' \<Longrightarrow> Member \<in> K \<Longrightarrow> steps ev K w w'"
  by (auto simp: addEntity_def rbind_eq_Inr world_simps Let_def intro!: set_cell_steps(1))

lemma removeEntity_steps: "removeEntity a e w = Inr w' \<Longrightarrow> Member \<in> K \<Longrightarrow> steps ev K w w'"
  by (auto simp: removeEntity_def rbind_eq_Inr world_simps Let_def intro!: set_cell_steps(1))

lemma Cluster_add_steps: "Cluster_add e w = Inr w' \<Longrightarrow> Graph \<in> K \<Longrightarrow> steps ev K w w'"
  by (auto simp: Cluster_add_def push_cluster_op_def rbind_eq_Inr intro: on_cluster_steps split: if_splits)

lemma Cluster_remove_steps: "Cluster_remove e w = Inr w' \<Longrightarrow> Graph \<in> K \<Longrightarrow> steps ev K w w'"
  by (auto simp: Cluster_remove_def push_cluster_op_def rbind_eq_Inr intro: on_cluster_steps split: if_splits)

lemma checkStall_steps:
  assumes "checkStall from to w = Inr w'" and "{Stall, Graph} \<subseteq> K"
  shows "steps ev K w w'"
proof -
  consider "w' = w" | c where "w_cells w to = Some c"
    "erase_stall to (set_cell to (c\<lparr>cl_isRegistered := False, cl_isOnCooldown := False\<rparr>) w) = Inr w'"
    using assms(1) by (auto simp: checkStall_def rbind_eq_Inr world_simps split: option.splits if_splits)
  then show ?thesis
    using assms(2) by cases (auto intro: steps_trans [OF stall_steps erase_stall_steps])
qed

subsection \<open>Composition\<close>

definition reaches :: "env \<Rightarrow> step_kind set \<Rightarrow> world \<Rightarrow> fault + world \<Rightarrow> bool" where
  "reaches ev K w r \<longleftrightarrow> (\<forall>w'. r = Inr w' \<longrightarrow> steps ev K w w')"

definition reaches_with :: "env \<Rightarrow> step_kind set \<Rightarrow> world \<Rightarrow> fault + ('a \<times> world) \<Rightarrow> bool" where
  "reaches_with ev K w r \<longleftrightarrow> (\<forall>x w'. r = Inr (x, w') \<longrightarrow> steps ev K w w')"

lemma reaches_bind:
  "\<lbrakk>reaches ev K w m; \<And>w1. m = Inr w1 \<Longrightarrow> reaches ev K w1 (f w1)\<rbrakk> \<Longrightarrow> reaches ev K w (rbind m f)"
  "\<lbrakk>reaches ev K w m; \<And>w1. m = Inr w1 \<Longrightarrow> reaches_with ev K w1 (g w1)\<rbrakk> \<Longrightarrow> reaches_with ev K w (rbind m g)"
  unfolding reaches_def reaches_with_def by (auto simp: rbind_eq_Inr, (blast intro: steps_trans)+)

lemma reaches_bind_with:
  "\<lbrakk>reaches_with ev K w m; \<And>x w1. m = Inr (x, w1) \<Longrightarrow> reaches ev K w1 (f x w1)\<rbrakk>
    \<Longrightarrow> reaches ev K w (rbind m (\<lambda>(x, w). f x w))"
  "\<lbrakk>reaches_with ev K w m; \<And>x w1. m = Inr (x, w1) \<Longrightarrow> reaches_with ev K w1 (g x w1)\<rbrakk>
    \<Longrightarrow> reaches_with ev K w (rbind m (\<lambda>(x, w). g x w))"
  unfolding reaches_def reaches_with_def by (auto simp: rbind_eq_Inr, (blast intro: steps_trans)+)

lemma reaches_read:
  "(\<And>x. m = Inr x \<Longrightarrow> reaches ev K w (f x)) \<Longrightarrow> reaches ev K w (rbind m f)"
  "(\<And>x. m = Inr x \<Longrightarrow> reaches_with ev K w (g x)) \<Longrightarrow> reaches_with ev K w (rbind m g)"
  unfolding reaches_def reaches_with_def rbind_eq_Inr by blast+

lemmas reaches_reads =
  reaches_read [where m = "entity_at e v" for e v] reaches_read [where m = "cell_at a v" for a v]
  reaches_read [where m = "the_ptr p" for p] reaches_read [where m = "getSiblings a v" for a v]
  reaches_read [where m = "offset_of_pos p" for p]

lemma reaches_return: "reaches ev K w (Inr w)" "reaches_with ev K w (Inr (x, w))" "reaches ev K w (Inl z)" "reaches_with ev K w (Inl z)"
  unfolding reaches_def reaches_with_def by auto

lemma reaches_if:
  "(b \<Longrightarrow> reaches ev K w m) \<Longrightarrow> (\<not> b \<Longrightarrow> reaches ev K w n) \<Longrightarrow> reaches ev K w (if b then m else n)"
  "(b \<Longrightarrow> reaches_with ev K w p) \<Longrightarrow> (\<not> b \<Longrightarrow> reaches_with ev K w q) \<Longrightarrow> reaches_with ev K w (if b then p else q)"
  by simp_all

lemma reaches_rfold:
  "(\<And>x w. x \<in> set xs \<Longrightarrow> reaches ev K w (f x w)) \<Longrightarrow> reaches ev K w (rfold f xs w)"
  unfolding reaches_def by (blast intro: rfold_steps)

lemmas reaches_rules = reaches_reads reaches_bind reaches_bind_with reaches_return reaches_if reaches_rfold

lemma reaches_cells:
  "{Stall, Graph, Create} \<subseteq> K \<Longrightarrow> reaches_with ev K w (getOrCreate ev p w)"
  "{Stall, Graph, Create} \<subseteq> K \<Longrightarrow> reaches_with ev K w (createSiblings ev a w)"
  "{Stall, Graph, Create} \<subseteq> K \<Longrightarrow> reaches_with ev K w (getCellsExcluding ev cell exclude w)"
  "{Stall, Graph} \<subseteq> K \<Longrightarrow> reaches ev K w (checkStall from to w)"
  "{Stall, Graph} \<subseteq> K \<Longrightarrow> reaches_with ev K w (touchWithNeighbours ev isStall cell w)"
  unfolding reaches_def reaches_with_def
  by (blast intro: getOrCreate_steps createSiblings_steps getCellsExcluding_steps checkStall_steps
      touchWithNeighbours_steps)+

lemma reaches_basic:
  "Message \<in> K \<Longrightarrow> reaches_with ev K w (new_packet ev spec w)"
  "Queue \<in> K \<Longrightarrow> reaches ev K w (Cell_broadcast a p w)"
  "Queue \<in> K \<Longrightarrow> reaches ev K w (broadcastToSiblings cell p w)"
  "Request \<in> K \<Longrightarrow> reaches ev K w (Cell_request ev a who t w)"
  "Place \<in> K \<Longrightarrow> reaches ev K w (on_entity e (\<lambda>x. x\<lparr>en_cell := cell\<rparr>) w)"
  "Member \<in> K \<Longrightarrow> reaches ev K w (addEntity a e w)"
  "Member \<in> K \<Longrightarrow> reaches ev K w (removeEntity a e w)"
  "Graph \<in> K \<Longrightarrow> reaches ev K w (Cluster_add e w)"
  "Graph \<in> K \<Longrightarrow> reaches ev K w (Cluster_remove e w)"
  unfolding reaches_def reaches_with_def
  by (blast intro: new_packet_steps Cell_broadcast_steps broadcastToSiblings_steps Cell_request_steps place_steps
      addEntity_steps removeEntity_steps Cluster_add_steps Cluster_remove_steps)+

lemma reaches_Map_broadcast:
  "Queue \<in> K \<Longrightarrow> (\<And>a w. reaches ev K w (cb a w)) \<Longrightarrow> reaches ev K w (Map_broadcast cells p cb w)"
  unfolding reaches_def by (blast intro: Map_broadcast_steps)

text \<open>The kinds of steps of adding and removing.\<close>

definition add_kinds :: "step_kind set" where
  "add_kinds = {Stall, Graph, Create, Message, Queue, Request, Place, Member}"

lemma reaches_onAdded: "add_kinds \<subseteq> K \<Longrightarrow> reaches_with ev K w (onAdded ev e cell old w)"
  unfolding onAdded_def add_kinds_def
  by (intro reaches_rules reaches_cells reaches_basic reaches_Map_broadcast; simp)

lemma reaches_onRemoved: "add_kinds \<subseteq> K \<Longrightarrow> reaches_with ev K w (onRemoved ev e cell to w)"
  unfolding onRemoved_def add_kinds_def
  by (intro reaches_rules reaches_cells reaches_basic reaches_Map_broadcast; simp)

lemma reaches_run_add: "add_kinds \<subseteq> K \<Longrightarrow> reaches ev K w (run_add ev p e old w)"
  unfolding run_add_def
  by (intro reaches_rules reaches_cells reaches_basic reaches_onAdded; simp add: add_kinds_def)

lemma reaches_run_remove: "add_kinds \<subseteq> K \<Longrightarrow> reaches ev K w (run_remove ev p e to w)"
  unfolding run_remove_def
  by (cases "get w (off_q p) (off_r p)"; simp only: option.case;
      intro reaches_rules reaches_cells reaches_basic reaches_onRemoved; simp add: add_kinds_def)

text \<open>The kinds of steps of the update of an entity.\<close>

definition update_kinds :: "step_kind set" where
  "update_kinds = {Stall, Graph, Create, Message, Queue, Schedule, Motion}"

lemma reaches_push_op: "Schedule \<in> K \<Longrightarrow> mo_type op \<noteq> DESTROY \<Longrightarrow> reaches ev K w (Inr (push_op op w))"
  unfolding reaches_def by (auto intro: steps_step [OF schedule])

lemma reaches_moves:
  "Schedule \<in> K \<Longrightarrow> reaches ev K w (removeFrom_cell cell e to w)"
  "Schedule \<in> K \<Longrightarrow> reaches ev K w (addTo_cell cell e old w)"
  unfolding removeFrom_cell_def addTo_cell_def addTo_def removeFrom_def
  by (intro reaches_rules reaches_push_op; simp)+

lemma reaches_onMove: "update_kinds \<subseteq> K \<Longrightarrow> reaches ev K w (onMove ev e w)"
  unfolding onMove_def update_kinds_def
  by (intro reaches_rules reaches_cells reaches_moves; simp)

lemma reaches_run_effect: "update_kinds \<subseteq> K \<Longrightarrow> reaches ev K w (run_effect ev e eff w)"
  unfolding run_effect_def
  by (cases eff; simp only: motion_effect.case;
      intro reaches_rules reaches_basic reaches_onMove; simp add: update_kinds_def)

lemma motion_steps:
  assumes "w_entities w e = Some x"
    and "x' = x\<lparr>en_motion := en_motion x', en_box := en_box x', en_exec := en_exec x'\<rparr>" and "Motion \<in> K"
  shows "steps ev K w (set_entity e x' w)"
  using assms steps_step [OF motion] by metis

lemma reaches_MotionMaster_run:
  assumes "update_kinds \<subseteq> K"
  shows "reaches ev K w (MotionMaster_run ev elapsed e w)"
  unfolding reaches_def
proof (intro allI impI)
  fix w'
  assume "MotionMaster_run ev elapsed e w = Inr w'"
  then obtain x where x: "w_entities w e = Some x"
    and run: "MotionMaster_run ev elapsed e w = Inr w'"
    by (auto simp: MotionMaster_run_def rbind_eq_Inr world_simps)
  from run obtain m bb effs where
    w': "rfold (run_effect ev e) effs (set_entity e (x\<lparr>en_motion := m, en_box := bb\<rparr>) w) = Inr w'"
    by (auto simp: MotionMaster_run_def x split: sum.split_asm prod.split_asm)
  have "steps ev K w (set_entity e (x\<lparr>en_motion := m, en_box := bb\<rparr>) w)"
    using x assms by (intro motion_steps) (auto simp: update_kinds_def)
  moreover have "reaches ev K v (rfold (run_effect ev e) effs v)" for v
    using assms by (intro reaches_rfold reaches_run_effect)
  ultimately show "steps ev K w w'"
    using w' unfolding reaches_def by (meson steps_trans)
qed

text \<open>The handlers of works and tasks are code of the application; what they may do is an assumption.\<close>

definition program_within :: "env \<Rightarrow> step_kind set \<Rightarrow> ('j, 't, world) program \<Rightarrow> bool" where
  "program_within ev K pg \<longleftrightarrow>
     (\<forall>job ex w. steps ev K w (snd (snd (pg_handler pg job (ex, w)))))
     \<and> (\<forall>job w. steps ev K w (pg_onWorkError pg job w))
     \<and> (\<forall>task ex w. steps ev K w (snd (pg_task pg task (ex, w))))"

lemma executeJobs_steps:
  assumes "executeJobs n pg now (ex, w) = Inr (ex', w')" and "program_within ev K pg"
  shows "steps ev K w w'"
proof (rule executeJobs_within [OF assms(1)])
  show "works_within (steps ev K) pg" using assms(2) by (simp add: works_within_def program_within_def)
qed (auto intro: steps_trans)

lemma reaches_MapAwareEntity_update:
  assumes "update_kinds \<subseteq> K" and "program_within ev K pg"
  shows "reaches ev K w (MapAwareEntity_update ev pg elapsed e w)"
proof -
  have "steps ev K w w'" if upd: "MapAwareEntity_update ev pg elapsed e w = Inr w'" for w'
  proof -
    obtain x where x: "w_entities w e = Some x"
      using upd by (auto simp: MapAwareEntity_update_def rbind_eq_Inr world_simps)
    obtain ex w1 x1 where "executeJobs (ev_fuel ev) pg (ev_now ev) (en_exec x, w) = Inr (ex, w1)"
      and x1: "w_entities w1 e = Some x1"
      and w': "MotionMaster_run ev elapsed e (set_entity e (x1\<lparr>en_exec := ex\<rparr>) w1) = Inr w'"
      using upd by (auto simp: MapAwareEntity_update_def x rbind_eq_Inr world_simps split: sum.split_asm prod.split_asm)
    then have "steps ev K w w1" using assms(2) by (blast intro: executeJobs_steps)
    also have "steps ev K w1 (set_entity e (x1\<lparr>en_exec := ex\<rparr>) w1)"
      using x1 assms(1) by (intro motion_steps) (auto simp: update_kinds_def)
    also have "steps ev K (set_entity e (x1\<lparr>en_exec := ex\<rparr>) w1) w'"
      using w' reaches_MotionMaster_run [OF assms(1)] by (simp add: reaches_def)
    finally show ?thesis .
  qed
  then show ?thesis by (simp add: reaches_def)
qed

subsection \<open>Cells\<close>

lemma reaches_send: "Deliver \<in> K \<Longrightarrow> reaches ev K w (send client p w)"
  unfolding reaches_def
  by (auto simp: send_def rbind_eq_Inr Let_def intro!: steps_step [OF deliver] split: sum.split_asm)

lemma reaches_serve: "{Message, Deliver} \<subseteq> K \<Longrightarrow> reaches ev K w (serve ev e rq w)"
  unfolding serve_def by (intro reaches_rules reaches_basic reaches_send; simp)

lemma reaches_processRequests: "{Message, Deliver} \<subseteq> K \<Longrightarrow> reaches ev K w (processRequests ev a e w)"
  unfolding processRequests_def by (intro reaches_rules reaches_serve)

lemma reaches_tree_insert: "Tree \<in> K \<Longrightarrow> reaches ev K w (tree_insert a e w)"
  unfolding reaches_def
  by (auto simp: tree_insert_def rbind_eq_Inr world_simps intro!: steps_step [OF tree] split: sum.split_asm)

lemma reaches_insert_sibling: "Tree \<in> K \<Longrightarrow> reaches ev K w (insert_sibling e s w)"
  unfolding insert_sibling_def
  by (cases s; simp only: option.case; intro reaches_rules reaches_tree_insert; simp)

lemma reaches_update_entity:
  assumes "{Message, Deliver, Tree} \<subseteq> K" and "\<And>e w. reaches ev K w (upd e w)"
  shows "reaches ev K w (update_entity ev upd a q e w)"
proof -
  have "reaches ev K w (case en_client x of None \<Rightarrow> Inr w | Some client \<Rightarrow> rfold (send client) q w)" for x w
    using assms(1) by (cases "en_client x"; simp only: option.case) (intro reaches_rules reaches_send; simp)+
  then show ?thesis
    unfolding update_entity_def using assms
    by (intro reaches_rules reaches_processRequests reaches_tree_insert reaches_insert_sibling; simp)
qed

lemma reaches_Cell_update:
  assumes "{Message, Deliver, Tree, Queue} \<subseteq> K" and "\<And>e w. reaches ev K w (upd e w)"
  shows "reaches ev K w (Cell_update ev upd a w)"
proof -
  have "steps ev K w w'" if u: "Cell_update ev upd a w = Inr w'" for w'
  proof -
    obtain c q where c: "w_cells w a = Some c"
      and r: "rfold (\<lambda>p. update_entity ev upd a q (snd p)) (cl_entities c) (set_cell a (c\<lparr>cl_first := \<not> cl_first c\<rparr>) w) = Inr w'"
      using u by (auto simp: Cell_update_def flip_def rbind_eq_Inr Let_def world_simps)
    have "steps ev K w (set_cell a (c\<lparr>cl_first := \<not> cl_first c\<rparr>) w)"
      using c assms(1) by (intro set_cell_steps(2)) auto
    moreover have "reaches ev K v (rfold (\<lambda>p. update_entity ev upd a q (snd p)) (cl_entities c) v)" for v
      using assms by (intro reaches_rfold reaches_update_entity) auto
    ultimately show ?thesis using r by (auto simp: reaches_def intro: steps_trans)
  qed
  then show ?thesis by (simp add: reaches_def)
qed

lemma reaches_test_pair:
  assumes "Motion \<in> K"
  shows "reaches ev K w (test_pair ev e1 e2 w)"
proof -
  have "steps ev K w w'" if t: "test_pair ev e1 e2 w = Inr w'" for w'
  proof (cases "e1 = e2")
    case False
    then obtain x1 x2 where x: "w_entities w e1 = Some x1" "w_entities w e2 = Some x2"
      using t by (auto simp: test_pair_def rbind_eq_Inr world_simps)
    with t False obtain b1 b2 where
      w': "w' = set_entity e2 (x2\<lparr>en_box := Some b2\<rparr>) (set_entity e1 (x1\<lparr>en_box := Some b1\<rparr>) w)"
      by (auto simp: test_pair_def split: option.split_asm)
    have "steps ev K w (set_entity e1 (x1\<lparr>en_box := Some b1\<rparr>) w)"
      using x assms by (intro motion_steps) auto
    also have "steps ev K (set_entity e1 (x1\<lparr>en_box := Some b1\<rparr>) w) w'"
      unfolding w' using x False assms by (intro motion_steps) auto
    finally show ?thesis .
  qed (use t in \<open>simp add: test_pair_def\<close>)
  then show ?thesis by (simp add: reaches_def)
qed

lemma reaches_physics_entity:
  assumes "Motion \<in> K"
  shows "reaches ev K w (physics_entity ev a e w)"
proof -
  have "steps ev K w w'" if t: "physics_entity ev a e w = Inr w'" for w'
  proof -
    obtain c x where x: "w_cells w a = Some c" "w_entities w e = Some x"
      using t by (auto simp: physics_entity_def rbind_eq_Inr world_simps)
    with t obtain b cs where
      r: "rfold (test_pair ev e) cs (set_entity e (x\<lparr>en_box := Some b\<rparr>) w) = Inr w'"
      by (auto simp: physics_entity_def split: option.split_asm)
    have "steps ev K w (set_entity e (x\<lparr>en_box := Some b\<rparr>) w)"
      using x assms by (intro motion_steps) auto
    moreover have "reaches ev K v (rfold (test_pair ev e) cs v)" for v
      using assms by (intro reaches_rfold reaches_test_pair)
    ultimately show ?thesis using r by (auto simp: reaches_def intro: steps_trans)
  qed
  then show ?thesis by (simp add: reaches_def)
qed

lemma reaches_Cell_physics: "Motion \<in> K \<Longrightarrow> reaches ev K w (Cell_physics ev a w)"
  unfolding Cell_physics_def by (intro reaches_rules reaches_physics_entity)

lemma reaches_cleanup_cell:
  assumes "{Queue, Request, Tree, Stall} \<subseteq> K"
  shows "reaches ev K w (cleanup_cell elapsed a w)"
proof -
  have "steps ev K w w'" if t: "cleanup_cell elapsed a w = Inr w'" for w'
  proof -
    obtain c where c: "w_cells w a = Some c"
      using t by (auto simp: cleanup_cell_def Cell_cleanup_def rbind_eq_Inr world_simps)
    let ?c1 = "c\<lparr>cl_queue1 := cl_queue1 (clearQueues c), cl_queue2 := cl_queue2 (clearQueues c)\<rparr>"
    let ?c2 = "?c1\<lparr>cl_requests := []\<rparr>"
    let ?c3 = "?c2\<lparr>cl_tree := (cl_tree c)\<lparr>rq_tree := clear (rq_tree (cl_tree c))\<rparr>\<rparr>"
    have [simp]: "set_cell a y (set_cell a z w) = set_cell a y w" for y z
      by (simp add: set_cell_def)
    have e: "clearQueues c = ?c2"
      by (cases c) (simp add: clearQueues_def)
    have "cl_tree (clearQueues c) = cl_tree c"
      by (simp add: clearQueues_def)
    with e have w': "w' = set_cell a (stall_tick elapsed ?c3) w"
      using t c by (simp add: cleanup_cell_def Cell_cleanup_def Let_def)
    have "steps ev K w (set_cell a ?c1 w)"
      using c assms by (intro set_cell_steps(2)) auto
    also have "steps ev K (set_cell a ?c1 w) (set_cell a ?c2 w)"
      using steps_step [OF request [of "set_cell a ?c1 w" a ?c1]] assms by simp
    also have "steps ev K (set_cell a ?c2 w) (set_cell a ?c3 w)"
      using steps_step [OF tree [of "set_cell a ?c2 w" a ?c2]] assms by simp
    also have "steps ev K (set_cell a ?c3 w) w'"
      unfolding w' using set_cell_steps(3) [of "set_cell a ?c3 w" a ?c3 "stall_tick elapsed ?c3" K ev] assms
      by (simp add: stall_tick_def)
    finally show ?thesis .
  qed
  then show ?thesis by (simp add: reaches_def)
qed

subsection \<open>Cluster and map\<close>

lemma reaches_then: "steps ev K w w1 \<Longrightarrow> reaches ev K w1 r \<Longrightarrow> reaches ev K w r"
  unfolding reaches_def by (blast intro: steps_trans)

lemma reaches_with_then: "steps ev K w w1 \<Longrightarrow> reaches_with ev K w1 r \<Longrightarrow> reaches_with ev K w r"
  unfolding reaches_with_def by (blast intro: steps_trans)

lemma reaches_on_cluster:
  "Graph \<in> K \<Longrightarrow> (cluster_ok (w_cluster w) \<Longrightarrow> cluster_ok (f (w_cluster w))) \<Longrightarrow> reaches ev K w (Inr (on_cluster f w))"
  "Graph \<in> K \<Longrightarrow> (cluster_ok (w_cluster w) \<Longrightarrow> cluster_ok (f (w_cluster w))) \<Longrightarrow> reaches_with ev K w (Inr (x, on_cluster f w))"
  unfolding reaches_def reaches_with_def by (auto intro: on_cluster_steps)

lemma reaches_rfold_with:
  "(\<And>x n w. x \<in> set xs \<Longrightarrow> reaches_with ev K w (f x (n, w))) \<Longrightarrow> reaches_with ev K w (rfold f xs (n, w))"
  unfolding reaches_with_def by (blast intro: rfold_steps_pair)

lemma reaches_cluster_op: "Graph \<in> K \<Longrightarrow> reaches ev K w (cluster_op op w)"
  unfolding cluster_op_def
  by (cases op; simp only: cluster_operation.case; intro reaches_rules reaches_on_cluster; simp)

lemma reaches_keep_cells: "{Stall, Graph} \<subseteq> K \<Longrightarrow> reaches ev K w (keep_cells ev e w)"
  unfolding keep_cells_def by (intro reaches_rules reaches_cells; simp)

lemma reaches_stall_candidate:
  assumes "{Stall, Graph} \<subseteq> K"
  shows "reaches ev K w (stall_candidate a w)"
proof -
  let ?st = "fst (uset_insert a (cu_stall (w_cluster w)))"
  let ?w = "on_cluster (\<lambda>cu. cu\<lparr>cu_stall := ?st\<rparr>) w"
  have 1: "steps ev K w ?w"
    using assms by (auto intro!: on_cluster_steps cluster_ok_stall dest: cluster_ok_stall(2))
  have "reaches ev K ?w (on_cell a (\<lambda>c. c\<lparr>cl_isRegistered := True, cl_isOnCooldown := False, cl_remaining := STALL_TIME\<rparr>) ?w)"
    unfolding reaches_def using assms by (auto simp: world_simps intro: steps_step [OF stall])
  then show ?thesis
    unfolding stall_candidate_def Let_def split_def using reaches_then [OF 1] by (simp add: reaches_return)
qed

lemma reaches_destroyCell: "Doom \<in> K \<Longrightarrow> reaches ev K w (destroyCell a w)"
  unfolding reaches_def by (auto simp: destroyCell_def rbind_eq_Inr world_simps intro: steps_step [OF doom])

lemma reaches_process_stall:
  "{Stall, Graph, Doom} \<subseteq> K \<Longrightarrow> reaches_with ev K w (process_stall ev a (n, w))"
  unfolding process_stall_def prod.case
  by (intro reaches_rules reaches_cells reaches_destroyCell reaches_on_cluster cluster_ok_stall distinct_uset_erase; simp add: cluster_ok_stall)

lemma reaches_processStallCells:
  "{Stall, Graph, Doom} \<subseteq> K \<Longrightarrow> reaches_with ev K w (processStallCells ev w)"
  unfolding processStallCells_def
  by (rule reaches_with_then [OF on_cluster_steps [where
        f = "\<lambda>cu. cu\<lparr>cu_numStallCandidates := of_nat (length (cu_stall cu))\<rparr>"]])
    (auto intro!: reaches_rfold_with reaches_process_stall)

lemma reaches_Cluster_runScheduledOperations:
  "{Stall, Graph, Doom} \<subseteq> K \<Longrightarrow> reaches ev K w (Cluster_runScheduledOperations ev w)"
  unfolding Cluster_runScheduledOperations_def
  by (rule reaches_then [OF on_cluster_steps [where f = "\<lambda>cu. cu\<lparr>cu_ops := (cu_ops cu)\<lparr>items := []\<rparr>\<rparr>"]], simp, simp)
    (intro reaches_rules reaches_cluster_op reaches_keep_cells reaches_stall_candidate reaches_processStallCells
        reaches_on_cluster; simp)

lemma reaches_Cluster_cleanup:
  assumes K: "{Queue, Request, Tree, Stall, Graph} \<subseteq> K"
  shows "reaches ev K w (Cluster_cleanup elapsed w)"
proof (cases "cu_vertices (w_cluster w) = []")
  have f: "rbind (rbind m (\<lambda>w. Inr (on_cluster f w))) (\<lambda>w. Inr (on_cluster g w)) = rbind m (\<lambda>w. Inr (on_cluster (\<lambda>cu. g (f cu)) w))"
    for m :: "fault + world" and f g
    by (cases m) (simp_all add: on_cluster_def)
  case False
  with K show ?thesis
    unfolding Cluster_cleanup_def
    by (simp add: f) (intro reaches_rules reaches_cleanup_cell reaches_on_cluster; simp add: cluster_ok_def)
next
  case True
  with K show ?thesis
    unfolding Cluster_cleanup_def by (auto simp: cluster_ok_def intro!: reaches_on_cluster)
qed

lemma reaches_Map_cleanup:
  "{Queue, Request, Tree, Stall, Graph, Doom} \<subseteq> K \<Longrightarrow> reaches ev K w (Map_cleanup ev elapsed w)"
  unfolding Map_cleanup_def
  by (intro reaches_rules reaches_Cluster_cleanup reaches_Cluster_runScheduledOperations; simp)

text \<open>All kinds but the destruction of cells and the entry and exit of entities.\<close>

definition tick_kinds :: "step_kind set" where
  "tick_kinds = update_kinds \<union> {Deliver, Tree, Request}"

lemma reaches_Cluster_update:
  assumes "tick_kinds \<subseteq> K" and "\<And>e w. reaches ev K w (upd e w)"
  shows "reaches ev K w (Cluster_update ev upd w)"
proof -
  have K: "{Graph, Message, Deliver, Tree, Queue, Motion} \<subseteq> K"
    using assms(1) by (auto simp: tick_kinds_def update_kinds_def)
  have 1: "reaches ev K w (rbind (rfold (Cell_update ev upd) cs (w\<lparr>w_cluster := cu\<rparr>)) (rfold (Cell_physics ev) cs))"
    if "cluster_ok (w_cluster w) \<Longrightarrow> cluster_ok cu" for cs cu w
  proof (rule reaches_then [OF steps_step [OF graph [where cu = cu]]])
    show "Graph \<in> K" using K by simp
    show "cluster_ok cu" if "cluster_ok (w_cluster w)" using that \<open>cluster_ok (w_cluster w) \<Longrightarrow> cluster_ok cu\<close> by simp
    show "reaches ev K (w\<lparr>w_cluster := cu\<rparr>)
        (rbind (rfold (Cell_update ev upd) cs (w\<lparr>w_cluster := cu\<rparr>)) (rfold (Cell_physics ev) cs))"
      using K by (intro reaches_bind reaches_rfold reaches_Cell_update reaches_Cell_physics assms(2)) auto
  qed
  have 2: "reaches ev K w (Inr (w\<lparr>w_rx := rx\<rparr>))" for w rx
    using steps_step [OF message [where ps = "[]" and rx = rx and w = w]] K by (auto simp: reaches_def)
  show ?thesis
    unfolding Cluster_update_def Let_def by (rule reaches_bind, rule reaches_if) (rule 1 2 reaches_return, simp?)+
qed

lemma reaches_update:
  assumes "tick_kinds \<subseteq> K" and "program_within ev K pg"
  shows "reaches ev K w (Cluster_update ev (MapAwareEntity_update ev pg elapsed) w)"
  using assms by (auto simp: tick_kinds_def intro!: reaches_Cluster_update reaches_MapAwareEntity_update)

end
