(* ===== verification/Map_Invariants.thy ===== *)
theory Map_Invariants
  imports World_Steps
begin

text \<open>
  The index of cells: it maps every offset to at most one live cell, which has that offset, and
  knows every live cell. The invariant holds initially and through every update and cleanup of
  the map, together with the validity of the queued destructions.
\<close>

section \<open>The index\<close>

declare map_of_eq_Some_iff [simp del]

definition map_ok :: "world \<Rightarrow> bool" where
  "map_ok w \<longleftrightarrow> distinct (map fst (w_index w))
     \<and> (\<forall>a c. w_cells w a = Some c \<longrightarrow> a < w_next w \<and> map_of (w_index w) (cl_offset c) = Some a)
     \<and> (\<forall>p a. map_of (w_index w) p = Some a \<longrightarrow> (\<exists>c. w_cells w a = Some c \<and> cl_offset c = p))"

lemma map_ok_live:
  assumes "map_ok w" and "w_cells w a = Some c"
  shows "a < w_next w" and "get w (off_q (cl_offset c)) (off_r (cl_offset c)) = Some a"
  using assms by (auto simp: map_ok_def get_def)

lemma map_ok_get:
  assumes "map_ok w" and "get w q r = Some a"
  obtains c where "w_cells w a = Some c" and "cl_offset c = Offset q r"
  using assms unfolding map_ok_def get_def by blast

lemma map_ok_updates [simp]:
  "map_ok (w\<lparr>w_cluster := cu\<rparr>) = map_ok w" "map_ok (w\<lparr>w_packets := ps, w_rx := rx\<rparr>) = map_ok w"
  "map_ok (w\<lparr>w_ops := ops\<rparr>) = map_ok w" "map_ok (push_op op w) = map_ok w" "map_ok (set_entity e x w) = map_ok w"
  "map_ok (w\<lparr>w_packets := ps, w_sent := ms\<rparr>) = map_ok w"
  by (simp_all add: map_ok_def push_op_def)

lemma map_ok_set_cell:
  assumes "map_ok w" and "w_cells w a = Some c" and "cl_offset c' = cl_offset c"
  shows "map_ok (set_cell a c' w)"
  using assms by (fastforce simp: map_ok_def)

lemma map_ok_create:
  assumes "map_ok w" and "get w (off_q p) (off_r p) = None"
  shows "map_ok ((set_cell (w_next w) (Cell_new ev p) w)\<lparr>w_next := w_next w + 1, w_index := w_index w @ [(p, w_next w)]\<rparr>)"
proof -
  have n: "map_of (w_index w) p = None"
    using assms(2) by (cases p) (simp add: get_def)
  then have "p \<notin> fst ` set (w_index w)"
    by (simp add: map_of_eq_None_iff)
  moreover have "map_of (w_index w @ [(p, w_next w)]) = (map_of (w_index w))(p \<mapsto> w_next w)"
    using n by (auto simp: map_add_def fun_eq_iff split: option.splits)
  moreover have "cl_offset c \<noteq> p" if "w_cells w a = Some c" for a c
    using assms(1) n that unfolding map_ok_def by fastforce
  moreover have "a \<noteq> w_next w" if "w_cells w a = Some c" for a c
    using assms(1) that unfolding map_ok_def by fastforce
  ultimately show ?thesis
    using assms(1) unfolding map_ok_def
    by (auto simp: Cell_new_def less_Suc_eq simp del: map_of_append) (metis option.distinct(1))+
qed

lemma map_of_filter_neq: "map_of (filter (\<lambda>x. fst x \<noteq> p) xs) = (map_of xs)(p := None)"
  by (induction xs) (auto simp: fun_eq_iff)

lemma map_ok_destroy:
  assumes "map_ok w" and "w_cells w a = Some c" and "cl_offset c = p"
  shows "map_ok (w\<lparr>w_index := filter (\<lambda>x. fst x \<noteq> p) (w_index w), w_cells := (w_cells w)(a := None)\<rparr>)"
proof -
  have "cl_offset c' \<noteq> p" if "w_cells w b = Some c'" "b \<noteq> a" for b c'
    using assms that unfolding map_ok_def by (metis option.inject)
  moreover have "distinct (map fst (filter (\<lambda>x. fst x \<noteq> p) (w_index w)))"
    using assms(1) by (simp add: map_ok_def distinct_map_filter)
  ultimately show ?thesis
    using assms unfolding map_ok_def by (auto simp: map_of_filter_neq) (metis option.inject)+
qed

lemma world_step_map_ok: "world_step ev k w w' \<Longrightarrow> map_ok w \<Longrightarrow> map_ok w'"
proof (induction rule: world_step.induct)
  case (create w p)
  then show ?case by (rule_tac map_ok_create)
next
  case (destroy w a c p)
  then show ?case by (rule_tac map_ok_destroy)
qed (auto intro: map_ok_set_cell)

lemma steps_map_ok: "steps ev K w w' \<Longrightarrow> map_ok w \<Longrightarrow> map_ok w'"
  by (erule steps_invariant) (auto intro: world_step_map_ok)

lemma map_ok_new: "map_ok (World_new j1 j2 rx)"
  by (simp add: map_ok_def World_new_def)

section \<open>What steps keep\<close>

text \<open>Without a destruction cells stay alive, at their offsets.\<close>

definition cells_kept :: "world \<Rightarrow> world \<Rightarrow> bool" where
  "cells_kept w w' \<longleftrightarrow> w_next w \<le> w_next w'
     \<and> (\<forall>a c. w_cells w a = Some c \<longrightarrow> (\<exists>c'. w_cells w' a = Some c' \<and> cl_offset c' = cl_offset c))"

lemma world_step_cells_kept:
  "world_step ev k w w' \<Longrightarrow> k \<noteq> Destroy \<Longrightarrow> map_ok w \<Longrightarrow> cells_kept w w'"
  by (erule world_stepE) (auto simp: cells_kept_def push_op_def dest: map_ok_live)

lemma cells_keptE:
  assumes "cells_kept w w'" and "w_cells w a = Some c"
  obtains c' where "w_cells w' a = Some c'" and "cl_offset c' = cl_offset c"
  using assms unfolding cells_kept_def by blast

lemma cells_kept_trans: "cells_kept u v \<Longrightarrow> cells_kept v w \<Longrightarrow> cells_kept u w"
  unfolding cells_kept_def by (metis order_trans)

lemma steps_cells_kept:
  assumes "steps ev K w w'" and "Destroy \<notin> K" and "map_ok w"
  shows "cells_kept w w'"
proof -
  have "map_ok w' \<and> cells_kept w w'"
    using assms(1)
  proof (rule steps_invariant [where P = "\<lambda>v. map_ok v \<and> cells_kept w v"])
    fix k v v' assume s: "k \<in> K" "world_step ev k v v'" "map_ok v \<and> cells_kept w v"
    then have "cells_kept v v'"
      using world_step_cells_kept [of ev k v v'] assms(2) by blast
    with s show "map_ok v' \<and> cells_kept w v'"
      using world_step_map_ok [OF s(2)] cells_kept_trans by blast
  qed (use assms(3) in \<open>auto simp: cells_kept_def\<close>)
  then show ?thesis by simp
qed

lemma steps_ops:
  assumes "steps ev K w w'" and "{Schedule, Doom} \<inter> K = {}"
  shows "w_ops w' = w_ops w"
  using assms(1)
proof (rule steps_invariant [where P = "\<lambda>v. w_ops v = w_ops w"])
  fix k v v' assume "k \<in> K" "world_step ev k v v'" "w_ops v = w_ops w"
  then show "w_ops v' = w_ops w"
    using assms(2) by (elim world_stepE) auto
qed simp

lemma steps_cluster_ok: "steps ev K w w' \<Longrightarrow> cluster_ok (w_cluster w) \<Longrightarrow> cluster_ok (w_cluster w')"
proof (erule steps_invariant)
  fix k v v' assume "world_step ev k v v'" "cluster_ok (w_cluster v)"
  then show "cluster_ok (w_cluster v')"
    by (elim world_stepE) (auto simp: push_op_def)
qed

text \<open>The queued destructions.\<close>

definition destroys :: "world \<Rightarrow> map_operation list" where
  "destroys w = filter (\<lambda>op. mo_type op = DESTROY) (items (w_ops w))"

definition destroy_ok :: "world \<Rightarrow> map_operation \<Rightarrow> bool" where
  "destroy_ok w op \<longleftrightarrow> (\<exists>a c. mo_param op = Some a \<and> w_cells w a = Some c \<and> cl_offset c = mo_offset op)"

lemma destroy_ok_kept: "destroy_ok w op \<Longrightarrow> cells_kept w w' \<Longrightarrow> destroy_ok w' op"
  unfolding destroy_ok_def cells_kept_def by metis

lemma run_op_ops:
  assumes "run_op ev op w = Inr w'"
  shows "w_ops w' = w_ops w"
proof (cases "mo_type op")
  case DESTROY
  with assms show ?thesis by (auto simp: run_op_def run_destroy_def rbind_eq_Inr)
next
  case ADD_ENTITY
  with assms have "steps ev add_kinds w w'"
    using reaches_run_add [of add_kinds ev w] by (auto simp: run_op_def rbind_eq_Inr reaches_def)
  then show ?thesis by (rule steps_ops) (simp add: add_kinds_def)
next
  case REMOVE_ENTITY
  with assms have "steps ev add_kinds w w'"
    using reaches_run_remove [of add_kinds ev w] by (auto simp: run_op_def rbind_eq_Inr reaches_def)
  then show ?thesis by (rule steps_ops) (simp add: add_kinds_def)
qed

lemma run_op_not_destroy_steps:
  assumes "run_op ev op w = Inr w'" and "mo_type op \<noteq> DESTROY"
  shows "steps ev add_kinds w w'"
  using assms reaches_run_add [of add_kinds ev w] reaches_run_remove [of add_kinds ev w]
  by (cases "mo_type op") (auto simp: run_op_def rbind_eq_Inr reaches_def)

lemma run_destroy_ok:
  assumes "map_ok w" and "destroy_ok w op" and "mo_type op = DESTROY"
  obtains w' where "run_op ev op w = Inr w'" and "map_ok w'" and "w_cluster w' = w_cluster w"
    and "\<And>b. w_cells w' b = (if mo_param op = Some b then None else w_cells w b)"
proof -
  obtain a c where a: "mo_param op = Some a" "w_cells w a = Some c" "cl_offset c = mo_offset op"
    using assms(2) by (auto simp: destroy_ok_def)
  let ?w = "w\<lparr>w_index := filter (\<lambda>p. fst p \<noteq> mo_offset op) (w_index w), w_cells := (w_cells w)(a := None)\<rparr>"
  have "run_op ev op w = Inr ?w"
    using a assms(3) by (simp add: run_op_def run_destroy_def)
  moreover have "map_ok ?w"
    using map_ok_destroy [OF assms(1) a(2,3)] .
  ultimately show thesis
    using that a(1) by auto
qed

text \<open>The state between two rounds.\<close>

definition world_ok :: "world \<Rightarrow> bool" where
  "world_ok w \<longleftrightarrow> map_ok w \<and> cluster_ok (w_cluster w) \<and> cap (w_ops w) = None
     \<and> (\<forall>op\<in>set (destroys w). destroy_ok w op) \<and> distinct (map mo_param (destroys w))"

lemma run_ops_ok:
  assumes "rfold (run_op ev) ops w = Inr w'" and "map_ok w" and "cluster_ok (w_cluster w)"
    and "\<forall>op\<in>set ops. mo_type op = DESTROY \<longrightarrow> destroy_ok w op"
    and "distinct (map mo_param (filter (\<lambda>op. mo_type op = DESTROY) ops))"
  shows "map_ok w' \<and> cluster_ok (w_cluster w') \<and> w_ops w' = w_ops w"
  using assms
proof (induction ops arbitrary: w)
  case (Cons op ops)
  then obtain w1 where w1: "run_op ev op w = Inr w1" "rfold (run_op ev) ops w1 = Inr w'"
    by (auto simp: rbind_eq_Inr)
  have "map_ok w1 \<and> cluster_ok (w_cluster w1) \<and> (\<forall>op\<in>set ops. mo_type op = DESTROY \<longrightarrow> destroy_ok w1 op)"
  proof (cases "mo_type op = DESTROY")
    case True
    then obtain v where v: "run_op ev op w = Inr v" "map_ok v" "w_cluster v = w_cluster w"
        "\<And>b. w_cells v b = (if mo_param op = Some b then None else w_cells w b)"
      using run_destroy_ok Cons.prems(2,4) by (metis list.set_intros(1))
    have "destroy_ok v op'" if "op' \<in> set ops" "mo_type op' = DESTROY" for op'
    proof -
      have "mo_param op' \<noteq> mo_param op"
        using Cons.prems(5) True that by (force simp: image_iff)
      then show ?thesis
        using Cons.prems(4) that v(4) unfolding destroy_ok_def by (metis list.set_intros(2))
    qed
    with v w1(1) Cons.prems(3) show ?thesis by simp
  next
    case False
    then have s: "steps ev add_kinds w w1"
      using run_op_not_destroy_steps w1(1) by blast
    then have "cells_kept w w1"
      using steps_cells_kept Cons.prems(2) by (simp add: add_kinds_def)
    then show ?thesis
      using s steps_map_ok steps_cluster_ok Cons.prems destroy_ok_kept by (metis list.set_intros(2))
  qed
  moreover have "distinct (map mo_param (filter (\<lambda>op. mo_type op = DESTROY) ops))"
    using Cons.prems(5) by (cases "mo_type op = DESTROY") simp_all
  ultimately show ?case
    using Cons.IH [OF w1(2)] run_op_ops [OF w1(1)] by simp
qed simp

lemma Map_runScheduledOperations_ok:
  assumes "Map_runScheduledOperations ev w = Inr w'" and "world_ok w"
  shows "map_ok w' \<and> cluster_ok (w_cluster w') \<and> w_ops w' = (w_ops w)\<lparr>items := []\<rparr>"
proof -
  let ?w = "w\<lparr>w_ops := (w_ops w)\<lparr>items := []\<rparr>\<rparr>"
  have "destroy_ok ?w op = destroy_ok w op" for op
    by (simp add: destroy_ok_def)
  then show ?thesis
    using assms run_ops_ok [of ev "items (w_ops w)" ?w w']
    by (auto simp: Map_runScheduledOperations_def world_ok_def destroys_def)
qed

lemma steps_no_doom:
  assumes "steps ev K w w'" and "Doom \<notin> K"
  shows "destroys w' = destroys w \<and> cap (w_ops w') = cap (w_ops w)"
  using assms(1)
proof (rule steps_invariant [where P = "\<lambda>v. destroys v = destroys w \<and> cap (w_ops v) = cap (w_ops w)"])
  fix k v v' assume "k \<in> K" "world_step ev k v v'" "destroys v = destroys w \<and> cap (w_ops v) = cap (w_ops w)"
  then show "destroys v' = destroys w \<and> cap (w_ops v') = cap (w_ops w)"
    using assms(2) by (elim world_stepE) (auto simp: destroys_def push_op_def bq_push_def split: if_splits)
qed simp

lemma world_ok_steps:
  assumes "steps ev K w w'" and "Doom \<notin> K" and "Destroy \<notin> K" and "world_ok w"
  shows "world_ok w'"
  using assms steps_no_doom [OF assms(1,2)] steps_map_ok [OF assms(1)] steps_cluster_ok [OF assms(1)]
    steps_cells_kept [OF assms(1,3)] destroy_ok_kept
  by (auto simp: world_ok_def)

text \<open>The loop over the stalled cells dooms each of them at most once.\<close>

lemma process_stall_ok:
  assumes "process_stall ev a (n, w) = Inr (m, w')" and "world_ok w" and "Some a \<notin> mo_param ` set (destroys w)"
  shows "world_ok w' \<and> mo_param ` set (destroys w') \<subseteq> insert (Some a) (mo_param ` set (destroys w))"
proof -
  obtain c where c: "w_cells w a = Some c"
    using assms(1) by (auto simp: process_stall_def rbind_eq_Inr world_simps)
  show ?thesis
  proof (cases "cl_isOnCooldown c")
    case False
    then have "steps ev {Stall, Graph} w w'"
      using assms(1) c by (auto simp: process_stall_def rbind_eq_Inr intro: touchWithNeighbours_steps)
    then show ?thesis
      using world_ok_steps steps_no_doom assms(2) by (metis empty_iff insert_iff step_kind.distinct subset_insertI)
  next
    case True
    let ?op = "\<lparr>mo_type = DESTROY, mo_offset = cl_offset c, mo_entity = None, mo_param = Some a\<rparr>"
    let ?w1 = "push_op ?op w"
    have w': "w' = on_cluster (\<lambda>cu. cu\<lparr>cu_stall := uset_erase a (cu_stall cu)\<rparr>) ?w1"
      using assms(1) c True by (auto simp: process_stall_def destroyCell_def)
    have d: "destroys ?w1 = destroys w @ [?op]" "cap (w_ops ?w1) = None"
      using assms(2) by (simp_all add: destroys_def push_op_def bq_push_def bq_full_def world_ok_def)
    have "w_cells ?w1 = w_cells w" "w_cluster ?w1 = w_cluster w"
      by (simp_all add: push_op_def)
    then have "world_ok ?w1"
      using assms(2,3) c d by (auto simp: world_ok_def destroy_ok_def)
    moreover have "steps ev {Graph} ?w1 w'"
      unfolding w' by (rule on_cluster_steps) (auto intro!: cluster_ok_stall dest: cluster_ok_stall(2))
    ultimately show ?thesis
      using world_ok_steps [of ev "{Graph}" ?w1 w'] steps_no_doom [of ev "{Graph}" ?w1 w'] d by auto
  qed
qed

lemma process_stalls_ok:
  assumes "rfold (process_stall ev) as (n, w) = Inr (m, w')" and "world_ok w"
    and "distinct as" and "\<And>a. a \<in> set as \<Longrightarrow> Some a \<notin> mo_param ` set (destroys w)"
  shows "world_ok w'"
  using assms
proof (induction as arbitrary: n w)
  case (Cons a as)
  then obtain n1 w1 where *: "process_stall ev a (n, w) = Inr (n1, w1)" "rfold (process_stall ev) as (n1, w1) = Inr (m, w')"
    by (auto simp: rbind_eq_Inr)
  then have "world_ok w1" "mo_param ` set (destroys w1) \<subseteq> insert (Some a) (mo_param ` set (destroys w))"
    using process_stall_ok Cons.prems(2,4) by (meson list.set_intros(1))+
  then show ?case
    using Cons.IH [OF *(2)] Cons.prems(3,4) by fastforce
qed simp

lemma Cluster_runScheduledOperations_ok:
  assumes "Cluster_runScheduledOperations ev w = Inr w'" and "world_ok w" and "destroys w = []"
  shows "world_ok w'"
proof -
  let ?f = "\<lambda>cu. cu\<lparr>cu_ops := (cu_ops cu)\<lparr>items := []\<rparr>\<rparr>"
  let ?g = "\<lambda>cu. cu\<lparr>cu_numStallCandidates := of_nat (length (cu_stall cu))\<rparr>"
  obtain w1 w2 w3 n w4 where
    *: "rfold cluster_op (items (cu_ops (w_cluster w))) (on_cluster ?f w) = Inr w1"
      "rfold (keep_cells ev) (cu_keepers (w_cluster w1)) w1 = Inr w2"
      "rfold stall_candidate (cu_old (w_cluster w2)) w2 = Inr w3" "processStallCells ev w3 = Inr (n, w4)"
      "w' = on_cluster (\<lambda>cu. cu\<lparr>cu_numStall := n\<rparr>) w4"
    using assms(1) by (auto simp: Cluster_runScheduledOperations_def rbind_eq_Inr)
  let ?K = "{Stall, Graph}"
  have "steps ev ?K w (on_cluster ?f w)" "steps ev ?K w4 w'" "steps ev ?K w3 (on_cluster ?g w3)"
    unfolding *(5) by (auto intro!: on_cluster_steps)
  moreover have "steps ev ?K (on_cluster ?f w) w1" "steps ev ?K w1 w2" "steps ev ?K w2 w3"
    using *(1-3) reaches_rfold [of _ ev ?K cluster_op] reaches_rfold [of _ ev ?K "keep_cells ev"]
      reaches_rfold [of _ ev ?K stall_candidate] reaches_cluster_op [of ?K ev] reaches_keep_cells [of ?K ev]
      reaches_stall_candidate [of ?K ev] unfolding reaches_def by blast+
  ultimately have "steps ev ?K w (on_cluster ?g w3)" and e: "steps ev ?K w4 w'"
    by (meson steps_trans)+
  then have ok: "world_ok (on_cluster ?g w3)" "destroys (on_cluster ?g w3) = []"
    using world_ok_steps steps_no_doom assms(2,3) by auto
  then have "distinct (cu_stall (w_cluster w3))"
    by (auto simp: world_ok_def cluster_ok_def)
  then have "world_ok w4"
    using *(4) ok process_stalls_ok by (auto simp: processStallCells_def)
  then show ?thesis using e world_ok_steps by auto
qed

text \<open>
  C1. The index of cells is exact at all times: a world in which every offset of the index leads
  to a live cell with that offset, every live cell is found under its offset, and every queued
  destruction names a live cell once, is again such a world after an update and a cleanup of the
  map, whatever entities were added, removed and moved. Cells are neither duplicated
  nor lost, and no cell is destroyed twice. Handlers of works may use the same operations.
\<close>

theorem map_round_invariant:
  assumes "world_ok w" and "program_within ev tick_kinds pg"
    and "Map_update ev pg elapsed w = Inr w1" and "Map_cleanup ev elapsed w1 = Inr w2"
  shows "world_ok w1 \<and> world_ok w2 \<and> destroys w1 = []"
proof -
  obtain w0 where w0: "Map_runScheduledOperations ev w = Inr w0"
    and u: "Cluster_update ev (MapAwareEntity_update ev pg elapsed) w0 = Inr w1"
    using assms(3) by (auto simp: Map_update_def rbind_eq_Inr)
  have 0: "world_ok w0" "destroys w0 = []"
    using Map_runScheduledOperations_ok [OF w0 assms(1)] assms(1) by (auto simp: world_ok_def destroys_def)
  have "steps ev tick_kinds w0 w1"
    using u reaches_update [of tick_kinds ev pg w0 elapsed] assms(2) by (simp add: reaches_def)
  then have 1: "world_ok w1" "destroys w1 = []"
    using 0 world_ok_steps steps_no_doom by (auto simp: tick_kinds_def update_kinds_def)
  obtain w1' where w1': "Cluster_cleanup elapsed w1 = Inr w1'" "Cluster_runScheduledOperations ev w1' = Inr w2"
    using assms(4) by (auto simp: Map_cleanup_def rbind_eq_Inr)
  have "steps ev {Queue, Request, Tree, Stall, Graph} w1 w1'"
    using w1'(1) reaches_Cluster_cleanup [of _ ev w1 elapsed] by (auto simp: reaches_def)
  then have "world_ok w1'" "destroys w1' = []"
    using 1 world_ok_steps steps_no_doom by auto
  then show ?thesis
    using 1 Cluster_runScheduledOperations_ok [OF w1'(2)] by simp
qed

end
