(* ===== verification/Components.thy ===== *)
theory Components
  imports Cluster
begin

text \<open>
  What the cluster relies on of \<^verbatim>\<open>boost::connected_components\<close>, as a locale: the vertices are
  numbered by component from zero, two vertices have the same number exactly when a path joins
  them, and the number of components is returned. From it, the grouping of the cells by
  component visits every cell once. The components computed by merging labels satisfy it.
\<close>

definition linked :: "(nat \<times> nat) list \<Rightarrow> (nat \<times> nat) set" where
  "linked es = (set es \<union> (set es)\<inverse>)\<^sup>*"

locale connected_components =
  fixes components :: "nat \<Rightarrow> (nat \<times> nat) list \<Rightarrow> nat list \<times> nat"
  assumes length_components: "length (fst (components n es)) = n"
    and component_bound: "i < n \<Longrightarrow> fst (components n es) ! i < snd (components n es)"
    and components_le: "snd (components n es) \<le> n"
    and same_component: "set es \<subseteq> {..<n} \<times> {..<n} \<Longrightarrow> i < n \<Longrightarrow> j < n \<Longrightarrow>
      fst (components n es) ! i = fst (components n es) ! j \<longleftrightarrow> (i, j) \<in> linked es"

section \<open>Grouping\<close>

lemma group_cells_eq:
  "group_cells comps vs by k = by k @ map fst (filter (\<lambda>(a, v). comps ! v = k) vs)"
proof (induction vs arbitrary: "by")
  case (Cons x vs)
  obtain a v where x: "x = (a, v)" by fastforce
  have "group_cells comps (x # vs) by k = group_cells comps vs (by(comps ! v := by (comps ! v) @ [a])) k"
    by (simp add: group_cells_def x)
  then show ?case using Cons.IH by (simp add: x)
qed (simp add: group_cells_def)

lemma distinct_concat_filter:
  assumes "distinct (map fst vs)"
  shows "distinct (concat (map (\<lambda>k. map fst (filter (\<lambda>(a, v). f v = k) vs)) [0..<n]))"
proof (induction n)
  case (Suc n)
  have "distinct (map fst (filter (\<lambda>(a, v). f v = n) vs))"
    using assms by (rule distinct_map_filter)
  moreover have "a \<notin> fst ` set (filter (\<lambda>(a, v). f v = n) vs)"
    if "(a, v) \<in> set vs" "f v < n" for a v
    using that assms by (auto dest: eq_key_imp_eq_value)
  ultimately show ?case using Suc by (auto simp: image_iff) blast
qed simp

context connected_components
begin

lemma cluster_cells_grouped:
  assumes "distinct (map fst (cu_vertices cu))" and "\<And>a v. (a, v) \<in> set (cu_vertices cu) \<Longrightarrow> v < cu_nv cu"
    and "cu_nv cu < 65536" and "cu_cellsByCluster cu = (\<lambda>_. [])"
  shows "distinct (cluster_cells (grouped components cu))" and "set (cluster_cells (grouped components cu)) = fst ` set (cu_vertices cu)"
proof -
  let ?c = "fst (components (cu_nv cu) (cu_edges cu))" and ?n = "snd (components (cu_nv cu) (cu_edges cu))"
  have "?n < 65536" using components_le [of "cu_nv cu" "cu_edges cu"] assms(3) by simp
  then have "unat (of_nat ?n :: uint16) = ?n" by (simp add: unat_of_nat)
  then have e: "cluster_cells (grouped components cu) = concat (map (\<lambda>k. map fst (filter (\<lambda>(a, v). ?c ! v = k) (cu_vertices cu))) [0..<?n])"
    by (simp add: cluster_cells_def grouped_def Let_def split_def group_cells_eq [abs_def] assms(4))
  show "distinct (cluster_cells (grouped components cu))"
    unfolding e using assms(1) by (rule distinct_concat_filter)
  have "?c ! v < ?n" if "(a, v) \<in> set (cu_vertices cu)" for a v
    using component_bound assms(2) that by blast
  then show "set (cluster_cells (grouped components cu)) = fst ` set (cu_vertices cu)"
    unfolding e by force
qed

lemma joined_same_group:
  assumes "set (cu_edges cu) \<subseteq> {..<cu_nv cu} \<times> {..<cu_nv cu}" and "\<And>a v. (a, v) \<in> set (cu_vertices cu) \<Longrightarrow> v < cu_nv cu"
    and "cu_cellsByCluster cu = (\<lambda>_. [])" and "distinct (map fst (cu_vertices cu))"
    and "(a, u) \<in> set (cu_vertices cu)" and "(b, v) \<in> set (cu_vertices cu)"
  shows "(\<exists>k. a \<in> set (cu_cellsByCluster (grouped components cu) k) \<and> b \<in> set (cu_cellsByCluster (grouped components cu) k)) \<longleftrightarrow> (u, v) \<in> linked (cu_edges cu)"
proof -
  let ?c = "fst (components (cu_nv cu) (cu_edges cu))"
  have g: "x \<in> set (cu_cellsByCluster (grouped components cu) k) \<longleftrightarrow> ?c ! i = k" if "(x, i) \<in> set (cu_vertices cu)" for x i k
    using that assms(3,4) by (force simp: grouped_def Let_def split_def group_cells_eq dest: eq_key_imp_eq_value)
  have "u < cu_nv cu" "v < cu_nv cu" using assms(2,5,6) by auto
  then show ?thesis
    using g [OF assms(5)] g [OF assms(6)] same_component [OF assms(1), of u v] by metis
qed

end

section \<open>A reference implementation\<close>

definition merge :: "nat \<times> nat \<Rightarrow> nat list \<Rightarrow> nat list" where
  "merge e ls = map (\<lambda>l. if l = ls ! snd e then ls ! fst e else l) ls"

definition labels :: "nat \<Rightarrow> (nat \<times> nat) list \<Rightarrow> nat list" where
  "labels n es = foldr merge es [0..<n]"

definition number :: "nat list \<Rightarrow> nat list \<times> nat" where
  "number ls = (map (\<lambda>l. length (takeWhile (\<lambda>k. k \<noteq> l) (remdups ls))) ls, length (remdups ls))"

definition components_by_merging :: "nat \<Rightarrow> (nat \<times> nat) list \<Rightarrow> nat list \<times> nat" where
  "components_by_merging n es = number (labels n es)"

lemma length_labels: "length (labels n es) = n"
  by (induction es) (simp_all add: labels_def merge_def)

lemma linked_Cons:
  "(i, j) \<in> linked ((u, v) # es) \<longleftrightarrow>
     (i, j) \<in> linked es \<or> (i, u) \<in> linked es \<and> (v, j) \<in> linked es \<or> (i, v) \<in> linked es \<and> (u, j) \<in> linked es"
  (is "?l \<longleftrightarrow> ?r")
proof
  have sym: "(y, x) \<in> linked es" if "(x, y) \<in> linked es" for x y
  proof -
    have "sym (linked es)" unfolding linked_def by (rule sym_rtrancl) (auto simp: sym_def)
    then show ?thesis using that by (rule symD)
  qed
  have trans: "(x, z) \<in> linked es" if "(x, y) \<in> linked es" "(y, z) \<in> linked es" for x y z
    using that unfolding linked_def by (rule rtrancl_trans)
  assume ?l
  then have "(i, j) \<in> (set ((u, v) # es) \<union> (set ((u, v) # es))\<inverse>)\<^sup>*" by (simp add: linked_def)
  then show ?r
  proof (induction rule: rtrancl_induct)
    case base
    then show ?case by (simp add: linked_def)
  next
    case (step y z)
    from step.hyps(2) consider "(y, z) \<in> linked es" | "y = u" "z = v" | "y = v" "z = u"
      by (auto simp: linked_def)
    then show ?case
    proof cases
      case 1
      with step.IH show ?thesis using trans by blast
    next
      case 2
      moreover have "(v, v) \<in> linked es" by (simp add: linked_def)
      ultimately show ?thesis using step.IH trans sym by blast
    next
      case 3
      moreover have "(u, u) \<in> linked es" by (simp add: linked_def)
      ultimately show ?thesis using step.IH trans sym by blast
    qed
  qed
next
  let ?R = "set ((u, v) # es) \<union> (set ((u, v) # es))\<inverse>"
  have "linked es \<subseteq> ?R\<^sup>*" unfolding linked_def by (rule rtrancl_mono) auto
  moreover have "(u, v) \<in> ?R\<^sup>*" "(v, u) \<in> ?R\<^sup>*" by auto
  moreover assume ?r
  ultimately have "(i, j) \<in> ?R\<^sup>*" by (blast intro: rtrancl_trans)
  then show ?l by (simp add: linked_def)
qed

lemma labels_linked:
  assumes "set es \<subseteq> {..<n} \<times> {..<n}" and "i < n" and "j < n"
  shows "labels n es ! i = labels n es ! j \<longleftrightarrow> (i, j) \<in> linked es"
  using assms
proof (induction es arbitrary: i j)
  case Nil
  then show ?case by (simp add: labels_def linked_def)
next
  case (Cons e es)
  obtain u v where e: "e = (u, v)" "u < n" "v < n" using Cons.prems(1) by fastforce
  let ?l = "labels n es"
  have IH: "?l ! x = ?l ! y \<longleftrightarrow> (x, y) \<in> linked es" if "x < n" "y < n" for x y
    using Cons.IH that Cons.prems(1) by simp
  have m: "labels n (e # es) ! x = (if ?l ! x = ?l ! v then ?l ! u else ?l ! x)" if "x < n" for x
    using that by (simp add: labels_def merge_def e(1)) (simp add: length_labels [unfolded labels_def])
  have "labels n (e # es) ! i = labels n (e # es) ! j \<longleftrightarrow>
      ?l ! i = ?l ! j \<or> ?l ! i = ?l ! u \<and> ?l ! v = ?l ! j \<or> ?l ! i = ?l ! v \<and> ?l ! u = ?l ! j"
    using m Cons.prems(2,3) by auto
  also have "\<dots> \<longleftrightarrow> (i, j) \<in> linked (e # es)"
    unfolding e(1) linked_Cons using IH Cons.prems(2,3) e(2,3) by simp
  finally show ?case .
qed

lemma takeWhile_neq_less: "x \<in> set xs \<Longrightarrow> length (takeWhile (\<lambda>k. k \<noteq> x) xs) < length xs"
  by (induction xs) auto

lemma takeWhile_neq_inj:
  assumes "x \<in> set xs" and "y \<in> set xs"
  shows "length (takeWhile (\<lambda>k. k \<noteq> x) xs) = length (takeWhile (\<lambda>k. k \<noteq> y) xs) \<longleftrightarrow> x = y"
proof
  have "xs ! length (takeWhile (\<lambda>k. k \<noteq> z) xs) = z" if "z \<in> set xs" for z
    using nth_length_takeWhile [of "\<lambda>k. k \<noteq> z" xs] takeWhile_neq_less [OF that] by simp
  then show "length (takeWhile (\<lambda>k. k \<noteq> x) xs) = length (takeWhile (\<lambda>k. k \<noteq> y) xs) \<Longrightarrow> x = y"
    using assms by metis
qed simp

interpretation merging: connected_components components_by_merging
proof
  fix n i j :: nat and es
  show "length (fst (components_by_merging n es)) = n"
    by (simp add: components_by_merging_def number_def length_labels)
  show "snd (components_by_merging n es) \<le> n"
    using length_remdups_leq [of "labels n es"] by (simp add: components_by_merging_def number_def length_labels)
  have mem: "labels n es ! k \<in> set (remdups (labels n es))" if "k < n" for k
    using that by (simp add: length_labels)
  then show "i < n \<Longrightarrow> fst (components_by_merging n es) ! i < snd (components_by_merging n es)"
    by (auto simp: components_by_merging_def number_def length_labels intro!: takeWhile_neq_less)
  show "fst (components_by_merging n es) ! i = fst (components_by_merging n es) ! j \<longleftrightarrow> (i, j) \<in> linked es"
    if "set es \<subseteq> {..<n} \<times> {..<n}" "i < n" "j < n"
    using takeWhile_neq_inj [OF mem [OF that(2)] mem [OF that(3)]] labels_linked [OF that] that
    by (simp add: components_by_merging_def number_def length_labels)
qed

end
