(* ===== verification/Activation.thy ===== *)
theory Activation
  imports Map_Invariants Components
begin

text \<open>
  Which cells are active in a round and how the graph joins them. In a calm world, where no
  cell is on cooldown, every registered cell is in the set of stalled cells and these are alive, creating and
  keeping cells never faults, activates the cell with all its existing neighbours and joins
  them by edges. What \<^verbatim>\<open>boost::connected_components\<close> promises is a locale, which the components
  computed by relabelling satisfy.
\<close>

section \<open>Calm worlds\<close>

definition calm :: "world \<Rightarrow> bool" where
  "calm w \<longleftrightarrow> map_ok w \<and> cluster_ok (w_cluster w) \<and> (\<forall>a \<in> set (cu_stall (w_cluster w)). w_cells w a \<noteq> None)
     \<and> (\<forall>a c. w_cells w a = Some c \<longrightarrow> \<not> cl_isOnCooldown c \<and> (cl_isRegistered c \<longrightarrow> a \<in> set (cu_stall (w_cluster w))))"

lemma calm_map_ok: "calm w \<Longrightarrow> map_ok w"
  by (simp add: calm_def)

text \<open>What later touches keep: active cells, their vertices and the edges; a stalled cell stays stalled or becomes active.\<close>

definition grows :: "cluster \<Rightarrow> cluster \<Rightarrow> bool" where
  "grows cu cu' \<longleftrightarrow> set (cu_current cu) \<subseteq> set (cu_current cu') \<and> set (cu_edges cu) \<subseteq> set (cu_edges cu')
     \<and> set (cu_stall cu) \<subseteq> set (cu_stall cu') \<union> set (cu_current cu')
     \<and> (\<forall>a\<in>set (cu_current cu). map_of (cu_vertices cu') a = map_of (cu_vertices cu) a)
     \<and> cu_keepers cu' = cu_keepers cu \<and> cu_ops cu' = cu_ops cu \<and> cu_old cu' = cu_old cu"

lemma grows_refl [simp]: "grows cu cu"
  by (simp add: grows_def)

lemma grows_trans: "grows a b \<Longrightarrow> grows b c \<Longrightarrow> grows a c"
  by (auto simp: grows_def)

definition joined :: "cluster \<Rightarrow> addr \<Rightarrow> addr \<Rightarrow> bool" where
  "joined cu a b \<longleftrightarrow> a \<in> set (cu_current cu) \<and> b \<in> set (cu_current cu)
     \<and> (the (map_of (cu_vertices cu) a), the (map_of (cu_vertices cu) b)) \<in> set (cu_edges cu)"

lemma joined_grows: "joined cu a b \<Longrightarrow> grows cu cu' \<Longrightarrow> joined cu' a b"
  by (auto simp: joined_def grows_def)

text \<open>The steps of touching leave everything but stall flags and the cluster alone.\<close>

lemma steps_frame:
  assumes "steps ev K w w'" and "K \<subseteq> {Stall, Graph}"
  shows "w_index w' = w_index w \<and> w_next w' = w_next w \<and> w_entities w' = w_entities w \<and> w_ops w' = w_ops w
    \<and> w_packets w' = w_packets w \<and> w_sent w' = w_sent w \<and> w_rx w' = w_rx w"
  using assms(1)
proof (rule steps_invariant [where P = "\<lambda>v. w_index v = w_index w \<and> w_next v = w_next w \<and> w_entities v = w_entities w
    \<and> w_ops v = w_ops w \<and> w_packets v = w_packets w \<and> w_sent v = w_sent w \<and> w_rx v = w_rx w"])
  fix k v v'
  assume "k \<in> K" "world_step ev k v v'" "w_index v = w_index w \<and> w_next v = w_next w \<and> w_entities v = w_entities w
    \<and> w_ops v = w_ops w \<and> w_packets v = w_packets w \<and> w_sent v = w_sent w \<and> w_rx v = w_rx w"
  then show "w_index v' = w_index w \<and> w_next v' = w_next w \<and> w_entities v' = w_entities w
    \<and> w_ops v' = w_ops w \<and> w_packets v' = w_packets w \<and> w_sent v' = w_sent w \<and> w_rx v' = w_rx w"
    using assms(2) by (elim world_stepE) auto
qed simp

lemma steps_dom:
  assumes "steps ev {Stall, Graph} w w'"
  shows "w_cells w' b = None \<longleftrightarrow> w_cells w b = None"
  using assms
proof (rule steps_invariant [where P = "\<lambda>v. w_cells v b = None \<longleftrightarrow> w_cells w b = None"])
  fix k v v' assume "k \<in> {Stall, Graph}" "world_step ev k v v'" "w_cells v b = None \<longleftrightarrow> w_cells w b = None"
  then show "w_cells v' b = None \<longleftrightarrow> w_cells w b = None"
    by (elim world_stepE) auto
qed simp

lemma steps_get:
  "steps ev {Stall, Graph} w w' \<Longrightarrow> get w' = get w"
  using steps_frame [of ev "{Stall, Graph}" w w'] by (simp add: get_def fun_eq_iff)

section \<open>Touching\<close>

lemma grows_insert:
  assumes "cluster_ok cu"
  shows "grows cu (case uset_insert a (cu_current cu) of
           (cur, new) \<Rightarrow> if new then add_vertex a (cu\<lparr>cu_current := cur\<rparr>) else cu)"
    and "a \<in> set (cu_current (case uset_insert a (cu_current cu) of
           (cur, new) \<Rightarrow> if new then add_vertex a (cu\<lparr>cu_current := cur\<rparr>) else cu))"
    and "cu_stall (case uset_insert a (cu_current cu) of
           (cur, new) \<Rightarrow> if new then add_vertex a (cu\<lparr>cu_current := cur\<rparr>) else cu) = cu_stall cu"
  by (auto simp: uset_insert_def grows_def add_vertex_def map_of_AList_update)

lemma touch_calm:
  assumes "calm w" and "w_cells w a = Some c"
  obtains w' where "touch ev isStall a w = Inr (True, w')" and "calm w'"
    and "grows (w_cluster w) (w_cluster w')" and "a \<in> set (cu_current (w_cluster w'))"
proof -
  have c: "\<not> cl_isOnCooldown c" "cl_isRegistered c \<Longrightarrow> a \<in> set (cu_stall (w_cluster w))"
    and ok: "map_ok w" "cluster_ok (w_cluster w)"
    using assms by (auto simp: calm_def)
  let ?f = "\<lambda>cu. case uset_insert a (cu_current cu) of
      (cur, new) \<Rightarrow> if new then add_vertex a (cu\<lparr>cu_current := cur\<rparr>) else cu"
  let ?w1 = "on_cluster ?f w"
  let ?c = "c\<lparr>cl_isRegistered := False, cl_isOnCooldown := False\<rparr>"
  let ?w2 = "on_cluster (\<lambda>cu. cu\<lparr>cu_stall := uset_erase a (cu_stall cu)\<rparr>) (set_cell a ?c ?w1)"
  define w' where "w' = (if \<not> isStall \<and> cl_isRegistered c then ?w2 else ?w1)"
  have t: "touch ev isStall a w = Inr (True, w')"
    using assms(2) c grows_insert(3) [OF ok(2), of a]
    by (simp add: touch_def Let_def w'_def erase_stall_def del: on_cluster_sel) (auto simp: on_cluster_def)
  have "steps ev {Stall, Graph} w w'"
    using t by (rule touch_steps) simp
  then have "map_ok w'" "cluster_ok (w_cluster w')"
    using ok steps_map_ok steps_cluster_ok by blast+
  moreover have "w_cells w' b \<noteq> None" if "b \<in> set (cu_stall (w_cluster w'))" for b
    using that assms grows_insert(3) [OF ok(2), of a] by (auto simp: w'_def calm_def split: if_splits)
  moreover have "\<not> cl_isOnCooldown d \<and> (cl_isRegistered d \<longrightarrow> b \<in> set (cu_stall (w_cluster w')))"
    if "w_cells w' b = Some d" for b d
    using that assms grows_insert(3) [OF ok(2), of a]
    by (auto simp: w'_def calm_def split: if_splits)
  moreover have "grows (w_cluster w) (w_cluster w')" "a \<in> set (cu_current (w_cluster w'))"
    using grows_insert [OF ok(2), of a] by (auto simp: w'_def grows_def)
  ultimately show thesis
    using t that by (auto simp: calm_def)
qed

lemma connect_calm:
  assumes "calm w" and "{a, b} \<subseteq> set (cu_current (w_cluster w))"
  obtains w' where "connect ev a b w = Inr w'" and "calm w'" and "grows (w_cluster w) (w_cluster w')"
    and "joined (w_cluster w') a b"
proof -
  have ok: "cluster_ok (w_cluster w)" using assms(1) by (simp add: calm_def)
  obtain va vb where v: "map_of (cu_vertices (w_cluster w)) a = Some va" "map_of (cu_vertices (w_cluster w)) b = Some vb"
    and lt: "va < cu_nv (w_cluster w)" "vb < cu_nv (w_cluster w)"
    using cluster_ok_current [OF ok, of a] cluster_ok_current [OF ok, of b] assms(2) by auto
  let ?w = "w\<lparr>w_cluster := (w_cluster w)\<lparr>cu_edges := cu_edges (w_cluster w) @ [(va, vb)]\<rparr>\<rparr>"
  have "connect ev a b w = Inr ?w"
    using v by (simp add: connect_def Let_def vertex_of_def)
  moreover have "calm ?w"
    using assms(1) cluster_ok_edge [OF ok lt] by (simp add: calm_def)
  moreover have "grows (w_cluster w) (w_cluster ?w)" "joined (w_cluster ?w) a b"
    using assms(2) v by (auto simp: grows_def joined_def)
  ultimately show thesis using that by blast
qed

text \<open>The state while the neighbours of \<open>a\<close> are touched, from the world \<open>w0\<close> on.\<close>

definition touching :: "addr \<Rightarrow> world \<Rightarrow> world \<Rightarrow> bool" where
  "touching a w0 w \<longleftrightarrow> calm w \<and> cells_kept w0 w \<and> grows (w_cluster w0) (w_cluster w) \<and> a \<in> set (cu_current (w_cluster w))"

lemma touch_neighbour_calm:
  assumes "touching a w0 w" and "nn \<noteq> None \<Longrightarrow> \<exists>c. w_cells w0 (the nn) = Some c"
  shows "\<exists>w'. touch_neighbour ev isStall a nn w = Inr w' \<and> touching a w0 w'
    \<and> grows (w_cluster w) (w_cluster w') \<and> (\<forall>b. nn = Some b \<and> b \<noteq> a \<longrightarrow> joined (w_cluster w') a b)"
proof (cases "nn = None \<or> nn = Some a")
  case True
  then show ?thesis using assms(1) by (auto simp: touch_neighbour_def)
next
  case False
  then obtain b where b: "nn = Some b" "b \<noteq> a" by auto
  obtain c where c: "w_cells w b = Some c"
    using assms b unfolding touching_def cells_kept_def by fastforce
  obtain w1 where w1: "touch ev isStall b w = Inr (True, w1)" "calm w1" "grows (w_cluster w) (w_cluster w1)"
      "b \<in> set (cu_current (w_cluster w1))"
    using touch_calm [OF _ c] assms(1) by (metis touching_def)
  then have "{a, b} \<subseteq> set (cu_current (w_cluster w1))"
    using assms(1) by (auto simp: touching_def grows_def)
  then obtain w2 where w2: "connect ev a b w1 = Inr w2" "calm w2" "grows (w_cluster w1) (w_cluster w2)" "joined (w_cluster w2) a b"
    using connect_calm [OF w1(2)] by blast
  have t: "touch_neighbour ev isStall a nn w = Inr w2"
    using b w1(1) w2(1) by (simp add: touch_neighbour_def)
  have "steps ev {Stall, Graph} w w2"
    using t by (rule touch_neighbour_steps) simp
  then have "cells_kept w w2"
    using steps_cells_kept assms(1) by (auto simp: touching_def calm_def)
  then have "touching a w0 w2"
    using assms(1) w1(3) w2 unfolding touching_def by (meson cells_kept_trans grows_trans joined_def)
  then show ?thesis
    using t b w1(3) w2 by (auto intro: grows_trans)
qed

text \<open>The offsets that \<^verbatim>\<open>inRadius(1)\<close> visits are the cell and its six neighbours.\<close>

lemma inRadius_one: "set (inRadius f p 1) = {f (off_q z) (off_r z) | z. z = p \<or> adjacent z p}"
proof -
  have "set (disk 1) = {(0, 0), (1, -1), (1, 0), (0, 1), (-1, 1), (-1, 0), (0, -1)}"
    by (auto simp: disk_def upto.simps)
  then have "set (inRadius f p 1) =
      (\<lambda>(a, b). f (off_q p + word_of_int a) (off_r p + word_of_int b)) ` {(0, 0), (1, -1), (1, 0), (0, 1), (-1, 1), (-1, 0), (0, -1)}"
    by (simp add: inRadius_eq_disk moved_def image_image)
  also have "\<dots> = (\<lambda>z. f (off_q z) (off_r z)) ` insert p (set (sibling_offsets p))"
    by (auto simp: sibling_offsets_def Let_def)
  finally show ?thesis
    by (auto simp: set_sibling_offsets)
qed

text \<open>Cells that exist next to a cell.\<close>

definition neighbour_cells :: "world \<Rightarrow> offset \<Rightarrow> addr set" where
  "neighbour_cells w p = {b. \<exists>z. adjacent z p \<and> get w (off_q z) (off_r z) = Some b}"

lemma touchWithNeighbours_calm:
  assumes "calm w" and "w_cells w a = Some c"
  obtains w' where "touchWithNeighbours ev isStall (Some a) w = Inr (True, w')" and "calm w'"
    and "grows (w_cluster w) (w_cluster w')" and "a \<in> set (cu_current (w_cluster w'))"
    and "\<And>b. b \<in> neighbour_cells w (cl_offset c) \<Longrightarrow> joined (w_cluster w') a b"
proof -
  obtain w1 where w1: "touch ev isStall a w = Inr (True, w1)" "calm w1" "grows (w_cluster w) (w_cluster w1)"
      "a \<in> set (cu_current (w_cluster w1))"
    using touch_calm [OF assms] by metis
  have s1: "steps ev {Stall, Graph} w w1"
    using w1(1) by (rule touch_steps) simp
  then have g: "get w1 = get w" by (rule steps_get)
  have "cells_kept w w1"
    using steps_cells_kept [OF s1] assms(1) by (simp add: calm_def)
  then obtain c1 where c1: "w_cells w1 a = Some c1" "cl_offset c1 = cl_offset c"
    using assms(2) by (rule cells_keptE)
  have live: "\<exists>d. w_cells w1 (the nn) = Some d" if n: "nn \<in> set (inRadius (get w1) (cl_offset c1) 1)" "nn \<noteq> None" for nn
  proof -
    obtain z where "nn = get w1 (off_q z) (off_r z)"
      using n(1) unfolding inRadius_one by blast
    moreover obtain b where "nn = Some b" using n(2) by blast
    ultimately show ?thesis
      using w1(2) map_ok_get [of w1 "off_q z" "off_r z" b] unfolding calm_def by (metis option.sel)
  qed
  let ?Q = "\<lambda>nn v. \<forall>b. nn = Some b \<and> b \<noteq> a \<longrightarrow> joined (w_cluster v) a b"
  have "\<exists>w'. rfold (touch_neighbour ev isStall a) (inRadius (get w1) (cl_offset c1) 1) w1 = Inr w' \<and> touching a w1 w'
      \<and> (\<forall>nn \<in> set (inRadius (get w1) (cl_offset c1) 1). ?Q nn w') \<and> (\<forall>nn. ?Q nn w1 \<longrightarrow> ?Q nn w')"
  proof (rule rfold_establishes [where Q = ?Q])
    show "touching a w1 w1"
      using w1 by (simp add: touching_def cells_kept_def)
    fix nn v
    assume nn: "nn \<in> set (inRadius (get w1) (cl_offset c1) 1)" and v: "touching a w1 v"
    obtain v' where "touch_neighbour ev isStall a nn v = Inr v'" "touching a w1 v'" "?Q nn v'"
        "grows (w_cluster v) (w_cluster v')"
      using touch_neighbour_calm [OF v live [OF nn]] by blast
    then show "\<exists>v'. touch_neighbour ev isStall a nn v = Inr v' \<and> touching a w1 v' \<and> ?Q nn v' \<and> (\<forall>y. ?Q y v \<longrightarrow> ?Q y v')"
      using joined_grows by blast
  qed
  then obtain w' where w': "rfold (touch_neighbour ev isStall a) (inRadius (get w1) (cl_offset c1) 1) w1 = Inr w'"
      "touching a w1 w'" "\<forall>nn \<in> set (inRadius (get w1) (cl_offset c1) 1). ?Q nn w'"
    by blast
  have "touchWithNeighbours ev isStall (Some a) w = Inr (True, w')"
    using w1(1) c1(1) w'(1) by (simp add: touchWithNeighbours_def)
  moreover have "joined (w_cluster w') a b" if b: "b \<in> neighbour_cells w (cl_offset c)" for b
  proof -
    obtain z where z: "adjacent z (cl_offset c)" "get w (off_q z) (off_r z) = Some b"
      using b by (auto simp: neighbour_cells_def)
    then obtain d where "w_cells w b = Some d" "cl_offset d = z"
      using map_ok_get [of w "off_q z" "off_r z" b] assms(1) by (metis calm_def offset.collapse)
    moreover have "z \<noteq> cl_offset c"
      using z(1) by (auto simp: adjacent_iff)
    ultimately have "b \<noteq> a" using assms(2) by auto
    moreover have "Some b \<in> set (inRadius (get w1) (cl_offset c1) 1)"
      using z by (force simp: inRadius_one g c1(2))
    ultimately show ?thesis using w'(3) by blast
  qed
  ultimately show thesis
    using that w' w1(3) by (auto simp: touching_def intro: grows_trans)
qed

section \<open>Creation\<close>

lemma calm_create:
  assumes "calm w" and "get w (off_q p) (off_r p) = None"
  shows "calm ((set_cell (w_next w) (Cell_new ev p) w)\<lparr>w_next := w_next w + 1, w_index := w_index w @ [(p, w_next w)]\<rparr>)"
  using assms map_ok_create [OF _ assms(2)] by (auto simp: calm_def Cell_new_def)

lemma get_append:
  "get w (off_q p) (off_r p) = None \<Longrightarrow>
     get (w'\<lparr>w_index := w_index w @ [(p, a)]\<rparr>) q r = (if Offset q r = p then Some a else get w q r)"
  by (cases p) (auto simp: get_def map_add_def split: option.splits)

text \<open>What creation keeps of the rest of the world.\<close>

definition created :: "world \<Rightarrow> world \<Rightarrow> bool" where
  "created w w' \<longleftrightarrow> calm w' \<and> cells_kept w w' \<and> grows (w_cluster w) (w_cluster w') \<and> w_entities w' = w_entities w
     \<and> w_ops w' = w_ops w \<and> w_sent w' = w_sent w \<and> w_packets w' = w_packets w \<and> w_rx w' = w_rx w
     \<and> (\<forall>q r a. get w q r = Some a \<longrightarrow> get w' q r = Some a)"

lemma created_refl: "calm w \<Longrightarrow> created w w"
  by (simp add: created_def cells_kept_def)

lemma created_trans: "created u v \<Longrightarrow> created v w \<Longrightarrow> created u w"
  unfolding created_def by (metis cells_kept_trans grows_trans)

lemma getOrCreate_calm:
  assumes "calm w"
  obtains a w' where "getOrCreate ev p w = Inr (a, w')" and "created w w'"
    and "\<And>q r. get w' q r = (if Offset q r = p then Some a else get w q r)"
    and "\<And>b. b \<noteq> a \<Longrightarrow> w_cells w' b = None \<longleftrightarrow> w_cells w b = None"
proof (cases "get w (off_q p) (off_r p)")
  case (Some a)
  then have "getOrCreate ev p w = Inr (a, w)" by (simp add: getOrCreate_def)
  moreover have "get w q r = (if Offset q r = p then Some a else get w q r)" for q r
    using Some by auto
  ultimately show thesis using that created_refl [OF assms] by blast
next
  case None
  let ?a = "w_next w"
  let ?w1 = "(set_cell ?a (Cell_new ev p) w)\<lparr>w_next := ?a + 1, w_index := w_index w @ [(p, ?a)]\<rparr>"
  have c1: "calm ?w1" using calm_create [OF assms None] .
  have k1: "cells_kept w ?w1"
    using assms by (auto simp: cells_kept_def calm_def dest: map_ok_live)
  have "w_cells ?w1 ?a = Some (Cell_new ev p)" by simp
  then obtain w' where w': "touchWithNeighbours ev False (Some ?a) ?w1 = Inr (True, w')" "calm w'"
      "grows (w_cluster ?w1) (w_cluster w')"
    using touchWithNeighbours_calm [OF c1] by metis
  have s: "steps ev {Stall, Graph} ?w1 w'"
    using w'(1) by (rule touchWithNeighbours_steps) simp
  have k: "cells_kept ?w1 w'"
    using steps_cells_kept [OF s] c1 by (simp add: calm_def)
  have "getOrCreate ev p w = Inr (?a, w')"
    using None w'(1) by (simp add: getOrCreate_def Let_def onCellCreated_def)
  moreover have g: "get w' q r = (if Offset q r = p then Some ?a else get w q r)" for q r
    unfolding steps_get [OF s] using get_append [OF None] by simp
  moreover have "created w w'"
    using w' cells_kept_trans [OF k1 k] g None steps_frame [OF s]
    by (auto simp: created_def)
  moreover have "w_cells w' b = None \<longleftrightarrow> w_cells w b = None" if "b \<noteq> ?a" for b
    using steps_dom [OF s] that by simp
  ultimately show thesis using that by blast
qed

lemma getOrCreate_all_calm:
  assumes "calm w"
  shows "\<exists>as w'. getOrCreate_all ev ps w = Inr (as, w') \<and> created w w' \<and> length as = length ps
    \<and> (\<forall>i < length ps. get w' (off_q (ps ! i)) (off_r (ps ! i)) = Some (as ! i))
    \<and> (\<forall>q r. get w' q r \<noteq> None \<longleftrightarrow> get w q r \<noteq> None \<or> Offset q r \<in> set ps)"
  using assms
proof (induction ps arbitrary: w)
  case Nil
  then show ?case by (auto intro: created_refl)
next
  case (Cons p ps)
  obtain a w1 where 1: "getOrCreate ev p w = Inr (a, w1)" "created w w1"
      "\<And>q r. get w1 q r = (if Offset q r = p then Some a else get w q r)"
    using getOrCreate_calm [OF Cons.prems] by metis
  obtain as w2 where 2: "getOrCreate_all ev ps w1 = Inr (as, w2)" "created w1 w2" "length as = length ps"
      "\<forall>i < length ps. get w2 (off_q (ps ! i)) (off_r (ps ! i)) = Some (as ! i)"
      "\<forall>q r. get w2 q r \<noteq> None \<longleftrightarrow> get w1 q r \<noteq> None \<or> Offset q r \<in> set ps"
    using Cons.IH [of w1] 1(2) by (auto simp: created_def)
  have "get w2 (off_q p) (off_r p) = Some a"
    using 1(3) 2(2) by (simp add: created_def)
  then have "\<forall>i < length (p # ps). get w2 (off_q ((p # ps) ! i)) (off_r ((p # ps) ! i)) = Some ((a # as) ! i)"
    using 2(4) by (simp add: nth_Cons split: nat.splits)
  moreover have "\<forall>q r. get w2 q r \<noteq> None \<longleftrightarrow> get w q r \<noteq> None \<or> Offset q r \<in> set (p # ps)"
    using 1(3) 2(5) by auto
  moreover have "created w w2"
    using created_trans 1(2) 2(2) by blast
  ultimately show ?case
    using 1(1) 2(1,3) by (intro exI [of _ "a # as"] exI [of _ w2]) simp
qed

end
