(* ===== verification/Entering.thy ===== *)
theory Entering
  imports Activation
begin

text \<open>
  Entities entering the map: in a calm world the queued \<^verbatim>\<open>ADD_ENTITY\<close> operation never faults,
  places the entity, creates the seven cells around it, keeps them active and tells exactly
  those cells.
\<close>

section \<open>Loops over cells\<close>

text \<open>A loop that changes each of several different cells.\<close>

lemma rfold_on_cells:
  assumes "distinct as" and "\<And>a. a \<in> set as \<Longrightarrow> w_cells w a \<noteq> None"
    and "\<And>a v. a \<in> set as \<Longrightarrow> w_entities v = w_entities w \<Longrightarrow> f a v = on_cell a g v"
  shows "rfold f as w = Inr (w\<lparr>w_cells := \<lambda>b. if b \<in> set as then map_option g (w_cells w b) else w_cells w b\<rparr>)"
  using assms
proof (induction as arbitrary: w)
  case (Cons a as)
  obtain c where c: "w_cells w a = Some c" using Cons.prems(2) by fastforce
  let ?w = "set_cell a (g c) w"
  have "f a w = Inr ?w"
    using Cons.prems(3) [of a w] c by simp
  moreover have "rfold f as ?w = Inr (?w\<lparr>w_cells := \<lambda>b. if b \<in> set as then map_option g (w_cells ?w b) else w_cells ?w b\<rparr>)"
    using Cons.prems by (intro Cons.IH) auto
  moreover have "(\<lambda>b. if b \<in> set as then map_option g (w_cells ?w b) else w_cells ?w b) =
      (\<lambda>b. if b \<in> set (a # as) then map_option g (w_cells w b) else w_cells w b)"
    using Cons.prems(1) c by (auto simp: fun_eq_iff)
  ultimately show ?case by (simp add: set_cell_def)
qed simp

lemma on_cell_comp: "rbind (on_cell a f w) (on_cell a g) = on_cell a (\<lambda>c. g (f c)) w"
  by (cases "w_cells w a") (simp_all add: on_cell_def cell_at_def set_cell_def)

definition ask :: "addr \<Rightarrow> request_type \<Rightarrow> cell \<Rightarrow> cell" where
  "ask e t c = c\<lparr>cl_requests := cl_requests c @ [\<lparr>rq_who = e, rq_type = t\<rparr>]\<rparr>"

lemma Cell_request_eq:
  "w_entities w e = Some x \<Longrightarrow> en_client x \<noteq> None \<Longrightarrow> Cell_request ev a e t w = on_cell a (ask e t) w"
  unfolding Cell_request_def ask_def [abs_def] by auto

text \<open>What a cell that is told about an entity holds afterwards.\<close>

definition told :: "addr \<Rightarrow> packet_ptr \<Rightarrow> bool \<Rightarrow> request_type \<Rightarrow> cell \<Rightarrow> cell" where
  "told e p client t c = (if client then ask e t (push_broadcast p c) else push_broadcast p c)"

lemma Map_broadcast_told:
  assumes "distinct as" and "\<And>a. a \<in> set as \<Longrightarrow> w_cells w a \<noteq> None" and "w_entities w e = Some x"
  shows "Map_broadcast as p (\<lambda>a w. if en_client x \<noteq> None then Cell_request ev a e t w else Inr w) w =
    Inr (w\<lparr>w_cells := \<lambda>b. if b \<in> set as then map_option (told e p (en_client x \<noteq> None) t) (w_cells w b) else w_cells w b\<rparr>)"
  unfolding Map_broadcast_def
proof (rule rfold_on_cells [OF assms(1,2)])
  fix a and v :: world assume a: "w_entities v = w_entities w"
  show "rbind (Cell_broadcast a p v) (\<lambda>v. if en_client x \<noteq> None then Cell_request ev a e t v else Inr v)
      = on_cell a (told e p (en_client x \<noteq> None) t) v"
  proof (cases "en_client x = None")
    case True
    then show ?thesis
      by (cases "w_cells v a") (simp_all add: Cell_broadcast_def on_cell_def cell_at_def told_def [abs_def])
  next
    case False
    have "rbind (Cell_broadcast a p v) (Cell_request ev a e t) = rbind (Cell_broadcast a p v) (on_cell a (ask e t))"
      using False a assms(3)
      by (intro rbind_cong) (auto simp: Cell_broadcast_def world_simps Cell_request_eq)
    with False show ?thesis
      by (simp add: Cell_broadcast_def on_cell_comp told_def [abs_def])
  qed
qed

section \<open>Creation of the surroundings\<close>

lemma sibling_cells_calm:
  assumes "calm w" and "w_cells w a = Some c"
  obtains as w' where "createSiblings ev a w = Inr (as, w')" and "created w w'"
    and "distinct (as @ [a])" and "set as = neighbour_cells w' (cl_offset c)" and "length as = 6"
    and "\<And>q r. get w' q r \<noteq> None \<longleftrightarrow> get w q r \<noteq> None \<or> adjacent (Offset q r) (cl_offset c)"
proof -
  let ?ps = "sibling_offsets (cl_offset c)"
  obtain as w' where 1: "getOrCreate_all ev ?ps w = Inr (as, w')" "created w w'" "length as = length ?ps"
      "\<forall>i < length ?ps. get w' (off_q (?ps ! i)) (off_r (?ps ! i)) = Some (as ! i)"
      "\<forall>q r. get w' q r \<noteq> None \<longleftrightarrow> get w q r \<noteq> None \<or> Offset q r \<in> set ?ps"
    using getOrCreate_all_calm [OF assms(1)] by blast
  have as: "map Some as = map (\<lambda>z. get w' (off_q z) (off_r z)) ?ps"
    using 1(3,4) by (intro nth_equalityI) auto
  have ok: "map_ok w'" using 1(2) by (simp add: created_def calm_def)
  have inj: "inj_on (\<lambda>z. get w' (off_q z) (off_r z)) {z. get w' (off_q z) (off_r z) \<noteq> None}"
    using map_ok_get [OF ok] by (auto simp: inj_on_def) (metis offset.collapse option.inject)
  have "set ?ps \<subseteq> {z. get w' (off_q z) (off_r z) \<noteq> None}"
    using 1(5) by (metis (mono_tags, lifting) mem_Collect_eq offset.collapse subsetI)
  then have "distinct (map Some as)"
    unfolding as using distinct_sibling_offsets inj by (simp add: distinct_map inj_on_subset)
  then have d: "distinct as" by (simp add: distinct_map)
  obtain c' where c': "w_cells w' a = Some c'" "cl_offset c' = cl_offset c"
    using 1(2) assms(2) by (auto simp: created_def elim: cells_keptE)
  have set: "set as = neighbour_cells w' (cl_offset c)"
  proof -
    have "b \<in> set as \<longleftrightarrow> Some b \<in> (\<lambda>z. get w' (off_q z) (off_r z)) ` set ?ps" for b
      using as by (metis (no_types, lifting) image_iff list.set_map option.inject)
    then show ?thesis
      unfolding neighbour_cells_def set_sibling_offsets by (auto simp: image_iff intro: sym)
  qed
  have "a \<notin> set as"
  proof
    assume "a \<in> set as"
    then obtain z where "adjacent z (cl_offset c)" "get w' (off_q z) (off_r z) = Some a"
      by (auto simp: set neighbour_cells_def)
    then have "z = cl_offset c"
      using map_ok_get [OF ok] c' by (metis offset.collapse option.inject)
    with \<open>adjacent z (cl_offset c)\<close> show False by (simp add: adjacent_iff)
  qed
  then show thesis
    using that [of as w'] 1 d set assms(2)
    by (simp add: createSiblings_def set_sibling_offsets) (simp add: sibling_offsets_def Let_def)
qed

text \<open>A cell without its stall state; creation changes nothing else of existing cells.\<close>

definition core :: "cell \<Rightarrow> cell" where
  "core c = c\<lparr>cl_isRegistered := False, cl_isOnCooldown := False, cl_remaining := 0\<rparr>"

lemma core_sel:
  assumes "core c' = core c"
  shows "cl_entities c' = cl_entities c" and "cl_requests c' = cl_requests c" and "cl_clientsCount c' = cl_clientsCount c"
    and "cl_offset c' = cl_offset c" and "cl_queue1 c' = cl_queue1 c" and "cl_queue2 c' = cl_queue2 c"
    and "cl_first c' = cl_first c" and "cl_tree c' = cl_tree c"
  using assms by (cases c; cases c'; simp add: core_def)+

lemma steps_quiet:
  assumes "steps ev K w w'" and "K \<subseteq> {Stall, Graph, Create}" and "map_ok w" and "w_cells w a = Some c"
  shows "\<exists>c'. w_cells w' a = Some c' \<and> core c' = core c"
proof -
  have "map_ok w' \<and> (\<exists>c'. w_cells w' a = Some c' \<and> core c' = core c)"
    using assms(1)
  proof (rule steps_invariant [where P = "\<lambda>v. map_ok v \<and> (\<exists>c'. w_cells v a = Some c' \<and> core c' = core c)"])
    fix k v v'
    assume k: "k \<in> K" and v: "world_step ev k v v'" and P: "map_ok v \<and> (\<exists>c'. w_cells v a = Some c' \<and> core c' = core c)"
    have "\<exists>c'. w_cells v' a = Some c' \<and> core c' = core c"
      using v P k assms(2) map_ok_live(1) [of v a] by (elim world_stepE) (auto simp: core_def)
    then show "map_ok v' \<and> (\<exists>c'. w_cells v' a = Some c' \<and> core c' = core c)"
      using world_step_map_ok [OF v] P by blast
  qed (use assms(3,4) in blast)
  then show ?thesis by blast
qed

lemma createSiblings_quiet:
  assumes "createSiblings ev a w = Inr (as, w')" and "map_ok w" and "w_cells w b = Some c"
  obtains c' where "w_cells w' b = Some c'" and "core c' = core c"
proof -
  have "steps ev {Stall, Graph, Create} w w'"
    using assms(1) by (rule createSiblings_steps) simp
  from steps_quiet [OF this subset_refl assms(2,3)] show thesis
    using that by blast
qed

section \<open>Packets\<close>

text \<open>The virtual \<^verbatim>\<open>spawnPacket\<close> returns null or a packet whose fields fit.\<close>

definition packet_fits :: "env \<Rightarrow> (uint16 \<times> field list) option \<Rightarrow> bool" where
  "packet_fits ev spec \<longleftrightarrow> length (ev_junk_buffer ev) = BUFFER_SIZE
     \<and> (case spec of None \<Rightarrow> True
        | Some (_, fs) \<Rightarrow> list_all field_ok fs \<and> 4 + length (concat (map enc_field fs)) \<le> BUFFER_SIZE)"

lemma new_packet_total:
  assumes "packet_fits ev spec"
  obtains p ps rx where "new_packet ev spec w = Inr (p, w\<lparr>w_packets := w_packets w @ ps, w_rx := rx\<rparr>)"
proof (cases spec)
  case None
  then show thesis using that [where ps = "[]" and rx = "w_rx w"] by (simp add: new_packet_def)
next
  case (Some z)
  obtain opcode fs where z: "z = (opcode, fs)" by fastforce
  have *: "length (ev_junk_buffer ev) = BUFFER_SIZE" "list_all field_ok fs"
      "4 + length (concat (map enc_field fs)) \<le> BUFFER_SIZE"
    using assms Some z by (auto simp: packet_fits_def)
  obtain p where p: "Packet_create opcode (ev_junk_buffer ev) (w_rx w) = Inr (p, onPacketWritten opcode (onPacketCreated (w_rx w)))"
      "pk_wf p" "pk_write p = 4"
    using Packet_create_eq [OF *(1)] by blast
  have "rfold put_field fs p = Inr (appended (concat (map enc_field fs)) p)"
    using put_fields_eq [OF p(2) *(2)] *(3) by (simp add: fits_def p(3))
  then show thesis
    using that p(1) Some z by (simp add: new_packet_def)
qed

section \<open>Adding an entity\<close>

lemma calm_updates [simp]:
  "calm (set_entity e x w) = calm w" "calm (w\<lparr>w_packets := ps, w_rx := rx\<rparr>) = calm w"
  "calm (push_cluster_op op w) = calm w" "calm (w\<lparr>w_ops := ops\<rparr>) = calm w"
  by (simp_all add: calm_def push_cluster_op_def) (simp add: map_ok_def)

lemma calm_cells:
  assumes "calm w" and "\<And>c. cl_offset (g c) = cl_offset c \<and> cl_isOnCooldown (g c) = cl_isOnCooldown c
      \<and> cl_isRegistered (g c) = cl_isRegistered c"
  shows "calm (w\<lparr>w_cells := \<lambda>b. if b \<in> S then map_option g (w_cells w b) else w_cells w b\<rparr>)"
  using assms unfolding calm_def map_ok_def by (auto split: if_splits) (metis assms(2) option.simps(9))+

lemma calm_set_cell:
  assumes "calm w" and "w_cells w a = Some c" and "cl_offset c' = cl_offset c"
    and "cl_isOnCooldown c' = cl_isOnCooldown c" and "cl_isRegistered c' = cl_isRegistered c"
  shows "calm (set_cell a c' w)"
  using assms map_ok_set_cell [of w a c c'] by (auto simp: calm_def)

lemma getOrCreate_entities:
  assumes "getOrCreate ev p w = Inr (a, w')" and "map_ok w" and "w_cells w' a = Some c"
  shows "cl_entities c = [] \<or> (\<exists>d. w_cells w a = Some d \<and> cl_entities c = cl_entities d)"
proof (cases "get w (off_q p) (off_r p)")
  case None
  let ?w = "(set_cell (w_next w) (Cell_new ev p) w)\<lparr>w_next := w_next w + 1, w_index := w_index w @ [(p, w_next w)]\<rparr>"
  have "onCellCreated ev (w_next w) ?w = Inr w'" and a: "a = w_next w"
    using assms(1) None by (auto simp: getOrCreate_def Let_def rbind_eq_Inr)
  then have "steps ev {Stall, Graph, Create} ?w w'"
    using onCellCreated_steps by blast
  moreover have "map_ok ?w" using map_ok_create [OF assms(2) None] .
  ultimately obtain c' where "w_cells w' a = Some c'" "core c' = core (Cell_new ev p)"
    using steps_quiet [of ev _ ?w w' a "Cell_new ev p"] a by auto
  with assms(3) show ?thesis
    using core_sel(1) [of c "Cell_new ev p"] by (simp add: Cell_new_def)
qed (use assms in \<open>auto simp: getOrCreate_def\<close>)

lemma addEntity_calm:
  assumes "calm w" and "w_cells w a = Some c" and "w_entities w e = Some x" and "en_id x \<notin> fst ` set (cl_entities c)"
  obtains c' where "addEntity a e w = Inr (set_cell a c' w)" and "calm (set_cell a c' w)"
    and "cl_entities c' = cl_entities c @ [(en_id x, e)]" and "cl_offset c' = cl_offset c" and "cl_requests c' = cl_requests c"
    and "cl_clientsCount c' = cl_clientsCount c + (if en_client x = None then 0 else 1)"
proof -
  let ?c = "c\<lparr>cl_entities := cl_entities c @ [(en_id x, e)],
      cl_clientsCount := cl_clientsCount c + (if en_client x = None then 0 else 1)\<rparr>"
  have "addEntity a e w = Inr (set_cell a ?c w)"
    using assms(2-4) by (auto simp: addEntity_def Let_def)
  moreover have "calm (set_cell a ?c w)"
    using assms(1,2) by (rule calm_set_cell) simp_all
  ultimately show thesis using that [of ?c] by simp
qed

lemma told_sel [simp]:
  "cl_entities (told e p b t c) = cl_entities c" "cl_offset (told e p b t c) = cl_offset c"
  "cl_isOnCooldown (told e p b t c) = cl_isOnCooldown c" "cl_isRegistered (told e p b t c) = cl_isRegistered c"
  "cl_clientsCount (told e p b t c) = cl_clientsCount c"
  "cl_requests (told e p b t c) = cl_requests c @ (if b then [\<lparr>rq_who = e, rq_type = t\<rparr>] else [])"
  by (simp_all add: told_def ask_def push_broadcast_def)

text \<open>\<^verbatim>\<open>onAdded\<close> of an entity that comes from nowhere.\<close>

lemma onAdded_calm:
  assumes "calm w" and "w_cells w a = Some c" and "w_entities w e = Some x" and "packet_fits ev (ev_spawn ev e)"
  obtains w' as where "onAdded ev e a None w = Inr (as, w')" and "calm w'"
    and "set as = insert a (neighbour_cells w' (cl_offset c))"
    and "w_entities w' = (w_entities w)(e \<mapsto> x\<lparr>en_cell := Some a\<rparr>)"
    and "\<And>q r. get w' q r \<noteq> None \<longleftrightarrow> get w q r \<noteq> None \<or> adjacent (Offset q r) (cl_offset c)"
    and "\<And>q r b. get w q r = Some b \<Longrightarrow> get w' q r = Some b"
    and "cu_ops (w_cluster w') = cu_ops (w_cluster w)"
    and "\<And>b. b \<in> set as \<Longrightarrow> \<exists>d. w_cells w' b = Some d \<and> (en_client x \<noteq> None \<longrightarrow> \<lparr>rq_who = e, rq_type = SPAWN\<rparr> \<in> set (cl_requests d))"
    and "\<exists>d. w_cells w' a = Some d \<and> cl_entities d = cl_entities c"
proof -
  let ?x = "x\<lparr>en_cell := Some a\<rparr>"
  let ?w1 = "set_entity e ?x w"
  obtain p ps rx where p: "new_packet ev (ev_spawn ev e) ?w1 = Inr (p, ?w1\<lparr>w_packets := w_packets ?w1 @ ps, w_rx := rx\<rparr>)"
    using new_packet_total [OF assms(4)] by blast
  let ?w2 = "?w1\<lparr>w_packets := w_packets ?w1 @ ps, w_rx := rx\<rparr>"
  have w2: "calm ?w2" "w_cells ?w2 a = Some c" "get ?w2 = get w"
    using assms by (simp_all add: get_def fun_eq_iff)
  obtain as w3 where w3: "createSiblings ev a ?w2 = Inr (as, w3)" "created ?w2 w3" "distinct (as @ [a])"
      "set as = neighbour_cells w3 (cl_offset c)"
      "\<And>q r. get w3 q r \<noteq> None \<longleftrightarrow> get w q r \<noteq> None \<or> adjacent (Offset q r) (cl_offset c)"
    using sibling_cells_calm [OF w2(1,2)] w2(3) by metis
  obtain c3 where c3: "w_cells w3 a = Some c3" "core c3 = core c"
    using createSiblings_quiet [OF w3(1) _ w2(2)] w2(1) by (auto simp: calm_def)
  have live: "w_cells w3 b \<noteq> None" if "b \<in> set (as @ [a])" for b
    using that w3(2,4) c3(1) map_ok_get [of w3] by (auto simp: neighbour_cells_def created_def calm_def) (metis option.distinct(1))
  have e3: "w_entities w3 e = Some ?x" "w_entities w3 = (w_entities w)(e \<mapsto> ?x)"
    using w3(2) by (simp_all add: created_def)
  let ?w4 = "w3\<lparr>w_cells := \<lambda>b. if b \<in> set (as @ [a])
      then map_option (told e p (en_client ?x \<noteq> None) SPAWN) (w_cells w3 b) else w_cells w3 b\<rparr>"
  have b: "Map_broadcast (as @ [a]) p (\<lambda>a w. if en_client ?x \<noteq> None then Cell_request ev a e SPAWN w else Inr w) w3 = Inr ?w4"
    by (rule Map_broadcast_told [OF w3(3) live e3(1)])
  define w4 where "w4 = ?w4"
  have sel: "get w4 = get w3" "neighbour_cells w4 = neighbour_cells w3" "w_entities w4 = w_entities w3" "w_cluster w4 = w_cluster w3"
    by (simp_all add: w4_def neighbour_cells_def get_def fun_eq_iff)
  show thesis
  proof (rule that [of "as @ [a]" w4])
    show "onAdded ev e a None w = Inr (as @ [a], w4)"
      using assms(3) p w3(1) e3(1) b by (simp add: onAdded_def getCellsExcluding_def w4_def)
    show "calm w4"
      unfolding w4_def using w3(2) by (intro calm_cells) (simp_all add: created_def)
    show "set (as @ [a]) = insert a (neighbour_cells w4 (cl_offset c))"
      using w3(4) by (simp add: sel)
    show "w_entities w4 = (w_entities w)(e \<mapsto> ?x)"
      by (simp add: sel e3(2))
    show "get w4 q r \<noteq> None \<longleftrightarrow> get w q r \<noteq> None \<or> adjacent (Offset q r) (cl_offset c)" for q r
      unfolding sel(1) by (rule w3(5))
    show "get w q r = Some b \<Longrightarrow> get w4 q r = Some b" for q r b
      using w3(2) w2(3) by (simp add: created_def sel)
    show "cu_ops (w_cluster w4) = cu_ops (w_cluster w)"
      using w3(2) by (simp add: created_def grows_def sel)
    show "\<exists>d. w_cells w4 b = Some d \<and> (en_client x \<noteq> None \<longrightarrow> \<lparr>rq_who = e, rq_type = SPAWN\<rparr> \<in> set (cl_requests d))"
      if b: "b \<in> set (as @ [a])" for b
    proof -
      obtain d where "w_cells w3 b = Some d" using live [OF b] by blast
      then have "w_cells w4 b = Some (told e p (en_client ?x \<noteq> None) SPAWN d)"
        using b by (simp add: w4_def)
      then show ?thesis by simp
    qed
    show "\<exists>d. w_cells w4 a = Some d \<and> cl_entities d = cl_entities c"
      using c3(1) core_sel(1) [OF c3(2)] by (simp add: w4_def)
  qed
qed

text \<open>The first half of \<^verbatim>\<open>ADD_ENTITY\<close>, up to \<^verbatim>\<open>onAdded\<close>.\<close>

lemma run_add_enters:
  assumes "calm w" and "w_entities w e = Some x" and "en_isUpdater x"
    and "\<forall>b c. w_cells w b = Some c \<longrightarrow> en_id x \<notin> fst ` set (cl_entities c)" and "\<not> bq_full (cu_ops (w_cluster w))"
  obtains a w5 c4 where "run_add ev p e None w = rbind (onAdded ev e a None w5) (\<lambda>(_, w). Inr w)" and "calm w5"
    and "w_cells w5 a = Some c4" and "cl_offset c4 = p" and "(en_id x, e) \<in> set (cl_entities c4)"
    and "w_entities w5 = (w_entities w)(e \<mapsto> x\<lparr>en_cell := Some a\<rparr>)"
    and "get w5 (off_q p) (off_r p) = Some a"
    and "\<And>q r. get w5 q r \<noteq> None \<longleftrightarrow> get w q r \<noteq> None \<or> Offset q r = p \<or> adjacent (Offset q r) p"
    and "\<And>q r b. get w q r = Some b \<Longrightarrow> get w5 q r = Some b"
    and "items (cu_ops (w_cluster w5)) = items (cu_ops (w_cluster w)) @ [KEEP e]"
proof -
  obtain a w1 where w1: "getOrCreate ev p w = Inr (a, w1)" "created w w1"
      "\<And>q r. get w1 q r = (if Offset q r = p then Some a else get w q r)"
    using getOrCreate_calm [OF assms(1)] by metis
  have "get w1 (off_q p) (off_r p) = Some a" using w1(3) by simp
  then obtain c1 where c1: "w_cells w1 a = Some c1" "cl_offset c1 = p"
    using w1(2) map_ok_get [of w1 "off_q p" "off_r p" a] by (auto simp: created_def calm_def)
  have fresh: "en_id x \<notin> fst ` set (cl_entities c1)"
    using getOrCreate_entities [OF w1(1) calm_map_ok [OF assms(1)] c1(1)] assms(4) by (metis empty_iff empty_set image_empty)
  let ?x = "x\<lparr>en_cell := Some a\<rparr>"
  let ?w2 = "set_entity e ?x w1"
  have e1: "w_entities w1 = w_entities w" using w1(2) by (simp add: created_def)
  have w2: "calm ?w2" "w_cells ?w2 a = Some c1" "w_entities ?w2 e = Some ?x"
    using w1(2) c1 by (simp_all add: created_def)
  obtain c3 where c3: "addEntity a e ?w2 = Inr (set_cell a c3 ?w2)" "calm (set_cell a c3 ?w2)"
      "cl_entities c3 = cl_entities c1 @ [(en_id x, e)]" "cl_offset c3 = p"
    using addEntity_calm [OF w2] fresh c1(2) by auto
  let ?w3 = "set_cell a c3 ?w2"
  have w3: "w_cells ?w3 a = Some c3" "map_ok ?w3" using c3(2) by (simp_all add: calm_def)
  from w3(1) obtain as w4 where w4: "createSiblings ev a ?w3 = Inr (as, w4)" "created ?w3 w4"
      "\<And>q r. get w4 q r \<noteq> None \<longleftrightarrow> get ?w3 q r \<noteq> None \<or> adjacent (Offset q r) p"
    using sibling_cells_calm [OF c3(2)] c3(4) by metis
  obtain c4 where c4: "w_cells w4 a = Some c4" "core c4 = core c3"
    using createSiblings_quiet [OF w4(1) w3(2,1)] .
  let ?w5 = "push_cluster_op (KEEP e) w4"
  have sel: "w_cells ?w5 = w_cells w4" "w_entities ?w5 = w_entities w4" "get ?w5 = get w4"
    by (simp_all add: push_cluster_op_def get_def fun_eq_iff)
  show thesis
  proof (rule that [of a ?w5 c4])
    show "run_add ev p e None w = rbind (onAdded ev e a None ?w5) (\<lambda>(_, w). Inr w)"
      using assms(2,3) w1(1) e1 c3(1) w2(3) w4(1,2)
      by (simp add: run_add_def created_def Cluster_add_def checkStall_def [abs_def])
    show "calm ?w5" using w4(2) by (simp add: created_def)
    show "cl_offset c4 = p" using core_sel(4) [OF c4(2)] c3(4) by simp
    show "(en_id x, e) \<in> set (cl_entities c4)" using core_sel(1) [OF c4(2)] c3(3) by simp
    show "w_entities ?w5 = (w_entities w)(e \<mapsto> ?x)" using w4(2) e1 by (simp add: created_def sel)
    have "get ?w3 (off_q p) (off_r p) = Some a" using w1(3) [of "off_q p" "off_r p"] by (simp add: get_def)
    then show "get ?w5 (off_q p) (off_r p) = Some a" using w4(2) unfolding created_def sel by blast
    show "get ?w5 q r \<noteq> None \<longleftrightarrow> get w q r \<noteq> None \<or> Offset q r = p \<or> adjacent (Offset q r) p" for q r
      using w4(3) [of q r] w1(3) [of q r] by (simp add: sel get_def)
    show "get ?w5 q r = Some b" if "get w q r = Some b" for q r b
      using that w1(2) w4(2) by (simp add: created_def sel get_def)
    show "items (cu_ops (w_cluster ?w5)) = items (cu_ops (w_cluster w)) @ [KEEP e]"
      using w1(2) w4(2) assms(5) by (simp add: created_def grows_def push_cluster_op_def bq_push_def)
  qed (simp add: sel c4(1))
qed

lemma add_entity_total:
  assumes "calm w" and "w_entities w e = Some x" and "en_isUpdater x"
    and "\<forall>b c. w_cells w b = Some c \<longrightarrow> en_id x \<notin> fst ` set (cl_entities c)"
    and "packet_fits ev (ev_spawn ev e)" and "\<not> bq_full (cu_ops (w_cluster w))"
  shows "\<exists>w' a. run_op ev \<lparr>mo_type = ADD_ENTITY, mo_offset = p, mo_entity = Some e, mo_param = None\<rparr> w = Inr w' \<and> calm w'
    \<and> get w' (off_q p) (off_r p) = Some a
    \<and> (\<exists>c. w_cells w' a = Some c \<and> (en_id x, e) \<in> set (cl_entities c))
    \<and> w_entities w' = (w_entities w)(e \<mapsto> x\<lparr>en_cell := Some a\<rparr>)
    \<and> (\<forall>q r. get w' q r \<noteq> None \<longleftrightarrow> get w q r \<noteq> None \<or> Offset q r = p \<or> adjacent (Offset q r) p)
    \<and> (\<forall>q r b. get w q r = Some b \<longrightarrow> get w' q r = Some b)
    \<and> items (cu_ops (w_cluster w')) = items (cu_ops (w_cluster w)) @ [KEEP e]
    \<and> (\<forall>b \<in> insert a (neighbour_cells w' p). \<exists>c. w_cells w' b = Some c
          \<and> (en_client x \<noteq> None \<longrightarrow> \<lparr>rq_who = e, rq_type = SPAWN\<rparr> \<in> set (cl_requests c)))"
proof (rule run_add_enters [OF assms(1-4,6)])
  fix a w5 c4
  assume w5: "run_add ev p e None w = rbind (onAdded ev e a None w5) (\<lambda>(_, w). Inr w)" "calm w5"
    "w_cells w5 a = Some c4" "cl_offset c4 = p" "(en_id x, e) \<in> set (cl_entities c4)"
    "w_entities w5 = (w_entities w)(e \<mapsto> x\<lparr>en_cell := Some a\<rparr>)" "get w5 (off_q p) (off_r p) = Some a"
    "\<And>q r. get w5 q r \<noteq> None \<longleftrightarrow> get w q r \<noteq> None \<or> Offset q r = p \<or> adjacent (Offset q r) p"
    "\<And>q r b. get w q r = Some b \<Longrightarrow> get w5 q r = Some b"
    "items (cu_ops (w_cluster w5)) = items (cu_ops (w_cluster w)) @ [KEEP e]"
  have x5: "w_entities w5 e = Some (x\<lparr>en_cell := Some a\<rparr>)" by (simp add: w5(6))
  show ?thesis
  proof (rule onAdded_calm [OF w5(2,3) x5 assms(5), unfolded w5(4)])
    fix w6 as6
    assume w6: "onAdded ev e a None w5 = Inr (as6, w6)" "calm w6" "set as6 = insert a (neighbour_cells w6 p)"
      "w_entities w6 = (w_entities w5)(e \<mapsto> x\<lparr>en_cell := Some a, en_cell := Some a\<rparr>)"
      "\<And>q r. get w6 q r \<noteq> None \<longleftrightarrow> get w5 q r \<noteq> None \<or> adjacent (Offset q r) p"
      "\<And>q r b. get w5 q r = Some b \<Longrightarrow> get w6 q r = Some b" "cu_ops (w_cluster w6) = cu_ops (w_cluster w5)"
      "\<And>b. b \<in> set as6 \<Longrightarrow> \<exists>d. w_cells w6 b = Some d
        \<and> (en_client (x\<lparr>en_cell := Some a\<rparr>) \<noteq> None \<longrightarrow> \<lparr>rq_who = e, rq_type = SPAWN\<rparr> \<in> set (cl_requests d))"
      "\<exists>d. w_cells w6 a = Some d \<and> cl_entities d = cl_entities c4"
    have "run_op ev \<lparr>mo_type = ADD_ENTITY, mo_offset = p, mo_entity = Some e, mo_param = None\<rparr> w = Inr w6"
      using w5(1) w6(1) by (simp add: run_op_def)
    moreover have "w_entities w6 = (w_entities w)(e \<mapsto> x\<lparr>en_cell := Some a\<rparr>)"
      by (simp add: w6(4) w5(6))
    moreover have "get w6 q r \<noteq> None \<longleftrightarrow> get w q r \<noteq> None \<or> Offset q r = p \<or> adjacent (Offset q r) p" for q r
      unfolding w6(5) w5(8) by blast
    moreover have "\<exists>c. w_cells w6 b = Some c \<and> (en_client x \<noteq> None \<longrightarrow> \<lparr>rq_who = e, rq_type = SPAWN\<rparr> \<in> set (cl_requests c))"
      if "b \<in> insert a (neighbour_cells w6 p)" for b
      using w6(8) [of b] that w6(3) by simp
    moreover have "\<exists>c. w_cells w6 a = Some c \<and> (en_id x, e) \<in> set (cl_entities c)"
      using w6(9) w5(5) by metis
    moreover have "get w q r = Some b \<Longrightarrow> get w6 q r = Some b" for q r b
      using w5(9) w6(6) by blast
    ultimately show ?thesis
      using w6(2) w6(6) [OF w5(7)] w6(7) w5(10) by (intro exI [of _ w6] exI [of _ a] conjI allI ballI) (assumption | simp)+
  qed
qed


section \<open>Removing an entity\<close>

lemma Map_broadcast_plain:
  assumes "distinct as" and "\<And>a. a \<in> set as \<Longrightarrow> w_cells w a \<noteq> None"
  shows "Map_broadcast as p (\<lambda>_. Inr) w =
    Inr (w\<lparr>w_cells := \<lambda>b. if b \<in> set as then map_option (push_broadcast p) (w_cells w b) else w_cells w b\<rparr>)"
  unfolding Map_broadcast_def
proof (rule rfold_on_cells [OF assms])
  fix a and v :: world
  show "rbind (Cell_broadcast a p v) Inr = on_cell a (push_broadcast p) v"
    by (cases "w_cells v a") (simp_all add: Cell_broadcast_def on_cell_def cell_at_def)
qed

lemma push_broadcast_sel [simp]:
  "cl_entities (push_broadcast p c) = cl_entities c" "cl_offset (push_broadcast p c) = cl_offset c"
  "cl_isOnCooldown (push_broadcast p c) = cl_isOnCooldown c" "cl_isRegistered (push_broadcast p c) = cl_isRegistered c"
  "cl_clientsCount (push_broadcast p c) = cl_clientsCount c" "cl_requests (push_broadcast p c) = cl_requests c"
  by (simp_all add: push_broadcast_def)

text \<open>\<^verbatim>\<open>onRemoved\<close> of an entity that leaves the map.\<close>

lemma onRemoved_calm:
  assumes "calm w" and "w_cells w a = Some c" and "w_entities w e = Some x" and "packet_fits ev (ev_despawn ev e)"
  obtains w' as where "onRemoved ev e a None w = Inr (as, w')" and "calm w'"
    and "w_entities w' = (w_entities w)(e \<mapsto> x\<lparr>en_cell := None\<rparr>)" and "cu_ops (w_cluster w') = cu_ops (w_cluster w)"
    and "\<And>b d. w_cells w b = Some d \<Longrightarrow> \<exists>d'. w_cells w' b = Some d' \<and> cl_entities d' = cl_entities d"
proof -
  let ?w1 = "set_entity e (x\<lparr>en_cell := None\<rparr>) w"
  obtain p ps rx where p: "new_packet ev (ev_despawn ev e) ?w1 = Inr (p, ?w1\<lparr>w_packets := w_packets ?w1 @ ps, w_rx := rx\<rparr>)"
    using new_packet_total [OF assms(4)] by blast
  let ?w2 = "?w1\<lparr>w_packets := w_packets ?w1 @ ps, w_rx := rx\<rparr>"
  have w2: "calm ?w2" "w_cells ?w2 a = Some c" "map_ok ?w2"
    using assms by (simp_all add: calm_map_ok)
  obtain as w3 where w3: "createSiblings ev a ?w2 = Inr (as, w3)" "created ?w2 w3" "distinct (as @ [a])"
      "set as = neighbour_cells w3 (cl_offset c)"
    using sibling_cells_calm [OF w2(1,2)] by metis
  obtain c3 where c3: "w_cells w3 a = Some c3"
    using createSiblings_quiet [OF w3(1) w2(3,2)] by blast
  have live: "w_cells w3 b \<noteq> None" if "b \<in> set (as @ [a])" for b
    using that w3(2,4) c3 map_ok_get [of w3] by (auto simp: neighbour_cells_def created_def calm_def) (metis option.distinct(1))
  define w4 where "w4 = w3\<lparr>w_cells := \<lambda>b. if b \<in> set (as @ [a])
      then map_option (push_broadcast p) (w_cells w3 b) else w_cells w3 b\<rparr>"
  have e3: "w_entities w3 = (w_entities w)(e \<mapsto> x\<lparr>en_cell := None\<rparr>)"
    using w3(2) by (simp add: created_def)
  show thesis
  proof (rule that [of "as @ [a]" w4])
    show "onRemoved ev e a None w = Inr (as @ [a], w4)"
      using assms(3) p w3(1) e3 Map_broadcast_plain [OF w3(3) live]
      by (simp add: onRemoved_def getCellsExcluding_def w4_def)
    show "calm w4"
      unfolding w4_def using w3(2) by (intro calm_cells) (simp_all add: created_def)
    show "\<exists>d'. w_cells w4 b = Some d' \<and> cl_entities d' = cl_entities d" if "w_cells w b = Some d" for b d
    proof -
      have "w_cells ?w2 b = Some d" using that by simp
      then obtain d3 where d3: "w_cells w3 b = Some d3" "core d3 = core d"
        using createSiblings_quiet [OF w3(1) w2(3)] by blast
      then show ?thesis using core_sel(1) [OF d3(2)] by (simp add: w4_def)
    qed
  qed (use w3(2) in \<open>simp_all add: w4_def created_def grows_def\<close>)
qed

lemma removeEntity_calm:
  assumes "calm w" and "w_cells w a = Some c" and "w_entities w e = Some x"
  obtains c' where "removeEntity a e w = Inr (set_cell a c' w)" and "calm (set_cell a c' w)"
    and "cl_entities c' = filter (\<lambda>p. fst p \<noteq> en_id x) (cl_entities c)" and "cl_offset c' = cl_offset c"
proof -
  let ?c = "c\<lparr>cl_entities := filter (\<lambda>p. fst p \<noteq> en_id x) (cl_entities c),
      cl_clientsCount := cl_clientsCount c - (if en_client x = None then 0 else 1)\<rparr>"
  have "removeEntity a e w = Inr (set_cell a ?c w)"
    using assms(2,3) by (auto simp: removeEntity_def Let_def)
  moreover have "calm (set_cell a ?c w)"
    using assms(1,2) by (rule calm_set_cell) simp_all
  ultimately show thesis using that [of ?c] by simp
qed

lemma remove_entity_total:
  assumes "calm w" and "w_entities w e = Some x" and "en_isUpdater x" and "get w (off_q p) (off_r p) = Some a"
    and "packet_fits ev (ev_despawn ev e)" and "\<not> bq_full (cu_ops (w_cluster w))"
  shows "\<exists>w'. run_op ev \<lparr>mo_type = REMOVE_ENTITY, mo_offset = p, mo_entity = Some e, mo_param = None\<rparr> w = Inr w' \<and> calm w'
    \<and> w_entities w' = (w_entities w)(e \<mapsto> x\<lparr>en_cell := None\<rparr>)
    \<and> items (cu_ops (w_cluster w')) = items (cu_ops (w_cluster w)) @ [UNKEEP e]
    \<and> (\<forall>b c. w_cells w b = Some c \<longrightarrow> (\<exists>c'. w_cells w' b = Some c'
          \<and> cl_entities c' = (if b = a then filter (\<lambda>p. fst p \<noteq> en_id x) (cl_entities c) else cl_entities c)))"
proof -
  obtain c where c: "w_cells w a = Some c" using map_ok_get [OF calm_map_ok [OF assms(1)] assms(4)] .
  obtain c1 where c1: "removeEntity a e w = Inr (set_cell a c1 w)" "calm (set_cell a c1 w)"
      "cl_entities c1 = filter (\<lambda>p. fst p \<noteq> en_id x) (cl_entities c)"
    using removeEntity_calm [OF assms(1) c assms(2)] by metis
  let ?w2 = "push_cluster_op (UNKEEP e) (set_cell a c1 w)"
  have w2: "calm ?w2" using c1(2) by simp
  have sel: "w_cells ?w2 = (w_cells w)(a \<mapsto> c1)" "w_entities ?w2 = w_entities w"
    "items (cu_ops (w_cluster ?w2)) = items (cu_ops (w_cluster w)) @ [UNKEEP e]"
    using assms(6) by (simp_all add: push_cluster_op_def bq_push_def)
  show ?thesis
  proof (rule onRemoved_calm [OF w2 _ _ assms(5), of a c1 x])
    fix w' as
    assume w': "onRemoved ev e a None ?w2 = Inr (as, w')" "calm w'" "w_entities w' = (w_entities ?w2)(e \<mapsto> x\<lparr>en_cell := None\<rparr>)"
      "cu_ops (w_cluster w') = cu_ops (w_cluster ?w2)"
      "\<And>b d. w_cells ?w2 b = Some d \<Longrightarrow> \<exists>d'. w_cells w' b = Some d' \<and> cl_entities d' = cl_entities d"
    have "run_op ev \<lparr>mo_type = REMOVE_ENTITY, mo_offset = p, mo_entity = Some e, mo_param = None\<rparr> w = Inr w'"
      using assms(2-4) c1(1) w'(1) by (simp add: run_op_def run_remove_def Cluster_remove_def)
    moreover have "\<exists>d'. w_cells w' b = Some d' \<and> cl_entities d' = (if b = a then filter (\<lambda>p. fst p \<noteq> en_id x) (cl_entities d) else cl_entities d)"
      if "w_cells w b = Some d" for b d
      using w'(5) [of b] that c c1(3) sel(1) by (cases "b = a") auto
    ultimately show ?thesis using w'(2-4) sel by (intro exI [of _ w']) simp
  qed (simp_all add: sel assms(2))
qed


end
