(* ===== verification/Rounds.thy ===== *)
theory Rounds
  imports Entering
begin

text \<open>
  One round of the cluster: which cells it activates, and that the update visits every active
  cell exactly once, with joined cells in the same group.
\<close>

section \<open>Activation of a round\<close>

lemma grows_keepers: "grows cu cu' \<Longrightarrow> cu_keepers cu' = cu_keepers cu" "grows cu cu' \<Longrightarrow> cu_old cu' = cu_old cu"
  by (simp_all add: grows_def)

text \<open>The cells of a keeper: where its entity is.\<close>

definition kept_cell :: "world \<Rightarrow> addr \<Rightarrow> addr \<Rightarrow> bool" where
  "kept_cell w e a \<longleftrightarrow> (\<exists>x. w_entities w e = Some x \<and> en_cell x = Some a)"

definition surrounded :: "world \<Rightarrow> addr \<Rightarrow> world \<Rightarrow> bool" where
  "surrounded w a w' \<longleftrightarrow> a \<in> set (cu_current (w_cluster w'))
     \<and> (\<forall>c. w_cells w a = Some c \<longrightarrow> (\<forall>b \<in> neighbour_cells w (cl_offset c). joined (w_cluster w') a b))"

lemma surrounded_grows: "surrounded w a w' \<Longrightarrow> grows (w_cluster w') (w_cluster w'') \<Longrightarrow> surrounded w a w''"
  unfolding surrounded_def by (metis grows_def joined_grows subsetD)

text \<open>A world between the operations of the round, compared with its beginning.\<close>

definition in_round :: "world \<Rightarrow> world \<Rightarrow> bool" where
  "in_round w0 w \<longleftrightarrow> calm w \<and> grows (w_cluster w0) (w_cluster w) \<and> cells_kept w0 w \<and> get w = get w0
     \<and> w_entities w = w_entities w0 \<and> (\<forall>b. w_cells w b = None \<longleftrightarrow> w_cells w0 b = None)"

lemma in_round_refl: "calm w \<Longrightarrow> in_round w w"
  by (simp add: in_round_def cells_kept_def)

lemma in_round_touch:
  assumes "in_round w0 w" and "w_cells w0 a = Some c0"
  obtains w' where "touchWithNeighbours ev isStall (Some a) w = Inr (True, w')" and "in_round w0 w'"
    and "grows (w_cluster w) (w_cluster w')" and "surrounded w0 a w'"
proof -
  obtain c where c: "w_cells w a = Some c" "cl_offset c = cl_offset c0"
    using assms by (auto simp: in_round_def elim: cells_keptE)
  have calm: "calm w" using assms(1) by (simp add: in_round_def)
  show thesis
  proof (rule touchWithNeighbours_calm [OF calm c(1), of ev isStall])
    fix w'
    assume w': "touchWithNeighbours ev isStall (Some a) w = Inr (True, w')" "calm w'"
      "grows (w_cluster w) (w_cluster w')" "a \<in> set (cu_current (w_cluster w'))"
      "\<And>b. b \<in> neighbour_cells w (cl_offset c) \<Longrightarrow> joined (w_cluster w') a b"
    have s: "steps ev {Stall, Graph} w w'"
      using w'(1) by (rule touchWithNeighbours_steps) simp
    have "cells_kept w w'" using steps_cells_kept [OF s] calm by (simp add: calm_def)
    then have "in_round w0 w'"
      using assms(1) w'(2,3) steps_get [OF s] steps_frame [OF s] steps_dom [OF s]
      by (auto simp: in_round_def intro: grows_trans cells_kept_trans)
    moreover have "neighbour_cells w = neighbour_cells w0"
      using assms(1) by (simp add: in_round_def neighbour_cells_def fun_eq_iff)
    then have "surrounded w0 a w'"
      using w'(4,5) c(2) assms(2) by (simp add: surrounded_def)
    ultimately show thesis using that w'(1,3) by blast
  qed
qed

lemma keep_cells_round:
  assumes "in_round w0 w" and "kept_cell w0 e a" and "w_cells w0 a = Some c"
  shows "\<exists>w'. keep_cells ev e w = Inr w' \<and> in_round w0 w' \<and> surrounded w0 a w' \<and> grows (w_cluster w) (w_cluster w')"
proof -
  obtain x where x: "w_entities w e = Some x" "en_cell x = Some a"
    using assms(1,2) by (auto simp: in_round_def kept_cell_def)
  moreover obtain w' where "touchWithNeighbours ev False (Some a) w = Inr (True, w')" "in_round w0 w'"
      "grows (w_cluster w) (w_cluster w')" "surrounded w0 a w'"
    using in_round_touch [OF assms(1,3)] .
  ultimately show ?thesis by (simp add: keep_cells_def)
qed

lemma keepers_round:
  assumes "calm w" and "\<forall>e \<in> set es. \<exists>a c. kept_cell w e a \<and> w_cells w a = Some c"
  obtains w' where "rfold (keep_cells ev) es w = Inr w'" and "in_round w w'"
    and "\<And>e a. e \<in> set es \<Longrightarrow> kept_cell w e a \<Longrightarrow> surrounded w a w'"
proof -
  let ?Q = "\<lambda>e v. \<forall>a. kept_cell w e a \<longrightarrow> surrounded w a v"
  have "\<exists>w'. rfold (keep_cells ev) es w = Inr w' \<and> in_round w w' \<and> (\<forall>e\<in>set es. ?Q e w') \<and> (\<forall>e. ?Q e w \<longrightarrow> ?Q e w')"
  proof (rule rfold_establishes [where Q = ?Q])
    fix e v assume e: "e \<in> set es" and v: "in_round w v"
    obtain a c where a: "kept_cell w e a" "w_cells w a = Some c" using assms(2) e by blast
    obtain v' where v': "keep_cells ev e v = Inr v'" "in_round w v'" "surrounded w a v'" "grows (w_cluster v) (w_cluster v')"
      using keep_cells_round [OF v a] by blast
    have "b = a" if "kept_cell w e b" for b
      using that a(1) by (auto simp: kept_cell_def)
    then show "\<exists>v'. keep_cells ev e v = Inr v' \<and> in_round w v' \<and> ?Q e v' \<and> (\<forall>y. ?Q y v \<longrightarrow> ?Q y v')"
      using v' surrounded_grows by blast
  qed (rule in_round_refl [OF assms(1)])
  then show thesis using that by blast
qed

definition visited :: "addr \<Rightarrow> world \<Rightarrow> bool" where
  "visited a w \<longleftrightarrow> a \<in> set (cu_current (w_cluster w)) \<union> set (cu_stall (w_cluster w))"

lemma stall_candidate_round:
  assumes "in_round w0 w" and "w_cells w0 a \<noteq> None"
  obtains w' where "stall_candidate a w = Inr w'" and "in_round w0 w'" and "grows (w_cluster w) (w_cluster w')"
    and "visited a w'" and "\<And>b. visited b w \<Longrightarrow> visited b w'"
    and "set (cu_stall (w_cluster w')) \<subseteq> insert a (set (cu_stall (w_cluster w)))"
proof (cases "a \<in> set (cu_current (w_cluster w))")
  case True
  then show thesis using that [of w] assms(1) by (auto simp: stall_candidate_def visited_def)
next
  case False
  obtain c where c: "w_cells w a = Some c"
    using assms by (auto simp: in_round_def elim: cells_keptE)
  let ?st = "fst (uset_insert a (cu_stall (w_cluster w)))"
  let ?w1 = "on_cluster (\<lambda>cu. cu\<lparr>cu_stall := ?st\<rparr>) w"
  let ?c = "c\<lparr>cl_isRegistered := True, cl_isOnCooldown := False, cl_remaining := STALL_TIME\<rparr>"
  define w' where "w' = (if a \<in> set (cu_stall (w_cluster w)) then ?w1 else set_cell a ?c ?w1)"
  have w': "stall_candidate a w = Inr w'"
    using False c by (simp add: stall_candidate_def split_def Let_def w'_def)
  have s: "steps undefined {Stall, Graph} w w'"
    using w' reaches_stall_candidate [of "{Stall, Graph}" undefined w a] by (simp add: reaches_def)
  have sel: "set (cu_stall (w_cluster w')) = insert a (set (cu_stall (w_cluster w)))" "cu_current (w_cluster w') = cu_current (w_cluster w)"
    by (auto simp: w'_def)
  have calm: "calm w" using assms(1) by (simp add: in_round_def)
  have "calm w'"
  proof -
    have "\<not> cl_isOnCooldown d \<and> (cl_isRegistered d \<longrightarrow> b \<in> set (cu_stall (w_cluster w')))" if "w_cells w' b = Some d" for b d
      using that calm unfolding calm_def sel(1) by (auto simp: w'_def split: if_splits)
    then show ?thesis
      using calm steps_map_ok [OF s] steps_cluster_ok [OF s] steps_dom [OF s] c sel(1) by (auto simp: calm_def)
  qed
  moreover have "grows (w_cluster w) (w_cluster w')"
    by (auto simp: w'_def grows_def)
  moreover have "cells_kept w w'" using steps_cells_kept [OF s] calm by (simp add: calm_def)
  ultimately have "in_round w0 w'"
    using assms(1) steps_get [OF s] steps_frame [OF s] steps_dom [OF s] by (auto simp: in_round_def intro: grows_trans cells_kept_trans)
  then show thesis
    using that w' \<open>grows (w_cluster w) (w_cluster w')\<close> sel by (auto simp: visited_def)
qed

lemma stall_candidates_round:
  assumes "in_round w0 w" and "\<forall>a \<in> set as \<union> set (cu_stall (w_cluster w)). w_cells w0 a \<noteq> None"
  shows "\<exists>w'. rfold stall_candidate as w = Inr w' \<and> in_round w0 w' \<and> grows (w_cluster w) (w_cluster w')
    \<and> (\<forall>a \<in> set as. visited a w') \<and> (\<forall>b. visited b w \<longrightarrow> visited b w')
    \<and> (\<forall>a \<in> set (cu_stall (w_cluster w')). w_cells w0 a \<noteq> None)"
  using assms
proof (induction as arbitrary: w)
  case (Cons a as)
  then have "w_cells w0 a \<noteq> None" by simp
  then show ?case
  proof (rule stall_candidate_round [OF Cons.prems(1)])
    fix w1
    assume w1: "stall_candidate a w = Inr w1" "in_round w0 w1" "grows (w_cluster w) (w_cluster w1)" "visited a w1"
      "\<And>b. visited b w \<Longrightarrow> visited b w1" "set (cu_stall (w_cluster w1)) \<subseteq> insert a (set (cu_stall (w_cluster w)))"
    have "\<forall>a \<in> set as \<union> set (cu_stall (w_cluster w1)). w_cells w0 a \<noteq> None"
      using Cons.prems(2) w1(6) by auto
    then show ?thesis
      using Cons.IH [OF w1(2)] w1 by (auto intro: grows_trans)
  qed
qed auto

lemma process_stall_round:
  assumes "in_round w0 w" and "\<forall>a \<in> set as. w_cells w0 a \<noteq> None"
  shows "\<exists>n' w'. rfold (process_stall ev) as (n, w) = Inr (n', w') \<and> in_round w0 w' \<and> grows (w_cluster w) (w_cluster w')
    \<and> (\<forall>a \<in> set as. a \<in> set (cu_current (w_cluster w')))"
  using assms
proof (induction as arbitrary: n w)
  case (Cons a as)
  obtain c0 where c0: "w_cells w0 a = Some c0" using Cons.prems(2) by auto
  obtain c where c: "w_cells w a = Some c"
    using Cons.prems(1) c0 by (auto simp: in_round_def elim: cells_keptE)
  obtain w1 where w1: "touchWithNeighbours ev True (Some a) w = Inr (True, w1)" "in_round w0 w1"
      "grows (w_cluster w) (w_cluster w1)" "surrounded w0 a w1"
    using in_round_touch [OF Cons.prems(1) c0] .
  have "process_stall ev a (n, w) = Inr (n + 1, w1)"
    using c w1(1) Cons.prems(1) by (simp add: process_stall_def in_round_def calm_def)
  moreover obtain n' w' where "rfold (process_stall ev) as (n + 1, w1) = Inr (n', w')" "in_round w0 w'"
      "grows (w_cluster w1) (w_cluster w')" "\<forall>a \<in> set as. a \<in> set (cu_current (w_cluster w'))"
    using Cons.IH [OF w1(2)] Cons.prems(2) by fastforce
  ultimately show ?case
    using w1(3,4) by (auto simp: surrounded_def grows_def intro: grows_trans)
qed auto

text \<open>The keepers after the queued \<^verbatim>\<open>KEEP\<close> and \<^verbatim>\<open>UNKEEP\<close>, or nothing when an \<^verbatim>\<open>UNKEEP\<close> has no match.\<close>

definition new_keepers :: "cluster \<Rightarrow> fault + addr list" where
  "new_keepers cu = rfold (\<lambda>op ks. case op of KEEP e \<Rightarrow> Inr (ks @ [e])
     | UNKEEP e \<Rightarrow> if e \<in> set ks then Inr (remove1 e ks) else Inl EraseEnd) (items (cu_ops cu)) (cu_keepers cu)"

lemma on_cluster_comp [simp]: "on_cluster f (on_cluster g w) = on_cluster (\<lambda>cu. f (g cu)) w"
  by (simp add: on_cluster_def)

lemma calm_counters:
  "calm (on_cluster (\<lambda>cu. cu\<lparr>cu_numStallCandidates := f cu\<rparr>) w) = calm w"
  "calm (on_cluster (\<lambda>cu. cu\<lparr>cu_numStall := n\<rparr>) w) = calm w"
  by (simp_all add: calm_def map_ok_def)

lemma cluster_ops_total:
  assumes "rfold (\<lambda>op ks. case op of KEEP e \<Rightarrow> Inr (ks @ [e])
     | UNKEEP e \<Rightarrow> if e \<in> set ks then Inr (remove1 e ks) else Inl EraseEnd) ops (cu_keepers (w_cluster w)) = Inr ks"
  shows "rfold cluster_op ops w = Inr (on_cluster (\<lambda>cu. cu\<lparr>cu_keepers := ks\<rparr>) w)"
  using assms
proof (induction ops arbitrary: w)
  case Nil
  then show ?case by (simp add: on_cluster_def)
next
  case (Cons op ops)
  show ?case
  proof (cases op)
    case (KEEP e)
    then show ?thesis
      using Cons.prems Cons.IH [of "on_cluster (\<lambda>cu. cu\<lparr>cu_keepers := cu_keepers cu @ [e]\<rparr>) w"]
      by (simp add: cluster_op_def)
  next
    case (UNKEEP e)
    then show ?thesis
      using Cons.prems Cons.IH [of "on_cluster (\<lambda>cu. cu\<lparr>cu_keepers := remove1 e (cu_keepers cu)\<rparr>) w"]
      by (simp add: cluster_op_def split: if_splits)
  qed
qed


section \<open>Grouping of a round\<close>

lemma cluster_ok_vertices:
  assumes "cluster_ok cu"
  shows "(a, v) \<in> set (cu_vertices cu) \<Longrightarrow> v < cu_nv cu" and "distinct (map fst (cu_vertices cu))"
    and "set (cu_edges cu) \<subseteq> {..<cu_nv cu} \<times> {..<cu_nv cu}"
    and "a \<in> set (cu_current cu) \<Longrightarrow> (a, the (map_of (cu_vertices cu) a)) \<in> set (cu_vertices cu)"
proof -
  show d: "distinct (map fst (cu_vertices cu))" and "set (cu_edges cu) \<subseteq> {..<cu_nv cu} \<times> {..<cu_nv cu}"
    using assms unfolding cluster_ok_def by blast+
  have "\<forall>a v. map_of (cu_vertices cu) a = Some v \<longrightarrow> v < cu_nv cu"
    using assms unfolding cluster_ok_def by blast
  then show "(a, v) \<in> set (cu_vertices cu) \<Longrightarrow> v < cu_nv cu"
    using map_of_is_SomeI [OF d] by blast
  show "a \<in> set (cu_current cu) \<Longrightarrow> (a, the (map_of (cu_vertices cu) a)) \<in> set (cu_vertices cu)"
    using cluster_ok_current [OF assms] map_of_SomeD by fastforce
qed


section \<open>Example worlds\<close>

definition demo_env :: env where
  "demo_env = \<lparr>ev_debug = True, ev_glm = unit_glm, ev_spawn = (\<lambda>_. Some (0x0A01, [U64 7])), ev_despawn = (\<lambda>_. None),
     ev_junk_count = 0, ev_junk_buffer = replicate 1024 0, ev_components = components_by_merging,
     ev_samples = (\<lambda>_. sample_draws), ev_now = 0, ev_fuel = 10\<rparr>"

definition empty_world :: world where
  "empty_world = World_new 0 0 (Reactive_new True 0 zero_counters)"

definition lonely_world :: world where
  "lonely_world = empty_world\<lparr>w_entities := [3 \<mapsto> MapAwareEntity_new 7 (Some 9) 0]\<rparr>"

definition one_cell_world :: world where
  "one_cell_world = empty_world\<lparr>w_cells := [0 \<mapsto> Cell_new demo_env (Offset 5 5)], w_next := 2, w_index := [(Offset 5 5, 0)],
     w_entities := [3 \<mapsto> (MapAwareEntity_new 7 (Some 9) 0)\<lparr>en_cell := Some 0\<rparr>]\<rparr>"

lemmas demo_defs = demo_env_def empty_world_def lonely_world_def one_cell_world_def World_new_def Cluster_new_def
  MapAwareEntity_new_def Cell_new_def

lemma calm_demo: "calm lonely_world" "calm one_cell_world"
  by (auto simp: calm_def map_ok_def cluster_ok_def demo_defs)




definition idle_works :: "(nat, nat, world) program" where
  "idle_works = \<lparr>pg_ready = (\<lambda>_ _. True), pg_handler = (\<lambda>_ (ex, w). (Done None, ex, w)), pg_onWorkError = (\<lambda>_ w. w),
     pg_task = (\<lambda>_ (ex, w). (ex, w))\<rparr>"

definition doomed_world :: world where
  "doomed_world = push_op \<lparr>mo_type = DESTROY, mo_offset = Offset 5 5, mo_entity = None, mo_param = Some 0\<rparr> one_cell_world"

theorem map_round_invariant_witness:
  "\<exists>w1 w2. Map_update demo_env idle_works 50 doomed_world = Inr w1 \<and> Map_cleanup demo_env 50 w1 = Inr w2
    \<and> world_ok w2 \<and> get doomed_world 5 5 = Some 0 \<and> get w2 5 5 = None"
proof -
  have ok: "world_ok doomed_world"
    by (auto simp: world_ok_def map_ok_def cluster_ok_def doomed_world_def destroys_def destroy_ok_def push_op_def demo_defs bq_push_def bq_full_def)
  have pg: "program_within demo_env tick_kinds idle_works"
    by (simp add: program_within_def idle_works_def)
  define w1 where "w1 = doomed_world\<lparr>w_ops := \<lparr>cap = None, items = []\<rparr>, w_index := [], w_cells := (\<lambda>_. None),
      w_rx := onClusterUpdate 0 0 0 0 (w_rx doomed_world)\<rparr>"
  have u: "Map_update demo_env idle_works 50 doomed_world = Inr w1"
    by (simp add: Map_update_def Map_runScheduledOperations_def doomed_world_def push_op_def demo_defs bq_push_def bq_full_def
        run_op_def run_destroy_def Cluster_update_def w1_def Let_def fun_eq_iff)
  have "cu_vertices (w_cluster w1) = []" "cu_current (w_cluster w1) = []" "cu_old (w_cluster w1) = []" "cu_stall (w_cluster w1) = []"
    "items (cu_ops (w_cluster w1)) = []" "cu_keepers (w_cluster w1) = []" "w_index w1 = []"
    by (simp_all add: w1_def doomed_world_def push_op_def demo_defs)
  then obtain w2 where c: "Map_cleanup demo_env 50 w1 = Inr w2" "w_index w2 = []"
    by (auto simp: Map_cleanup_def Cluster_cleanup_def Cluster_runScheduledOperations_def processStallCells_def)
  have "get doomed_world 5 5 = Some 0"
    by (simp add: get_def doomed_world_def push_op_def demo_defs)
  then show ?thesis
    using map_round_invariant [OF ok pg u c(1)] u c by (auto simp: get_def)
qed

text \<open>Two cells, and the client's entity in the first.\<close>

definition two_cell_world :: world where
  "two_cell_world = empty_world\<lparr>
     w_cells := [0 \<mapsto> (Cell_new demo_env (Offset 5 5))\<lparr>cl_entities := [(7, 3)], cl_clientsCount := 4\<rparr>, 4 \<mapsto> Cell_new demo_env (Offset 6 5)],
     w_next := 5, w_index := [(Offset 5 5, 0), (Offset 6 5, 4)],
     w_entities := [3 \<mapsto> (MapAwareEntity_new 7 (Some 9) 0)\<lparr>en_cell := Some 0\<rparr>]\<rparr>"

lemma two_cell_world:
  "calm two_cell_world" "w_entities two_cell_world 3 = Some ((MapAwareEntity_new 7 (Some 9) 0)\<lparr>en_cell := Some 0\<rparr>)"
  "get two_cell_world 5 5 = Some 0" "get two_cell_world 6 5 = Some 4" "\<not> bq_full (cu_ops (w_cluster two_cell_world))"
  "w_cells two_cell_world 0 = Some ((Cell_new demo_env (Offset 5 5))\<lparr>cl_entities := [(7, 3)], cl_clientsCount := 4\<rparr>)"
  by (auto simp: calm_def map_ok_def cluster_ok_def two_cell_world_def demo_defs get_def bq_full_def split: if_splits)

lemma despawn_fits: "packet_fits demo_env (ev_despawn demo_env e)"
  by (simp add: packet_fits_def demo_env_def BUFFER_SIZE_def)


end
