(* ===== verification/Delivery.thy ===== *)
theory Delivery
  imports Map_Invariants
begin

text \<open>
  Broadcasts: the two queues of a cell as a double buffer, whose contract is a locale, and the
  delivery of the queued packets to the clients of the cell by \<^verbatim>\<open>Cell::update\<close>.
\<close>

section \<open>Double buffers\<close>

datatype 'p buffer_event = Push 'p | Flip | Clear

text \<open>Between two flips the buffer is cleared; \<open>clean\<close> says whether it was since the last turn.\<close>

fun alternate :: "bool \<Rightarrow> 'p buffer_event list \<Rightarrow> bool" where
  "alternate clean [] = True"
| "alternate clean (Push p # es) = alternate clean es"
| "alternate clean (Flip # es) = (clean \<and> alternate False es)"
| "alternate clean (Clear # es) = alternate True es"

fun pushed :: "'p buffer_event list \<Rightarrow> 'p list" where
  "pushed [] = []"
| "pushed (Push p # es) = p # pushed es"
| "pushed (_ # es) = pushed es"

fun buffer_run :: "('p \<Rightarrow> 's \<Rightarrow> 's) \<Rightarrow> ('s \<Rightarrow> 's) \<Rightarrow> ('s \<Rightarrow> 's) \<Rightarrow> 'p buffer_event list \<Rightarrow> 's \<Rightarrow> 's" where
  "buffer_run push turn clr [] s = s"
| "buffer_run push turn clr (Push p # es) s = buffer_run push turn clr es (push p s)"
| "buffer_run push turn clr (Flip # es) s = buffer_run push turn clr es (turn s)"
| "buffer_run push turn clr (Clear # es) s = buffer_run push turn clr es (clr s)"

text \<open>What the flips hand over for delivery.\<close>

fun handed_over :: "('p \<Rightarrow> 's \<Rightarrow> 's) \<Rightarrow> ('s \<Rightarrow> 's) \<Rightarrow> ('s \<Rightarrow> 's) \<Rightarrow> ('s \<Rightarrow> 'p list) \<Rightarrow> 'p buffer_event list \<Rightarrow> 's \<Rightarrow> 'p list" where
  "handed_over push turn clr pending [] s = []"
| "handed_over push turn clr pending (Push p # es) s = handed_over push turn clr pending es (push p s)"
| "handed_over push turn clr pending (Flip # es) s = pending s @ handed_over push turn clr pending es (turn s)"
| "handed_over push turn clr pending (Clear # es) s = handed_over push turn clr pending es (clr s)"

locale double_buffer =
  fixes push :: "'p \<Rightarrow> 's \<Rightarrow> 's" and turn :: "'s \<Rightarrow> 's" and clr :: "'s \<Rightarrow> 's"
    and pending :: "'s \<Rightarrow> 'p list" and delivering :: "'s \<Rightarrow> 'p list" and accepts :: "'s \<Rightarrow> bool"
  assumes push: "accepts s \<Longrightarrow> pending (push p s) = pending s @ [p]" "delivering (push p s) = delivering s"
    and turn: "pending (turn s) = delivering s" "delivering (turn s) = pending s"
    and clr: "pending (clr s) = pending s" "delivering (clr s) = []"
    and accepts: "accepts (push p s) = accepts s" "accepts (turn s) = accepts s" "accepts (clr s) = accepts s"
begin

lemma nothing_lost:
  assumes "accepts s" and "alternate clean es" and "clean \<Longrightarrow> delivering s = []"
  shows "pending s @ pushed es = handed_over push turn clr pending es s @ pending (buffer_run push turn clr es s)"
  using assms
proof (induction es arbitrary: s clean)
  case (Cons e es)
  show ?case
  proof (cases e)
    case (Push p)
    then show ?thesis using Cons.prems Cons.IH [of "push p s" clean] by (simp add: push accepts)
  next
    case Flip
    then show ?thesis using Cons.prems Cons.IH [of "turn s" False] by (simp add: turn accepts)
  next
    case Clear
    then show ?thesis using Cons.prems Cons.IH [of "clr s" True] by (simp add: clr accepts)
  qed
qed simp

end

section \<open>The queues of a cell\<close>

definition pending :: "cell \<Rightarrow> packet_ptr list" where
  "pending c = (if cl_first c then cl_queue1 c else cl_queue2 c)"

definition delivering :: "cell \<Rightarrow> packet_ptr list" where
  "delivering c = (if cl_first c then cl_queue2 c else cl_queue1 c)"

interpretation queues: double_buffer push_broadcast flip clearQueues pending delivering "\<lambda>c. 0 < cl_clientsCount c"
  by unfold_locales (auto simp: push_broadcast_def flip_def clearQueues_def pending_def delivering_def)

text \<open>
  C8. A broadcast is delivered exactly once and in order: for a cell with clients whose delivered
  queue is empty, over any sequence of broadcasts, updates and cleanups in which an update is
  followed by a cleanup before the next one, what the updates hand over for delivery followed by what
  is still pending is exactly what was pending followed by what was broadcast; broadcasts made
  during an update wait for the next one.
\<close>

theorem broadcasts_delivered_once:
  assumes "0 < cl_clientsCount c" and "delivering c = []" and "alternate True es"
  shows "pending c @ pushed es =
    handed_over push_broadcast flip clearQueues pending es c @ pending (buffer_run push_broadcast flip clearQueues es c)"
  by (rule queues.nothing_lost [OF assms(1,3) assms(2)])

definition mailbox_cell :: cell where
  "mailbox_cell = \<lparr>cl_offset = Offset 5 5, cl_tree = RadialQuadTree (center (Offset 5 5)) 60, cl_entities = [],
     cl_clientsCount = 2, cl_queue1 = [], cl_queue2 = [], cl_first = True, cl_requests = [],
     cl_isRegistered = False, cl_isOnCooldown = False, cl_remaining = 0\<rparr>"

theorem broadcasts_delivered_once_witness:
  "handed_over push_broadcast flip clearQueues pending
     [Push (Some 4), Flip, Push (Some 5), Clear, Push (Some 6), Flip, Clear] mailbox_cell = [Some 4, Some 5, Some 6]"
proof -
  have "pending (buffer_run push_broadcast flip clearQueues
     [Push (Some 4), Flip, Push (Some 5), Clear, Push (Some 6), Flip, Clear] mailbox_cell) = []"
    by (simp add: mailbox_cell_def push_broadcast_def flip_def clearQueues_def pending_def)
  then show ?thesis
    using broadcasts_delivered_once [of mailbox_cell "[Push (Some 4), Flip, Push (Some 5), Clear, Push (Some 6), Flip, Clear]"]
    by (simp add: mailbox_cell_def delivering_def pending_def)
qed

section \<open>Frames\<close>

definition wire_frame :: "packet \<Rightarrow> uint8 list" where
  "wire_frame p = (case sendBuffer p of Inl _ \<Rightarrow> [] | Inr (_, bs) \<Rightarrow> bs)"

text \<open>Sending patches the header of the packet; sending it again gives the same bytes.\<close>

lemma sendBuffer_again:
  assumes "sendBuffer p = Inr (p', bs)" and "length (pk_buffer p) = BUFFER_SIZE"
  shows "sendBuffer p' = Inr (p', bs)" and "length (pk_buffer p') = BUFFER_SIZE"
  using assms by (auto simp: sendBuffer_def poke_def rbind_eq_Inr BUFFER_SIZE_def split: if_splits)

text \<open>The packets of a queue are packets of the world.\<close>

definition known :: "packet_ptr list \<Rightarrow> world \<Rightarrow> bool" where
  "known q w \<longleftrightarrow> (\<forall>i. Some i \<in> set q \<longrightarrow> i < length (w_packets w) \<and> length (pk_buffer (w_packets w ! i)) = BUFFER_SIZE)"

definition frame_of :: "world \<Rightarrow> packet_ptr \<Rightarrow> uint8 list" where
  "frame_of w p = (case p of None \<Rightarrow> [] | Some i \<Rightarrow> wire_frame (w_packets w ! i))"

definition same_frames :: "packet_ptr list \<Rightarrow> world \<Rightarrow> world \<Rightarrow> bool" where
  "same_frames q w w' \<longleftrightarrow> known q w' \<and> (\<forall>p \<in> set q. frame_of w' p = frame_of w p)"

lemma same_frames_refl: "known q w \<Longrightarrow> same_frames q w w"
  by (simp add: same_frames_def)

lemma same_frames_trans: "same_frames q u v \<Longrightarrow> same_frames q v w \<Longrightarrow> same_frames q u w"
  by (simp add: same_frames_def)

lemma send_frame:
  assumes "send k p w = Inr w'" and "known q w" and "p \<in> set q"
  shows "same_frames q w w'" and "w_sent w' = w_sent w @ [(k, frame_of w p)]" and "w_entities w' = w_entities w"
    and "w_cells w' = w_cells w" and "w_index w' = w_index w" and "w_next w' = w_next w"
proof -
  obtain i where i: "p = Some i" using assms(1) by (auto simp: send_def rbind_eq_Inr world_simps)
  obtain p' bs where p': "sendBuffer (w_packets w ! i) = Inr (p', bs)"
    and w': "w' = w\<lparr>w_packets := (w_packets w)[i := p'], w_sent := w_sent w @ [(k, bs)]\<rparr>"
    using assms(1) i by (auto simp: send_def Let_def split: sum.split_asm)
  have l: "i < length (w_packets w)" "length (pk_buffer (w_packets w ! i)) = BUFFER_SIZE"
    using assms(2,3) i by (auto simp: known_def)
  have "frame_of w' r = frame_of w r" if "r \<in> set q" for r
    using sendBuffer_again [OF p' l(2)] p' l(1)
    by (cases r) (auto simp: frame_of_def wire_frame_def w' nth_list_update)
  moreover have "known q w'"
    using assms(2) sendBuffer_again(2) [OF p' l(2)] l(1) by (auto simp: known_def w' nth_list_update)
  ultimately show "same_frames q w w'" by (simp add: same_frames_def)
  show "w_sent w' = w_sent w @ [(k, frame_of w p)]" "w_entities w' = w_entities w"
    "w_cells w' = w_cells w" "w_index w' = w_index w" "w_next w' = w_next w"
    by (simp_all add: w' i frame_of_def wire_frame_def p')
qed

lemma sends_frames:
  assumes "rfold (send k) ps w = Inr w'" and "known q w" and "set ps \<subseteq> set q"
  shows "same_frames q w w' \<and> w_sent w' = w_sent w @ map (\<lambda>p. (k, frame_of w p)) ps \<and> w_entities w' = w_entities w
    \<and> w_cells w' = w_cells w \<and> w_index w' = w_index w \<and> w_next w' = w_next w"
  using assms
proof (induction ps arbitrary: w)
  case Nil
  then show ?case by (simp add: same_frames_refl)
next
  case (Cons p ps)
  then obtain w1 where w1: "send k p w = Inr w1" "rfold (send k) ps w1 = Inr w'"
    by (auto simp: rbind_eq_Inr)
  note s = send_frame [OF w1(1) Cons.prems(2)]
  have p: "p \<in> set q" using Cons.prems(3) by simp
  have "known q w1" using s(1) [OF p] by (simp add: same_frames_def)
  then have IH: "same_frames q w1 w' \<and> w_sent w' = w_sent w1 @ map (\<lambda>p. (k, frame_of w1 p)) ps \<and> w_entities w' = w_entities w1
    \<and> w_cells w' = w_cells w1 \<and> w_index w' = w_index w1 \<and> w_next w' = w_next w1"
    using Cons.IH [OF w1(2)] Cons.prems(3) by simp
  moreover have "map (\<lambda>p. (k, frame_of w1 p)) ps = map (\<lambda>p. (k, frame_of w p)) ps"
    using s(1) [OF p] Cons.prems(3) by (auto simp: same_frames_def)
  ultimately show ?case
    using s [OF p] by (auto intro: same_frames_trans)
qed

section \<open>Silent updates\<close>

text \<open>What the update of an entity leaves alone, seen from the cell \<open>a\<close> that runs it.\<close>

definition clients :: "world \<Rightarrow> addr \<Rightarrow> addr option option" where
  "clients w e = map_option en_client (w_entities w e)"

text \<open>What the client of the entity \<open>e\<close> is sent of the queue \<open>q\<close>.\<close>

definition mail :: "world \<Rightarrow> packet_ptr list \<Rightarrow> addr \<Rightarrow> (addr \<times> uint8 list) list" where
  "mail w q e = (case clients w e of Some (Some k) \<Rightarrow> map (\<lambda>p. (k, frame_of w p)) q | _ \<Rightarrow> [])"

lemma mail_same: "same_frames q w w' \<Longrightarrow> clients w' = clients w \<Longrightarrow> mail w' q = mail w q"
  by (auto simp: mail_def same_frames_def fun_eq_iff split: option.splits)

definition quiet_cell :: "addr \<Rightarrow> world \<Rightarrow> bool" where
  "quiet_cell a w \<longleftrightarrow> map_ok w \<and> (\<exists>c. w_cells w a = Some c \<and> cl_requests c = [])"

definition hushed :: "addr \<Rightarrow> world \<Rightarrow> world \<Rightarrow> bool" where
  "hushed a w w' \<longleftrightarrow> w_sent w' = w_sent w \<and> clients w' = clients w \<and> quiet_cell a w'
     \<and> (\<exists>ps. w_packets w' = w_packets w @ ps)"

lemma hushed_frames: "hushed a w w' \<Longrightarrow> known q w \<Longrightarrow> same_frames q w w'"
  by (auto simp: hushed_def same_frames_def known_def frame_of_def nth_append split: option.splits)

lemma steps_hushed:
  assumes "steps ev K w w'" and "K \<inter> {Request, Member, Place, Deliver, Destroy} = {}" and "quiet_cell a w"
  shows "hushed a w w'"
  using assms(1)
proof (rule steps_invariant [where P = "hushed a w"])
  fix k v v'
  assume k: "k \<in> K" and v: "world_step ev k v v'" and h: "hushed a w v"
  obtain c where c: "map_ok v" "w_cells v a = Some c" "cl_requests c = []" using h by (auto simp: hushed_def quiet_cell_def)
  then have "a < w_next v" by (auto dest: map_ok_live)
  then have "w_sent v' = w_sent v" "clients v' = clients v" "\<exists>ps. w_packets v' = w_packets v @ ps"
      "\<exists>c. w_cells v' a = Some c \<and> cl_requests c = []"
    using v k c assms(2) by (auto elim!: world_stepE simp: clients_def fun_eq_iff push_op_def)
  then show "hushed a w v'"
    using h world_step_map_ok [OF v c(1)] by (auto simp: hushed_def quiet_cell_def)
qed (use assms(3) in \<open>simp add: hushed_def\<close>)

text \<open>The interface of the virtual update of an entity.\<close>

locale silent_update =
  fixes upd :: "addr \<Rightarrow> world \<Rightarrow> fault + world"
  assumes silent: "quiet_cell a w \<Longrightarrow> upd e w = Inr w' \<Longrightarrow> hushed a w w'"
begin

lemma update_entity_sends:
  assumes "update_entity ev upd a q e w = Inr w'" and "quiet_cell a w" and "known q w"
  shows "quiet_cell a w' \<and> same_frames q w w' \<and> clients w' = clients w
    \<and> w_sent w' = w_sent w @ mail w q e"
proof -
  obtain x where x: "w_entities w e = Some x"
    using assms(1) by (auto simp: update_entity_def rbind_eq_Inr world_simps)
  from assms(1) x obtain w1 w2 w3 where w1: "upd e w = Inr w1"
    and w2: "(case en_client x of None \<Rightarrow> Inr w1 | Some k \<Rightarrow> rfold (send k) q w1) = Inr w2"
    and w3: "processRequests ev a e w2 = Inr w3"
    and rest: "rbind (tree_insert a e w3) (\<lambda>w. rbind (getSiblings a w) (\<lambda>sibs. rfold (insert_sibling e) sibs w)) = Inr w'"
    by (auto simp: update_entity_def rbind_eq_Inr)
  have h1: "hushed a w w1" by (rule silent [OF assms(2) w1])
  then have f1: "same_frames q w w1" "known q w1"
    using hushed_frames assms(3) by (auto simp: same_frames_def)
  have 2: "same_frames q w1 w2 \<and> w_entities w2 = w_entities w1 \<and> w_cells w2 = w_cells w1 \<and> w_index w2 = w_index w1 \<and> w_next w2 = w_next w1
    \<and> w_sent w2 = w_sent w1 @ (case en_client x of Some k \<Rightarrow> map (\<lambda>p. (k, frame_of w1 p)) q | None \<Rightarrow> [])"
    using w2 sends_frames [OF _ f1(2) subset_refl] f1(2) by (auto simp: same_frames_refl split: option.splits)
  then have q2: "quiet_cell a w2"
    using h1 by (simp add: hushed_def quiet_cell_def map_ok_def)
  then have "w3 = w2"
    using w3 by (auto simp: processRequests_def quiet_cell_def)
  moreover have "reaches ev {Tree} w3 (rbind (tree_insert a e w3) (\<lambda>w. rbind (getSiblings a w) (\<lambda>sibs. rfold (insert_sibling e) sibs w)))"
    by (intro reaches_rules reaches_tree_insert reaches_insert_sibling; simp)
  ultimately have "steps ev {Tree} w2 w'"
    using rest by (simp add: reaches_def)
  then have h3: "hushed a w2 w'" using steps_hushed [OF _ _ q2] by simp
  have "known q w2" using 2 by (simp add: same_frames_def)
  then have "same_frames q w w'"
    using f1(1) 2 hushed_frames [OF h3] by (blast intro: same_frames_trans)
  moreover have "clients w e = Some (en_client x)" "clients w2 = clients w1"
    using x 2 by (simp_all add: clients_def fun_eq_iff)
  moreover have c1: "clients w1 = clients w" using h1 by (simp add: hushed_def)
  moreover have "w_sent w2 = w_sent w1 @ mail w1 q e"
    using 2 calculation by (simp add: mail_def option.case_eq_if)
  ultimately show ?thesis
    using h1 h3 mail_same [OF f1(1) c1] by (auto simp: hushed_def)
qed

lemma update_entities_send:
  assumes "rfold (\<lambda>p. update_entity ev upd a q (snd p)) es w = Inr w'" and "quiet_cell a w" and "known q w"
  shows "w_sent w' = w_sent w @ concat (map (\<lambda>p. mail w q (snd p)) es)"
  using assms
proof (induction es arbitrary: w)
  case (Cons p es)
  then obtain w1 where w1: "update_entity ev upd a q (snd p) w = Inr w1" "rfold (\<lambda>p. update_entity ev upd a q (snd p)) es w1 = Inr w'"
    by (auto simp: rbind_eq_Inr)
  note u = update_entity_sends [OF w1(1) Cons.prems(2,3)]
  then have "mail w1 q = mail w q" "quiet_cell a w1" "known q w1"
    using mail_same by (auto simp: same_frames_def)
  then show ?case
    using Cons.IH [OF w1(2)] u by simp
qed simp

lemma Cell_update_sends:
  assumes "Cell_update ev upd a w = Inr w'" and "map_ok w" and "w_cells w a = Some c" and "cl_requests c = []"
    and "known (pending c) w"
  shows "w_sent w' = w_sent w @ concat (map (\<lambda>(_, e). mail w (pending c) e) (cl_entities c))"
proof -
  let ?w = "set_cell a (flip c) w"
  have r: "rfold (\<lambda>p. update_entity ev upd a (pending c) (snd p)) (cl_entities c) ?w = Inr w'"
    using assms(1,3) by (simp add: Cell_update_def Let_def pending_def)
  have "map_ok ?w"
    using assms(2,3) by (rule map_ok_set_cell) (simp add: flip_def)
  then have q: "quiet_cell a ?w" using assms(4) by (simp add: quiet_cell_def flip_def)
  have f: "frame_of ?w = frame_of w" "clients ?w = clients w"
    by (simp_all add: frame_of_def [abs_def] clients_def fun_eq_iff)
  have "mail ?w = mail w"
    unfolding mail_def [abs_def] f ..
  moreover have "known (pending c) ?w"
    using assms(5) by (simp add: known_def)
  ultimately show ?thesis using update_entities_send [OF r q] by (simp add: split_def)
qed

end

text \<open>The motion of an entity is such an update, and so is its whole update when its works are.\<close>

interpretation motion: silent_update "MotionMaster_run ev elapsed" for ev elapsed
proof
  fix a w e w'
  assume "quiet_cell a w" "MotionMaster_run ev elapsed e w = Inr w'"
  then show "hushed a w w'"
    using reaches_MotionMaster_run [of update_kinds ev w elapsed e] steps_hushed [of ev update_kinds w w' a]
    by (auto simp: reaches_def update_kinds_def)
qed

lemma silent_MapAwareEntity_update:
  assumes "program_within ev update_kinds pg"
  shows "silent_update (MapAwareEntity_update ev pg elapsed)"
proof
  fix a w e w'
  assume "quiet_cell a w" "MapAwareEntity_update ev pg elapsed e w = Inr w'"
  then show "hushed a w w'"
    using reaches_MapAwareEntity_update [OF subset_refl assms, of w elapsed e] steps_hushed [of ev update_kinds w w' a]
    by (auto simp: reaches_def update_kinds_def)
qed


definition mail_env :: env where
  "mail_env = \<lparr>ev_debug = True, ev_glm = unit_glm, ev_spawn = (\<lambda>_. None), ev_despawn = (\<lambda>_. None),
     ev_junk_count = 0, ev_junk_buffer = replicate 1024 0, ev_components = (\<lambda>n _. ([0..<n], n)),
     ev_samples = (\<lambda>_. sample_draws), ev_now = 0, ev_fuel = 10\<rparr>"

definition mail_works :: "(nat, nat, world) program" where
  "mail_works = \<lparr>pg_ready = (\<lambda>_ _. True), pg_handler = (\<lambda>_ (ex, w). (Done None, ex, w)), pg_onWorkError = (\<lambda>_ w. w),
     pg_task = (\<lambda>_ (ex, w). (ex, w))\<rparr>"

definition mail_packet :: packet where
  "mail_packet = \<lparr>pk_read = 0, pk_size = 0, pk_write = 6, pk_refs = 0, pk_buffer = [3, 10, 0, 0, 7, 8] @ replicate 1018 0\<rparr>"

definition mail_world :: world where
  "mail_world = (World_new 0 0 (Reactive_new True 0 zero_counters))\<lparr>
     w_cells := [0 \<mapsto> mailbox_cell\<lparr>cl_entities := [(7, 3)], cl_queue1 := [Some 0]\<rparr>], w_next := 2,
     w_index := [(Offset 5 5, 0)], w_packets := [mail_packet],
     w_entities := [3 \<mapsto> MapAwareEntity_new 7 (Some 20) 0]\<rparr>"

lemma set_entity_same: "w_entities w e = Some x \<Longrightarrow> set_entity e x w = w"
  by (simp add: set_entity_def fun_upd_idem)

lemma idle_executor: "executeJobs 10 mail_works 0 (Executor_new n, w) = Inr (Executor_new n, w)"
  by (simp add: executeJobs_def Executor_new_def bq_pop_def numeral_eq_Suc)

lemma idle_motion: "MotionMaster_update g d s i el (MotionMaster_new 0) bb = Inr (MotionMaster_new 0, bb, [])"
  by (simp add: MotionMaster_new_def MotionMaster_update_def Let_def step_generator_def step_rotation_def
      step_forward_def isMoving_def isRotating_def MOVING_def ROTATING_def)

lemma idle_update: "w_entities w e = Some (MapAwareEntity_new i k 0) \<Longrightarrow>
   MapAwareEntity_update mail_env mail_works 50 e w = Inr w"
  by (simp add: MapAwareEntity_update_def mail_env_def idle_executor idle_motion MapAwareEntity_new_def
      MotionMaster_run_def set_entity_same)

lemma mail_packet_frame:
  "sendBuffer mail_packet = Inr (mail_packet\<lparr>pk_buffer := [3, 10, 2, 0, 7, 8] @ replicate 1018 0\<rparr>, [3, 10, 2, 0, 7, 8])"
  "peek 0 mail_packet = Inr (0xA03 :: uint16)" "length (pk_buffer mail_packet) = BUFFER_SIZE"
  by (simp_all add: mail_packet_def sendBuffer_def poke_def BUFFER_SIZE_def le_bytes_def peek_def bufferLen_def le_word_def upt_rec)


end
