(* ===== verification/Hazards.thy ===== *)
theory Hazards
  imports Rounds Delivery
begin

text \<open>
  The stall clock of a cell, and four hazards of the map, each proved for every world in which
  its operations are queued in the stated order.
\<close>

section \<open>The stall clock\<close>

lemma stall_ticks:
  assumes "cl_isRegistered c" and "\<not> cl_isOnCooldown c" and "0 < cl_remaining c"
  shows "if (\<Sum>x\<leftarrow>es. unat x) < unat (cl_remaining c)
    then \<not> cl_isOnCooldown (fold stall_tick es c) \<and> unat (cl_remaining (fold stall_tick es c)) = unat (cl_remaining c) - (\<Sum>x\<leftarrow>es. unat x)
    else cl_isOnCooldown (fold stall_tick es c)"
  using assms
proof (induction es arbitrary: c)
  case (Cons x es)
  have stop: "fold stall_tick ys d = d" if "\<not> cl_isRegistered d" for ys and d :: cell
    using that by (induction ys) (auto simp: stall_tick_def)
  show ?case
  proof (cases "x < cl_remaining c")
    case True
    let ?c = "c\<lparr>cl_remaining := cl_remaining c - x\<rparr>"
    have u: "unat (cl_remaining c - x) = unat (cl_remaining c) - unat x" "unat x < unat (cl_remaining c)"
      using True unat_sub [of x "cl_remaining c"] by (simp_all add: word_less_nat_alt word_le_nat_alt)
    then have "0 < cl_remaining c - x" by (simp add: word_less_nat_alt)
    moreover have "stall_tick x c = ?c" using True Cons.prems by (simp add: stall_tick_def)
    ultimately show ?thesis
      using Cons.IH [of ?c] Cons.prems u by (auto split: if_splits)
  next
    case False
    then have "stall_tick x c = c\<lparr>cl_isOnCooldown := True, cl_isRegistered := False\<rparr>"
      using Cons.prems by (simp add: stall_tick_def)
    then show ?thesis
      using False stop [of "c\<lparr>cl_isOnCooldown := True, cl_isRegistered := False\<rparr>" es]
      by (auto simp: word_less_nat_alt)
  qed
qed (simp add: word_less_nat_alt)

text \<open>
  A stalled cell lives two minutes: from the round that registers it with
  \<open>STALL_TIME\<close>, the clock of the cleanups puts it on cooldown exactly when the elapsed
  times add up to at least 120000 milliseconds, however they are split, and never wraps around.
\<close>

theorem stall_clock_exact:
  assumes "cl_isRegistered c" and "\<not> cl_isOnCooldown c" and "cl_remaining c = STALL_TIME"
  shows "(cl_isOnCooldown (fold stall_tick es c) \<longleftrightarrow> 120000 \<le> (\<Sum>x\<leftarrow>es. unat x))
    \<and> (\<not> cl_isOnCooldown (fold stall_tick es c) \<longrightarrow>
         unat (cl_remaining (fold stall_tick es c)) = 120000 - (\<Sum>x\<leftarrow>es. unat x))"
  using stall_ticks [OF assms(1,2), of es] assms(3) by (auto simp: STALL_TIME_def split: if_splits)

theorem stall_clock_exact_witness:
  "cl_isOnCooldown (fold stall_tick [60000, 59999, 2] (mailbox_cell\<lparr>cl_isRegistered := True, cl_remaining := STALL_TIME\<rparr>))
   \<and> \<not> cl_isOnCooldown (fold stall_tick [60000, 59999] (mailbox_cell\<lparr>cl_isRegistered := True, cl_remaining := STALL_TIME\<rparr>))"
  using stall_clock_exact [of "mailbox_cell\<lparr>cl_isRegistered := True, cl_remaining := STALL_TIME\<rparr>" "[60000, 59999, 2]"]
    stall_clock_exact [of "mailbox_cell\<lparr>cl_isRegistered := True, cl_remaining := STALL_TIME\<rparr>" "[60000, 59999]"]
  by (simp add: mailbox_cell_def)

section \<open>Hazards\<close>

lemma steps_entities:
  assumes "steps ev K w w'" and "K \<inter> {Motion, Place} = {}"
  shows "w_entities w' = w_entities w"
  using assms(1)
proof (rule steps_invariant [where P = "\<lambda>v. w_entities v = w_entities w"])
  fix k v v' assume "k \<in> K" "world_step ev k v v'" "w_entities v = w_entities w"
  then show "w_entities v' = w_entities w"
    using assms(2) by (elim world_stepE) (auto simp: push_op_def)
qed simp

text \<open>Both \<^verbatim>\<open>onAdded\<close> and \<^verbatim>\<open>onRemoved\<close> leave the entity where they put it.\<close>

lemma onAdded_place:
  assumes "onAdded ev e a old w = Inr (as, w')"
  obtains x where "w_entities w e = Some x" and "w_entities w' = (w_entities w)(e \<mapsto> x\<lparr>en_cell := Some a\<rparr>)"
proof -
  let ?K = "{Stall, Graph, Create, Message, Queue, Request}"
  obtain x where x: "w_entities w e = Some x"
    using assms by (auto simp: onAdded_def rbind_eq_Inr world_simps)
  let ?w = "set_entity e (x\<lparr>en_cell := Some a\<rparr>) w"
  have "reaches_with ev ?K ?w (rbind (new_packet ev (ev_spawn ev e) ?w) (\<lambda>(p, w).
     rbind (getCellsExcluding ev (Some a) old w) (\<lambda>(newCells, w).
     rbind (entity_at e w) (\<lambda>x.
     rbind (Map_broadcast newCells p (\<lambda>a w. if en_client x \<noteq> None then Cell_request ev a e SPAWN w else Inr w) w) (\<lambda>w.
       Inr (newCells, w))))))"
    by (intro reaches_rules reaches_cells reaches_basic reaches_Map_broadcast; simp)
  then have "steps ev ?K ?w w'"
    using assms x by (simp add: onAdded_def reaches_with_def)
  then show thesis using that [OF x] steps_entities [of ev ?K ?w w'] by simp
qed

lemma checkStall_entities: "checkStall old a w = Inr w' \<Longrightarrow> w_entities w' = w_entities w"
  using checkStall_steps [of old a w w' "{Stall, Graph}" undefined] steps_entities [of undefined "{Stall, Graph}" w w'] by simp

lemma run_add_place:
  assumes "run_add ev p e old w = Inr w'"
  obtains a x where "w_entities w' e = Some x" and "en_cell x = Some a"
    and "\<And>b. get w (off_q p) (off_r p) = Some b \<Longrightarrow> a = b"
proof -
  obtain a w1 w2 as w3 where *: "getOrCreate ev p w = Inr (a, w1)" "onAdded ev e a old w2 = Inr (as, w3)" "checkStall old a w3 = Inr w'"
    using assms by (auto simp: run_add_def rbind_eq_Inr)
  then obtain x where "w_entities w' e = Some (x\<lparr>en_cell := Some a\<rparr>)"
    using onAdded_place [OF *(2)] checkStall_entities [OF *(3)] by (metis fun_upd_same)
  moreover have "get w (off_q p) (off_r p) = Some b \<Longrightarrow> a = b" for b
    using *(1) by (simp add: getOrCreate_def)
  ultimately show thesis using that by fastforce
qed

text \<open>
  C38. An entity that enters a stalled cell in the round in which the cell expires is left with a
  dangling cell: when the queue holds its \<^verbatim>\<open>ADD_ENTITY\<close> to a cell followed by the
  \<^verbatim>\<open>DESTROY\<close> of that cell, both run, the entity still points to the destroyed cell, and the
  next time the cluster touches the cells of that keeper it uses the cell after its deletion.
\<close>

theorem add_then_destroy_dangles:
  assumes "map_ok w" and "get w (off_q p) (off_r p) = Some a"
    and "run_op ev \<lparr>mo_type = ADD_ENTITY, mo_offset = p, mo_entity = Some e, mo_param = old\<rparr> w = Inr w1"
  shows "\<exists>w2 x. run_op ev \<lparr>mo_type = DESTROY, mo_offset = p, mo_entity = None, mo_param = Some a\<rparr> w1 = Inr w2
    \<and> w_entities w2 e = Some x \<and> en_cell x = Some a \<and> w_cells w2 a = None \<and> keep_cells ev e w2 = Inl UseAfterFree"
proof -
  have add: "run_add ev p e old w = Inr w1" using assms(3) by (simp add: run_op_def)
  obtain x where x: "w_entities w1 e = Some x" "en_cell x = Some a"
    using run_add_place [OF add] assms(2) by metis
  have "steps ev add_kinds w w1" using add reaches_run_add [of add_kinds] by (simp add: reaches_def)
  then have "cells_kept w w1" using steps_cells_kept assms(1) by (simp add: add_kinds_def)
  moreover obtain c where "w_cells w a = Some c" using map_ok_get [OF assms(1,2)] .
  ultimately obtain c1 where c1: "w_cells w1 a = Some c1" by (rule cells_keptE)
  let ?w2 = "w1\<lparr>w_index := filter (\<lambda>x. fst x \<noteq> p) (w_index w1), w_cells := (w_cells w1)(a := None)\<rparr>"
  have "run_op ev \<lparr>mo_type = DESTROY, mo_offset = p, mo_entity = None, mo_param = Some a\<rparr> w1 = Inr ?w2"
    using c1 by (simp add: run_op_def run_destroy_def)
  moreover have "keep_cells ev e ?w2 = Inl UseAfterFree"
    using x by (simp add: keep_cells_def touchWithNeighbours_def touch_def cell_at_def)
  ultimately show ?thesis using x by (intro exI [of _ ?w2] exI [of _ x]) simp
qed

theorem add_then_destroy_dangles_witness:
  "\<exists>w1 w2. run_op demo_env \<lparr>mo_type = ADD_ENTITY, mo_offset = Offset 5 5, mo_entity = Some 3, mo_param = None\<rparr> one_cell_world = Inr w1
    \<and> run_op demo_env \<lparr>mo_type = DESTROY, mo_offset = Offset 5 5, mo_entity = None, mo_param = Some 0\<rparr> w1 = Inr w2
    \<and> keep_cells demo_env 3 w2 = Inl UseAfterFree"
proof -
  have fits: "packet_fits demo_env (ev_spawn demo_env 3)"
    by (simp add: packet_fits_def demo_env_def BUFFER_SIZE_def field_ok_def)
  let ?x = "(MapAwareEntity_new 7 (Some 9) 0)\<lparr>en_cell := Some 0\<rparr>"
  have x: "w_entities one_cell_world 3 = Some ?x" "en_isUpdater ?x" "\<not> bq_full (cu_ops (w_cluster one_cell_world))"
    "\<forall>b c. w_cells one_cell_world b = Some c \<longrightarrow> en_id ?x \<notin> fst ` set (cl_entities c)"
    by (auto simp: demo_defs bq_full_def)
  obtain w1 where w1: "run_op demo_env \<lparr>mo_type = ADD_ENTITY, mo_offset = Offset 5 5, mo_entity = Some 3, mo_param = None\<rparr> one_cell_world = Inr w1"
    using add_entity_total [OF calm_demo(2) x(1,2,4) fits x(3), of "Offset 5 5"] by (elim exE conjE)
  have "get one_cell_world (off_q (Offset 5 5)) (off_r (Offset 5 5)) = Some 0"
    by (simp add: get_def demo_defs)
  then show ?thesis
    using w1 add_then_destroy_dangles [OF calm_map_ok [OF calm_demo(2)] _ w1] by auto
qed

text \<open>
  \<^verbatim>\<open>broadcastToSiblings\<close> needs all six neighbours: for a live cell one of whose neighbours does not
  exist (any neighbour that was stalled for two minutes and destroyed), it dereferences the
  null pointer that \<^verbatim>\<open>getSiblings\<close> returns for it.
\<close>

theorem broadcast_null_sibling:
  assumes "map_ok w" and "w_cells w a = Some c" and "adjacent z (cl_offset c)" and "get w (off_q z) (off_r z) = None"
  shows "broadcastToSiblings (Some a) p w = Inl NullDereference"
proof -
  let ?f = "\<lambda>s w. rbind (the_ptr s) (\<lambda>b. Cell_broadcast b p w)"
  have loop: "rfold ?f ss v = Inl NullDereference"
    if "None \<in> set ss" "\<forall>b. Some b \<in> set ss \<longrightarrow> w_cells v b \<noteq> None" for ss v
    using that
  proof (induction ss arbitrary: v)
    case (Cons s ss)
    show ?case
    proof (cases s)
      case (Some b)
      then obtain d where "w_cells v b = Some d" using Cons.prems(2) by auto
      moreover have "rfold ?f ss (set_cell b (push_broadcast p d) v) = Inl NullDereference"
        using Cons Some by (intro Cons.IH) auto
      ultimately show ?thesis using Some by (simp add: Cell_broadcast_def)
    qed (simp add: the_ptr_def)
  qed simp
  let ?v = "set_cell a (push_broadcast p c) w"
  let ?ss = "map (\<lambda>q. get w (off_q q) (off_r q)) (sibling_offsets (cl_offset c))"
  have "getSiblings a ?v = Inr ?ss"
    by (simp add: getSiblings_def cell_at_def push_broadcast_def get_def)
  moreover have "None \<in> set ?ss"
    using assms(3,4) set_sibling_offsets by (force simp: image_iff)
  moreover have "\<forall>b. Some b \<in> set ?ss \<longrightarrow> w_cells ?v b \<noteq> None"
    using map_ok_get [OF assms(1)] by (auto simp: image_iff) (metis option.distinct(1))
  ultimately show ?thesis
    using assms(2) loop by (simp add: broadcastToSiblings_def Cell_broadcast_def)
qed

theorem broadcast_null_sibling_witness:
  "broadcastToSiblings (Some 0) None one_cell_world = Inl NullDereference"
  by (rule broadcast_null_sibling [OF calm_map_ok [OF calm_demo(2)], of 0 "Cell_new demo_env (Offset 5 5)" "Offset 6 5"])
    (simp_all add: demo_defs adjacent_iff get_def)

lemma onRemoved_place:
  assumes "onRemoved ev e a to w = Inr (as, w')"
  obtains x where "w_entities w e = Some x" and "w_entities w' = (w_entities w)(e \<mapsto> x\<lparr>en_cell := None\<rparr>)"
    and "\<And>K. {Stall, Graph, Create, Message, Queue, Request} \<subseteq> K \<Longrightarrow> steps ev K (set_entity e (x\<lparr>en_cell := None\<rparr>) w) w'"
proof -
  let ?K = "{Stall, Graph, Create, Message, Queue, Request}"
  obtain x where x: "w_entities w e = Some x"
    using assms by (auto simp: onRemoved_def rbind_eq_Inr world_simps)
  let ?w = "set_entity e (x\<lparr>en_cell := None\<rparr>) w"
  have "reaches_with ev ?K ?w (rbind (new_packet ev (ev_despawn ev e) ?w) (\<lambda>(p, w).
     rbind (getCellsExcluding ev (Some a) to w) (\<lambda>(oldCells, w).
     rbind (entity_at e w) (\<lambda>x.
     rbind (if to \<noteq> None \<and> en_client x \<noteq> None
            then Map_broadcast oldCells p (\<lambda>a. Cell_request ev a e DESPAWN) w
            else Map_broadcast oldCells p (\<lambda>_. Inr) w) (\<lambda>w. Inr (oldCells, w))))))"
    by (intro reaches_rules reaches_cells reaches_basic reaches_Map_broadcast; simp)
  then have s: "steps ev ?K ?w w'"
    using assms x by (simp add: onRemoved_def reaches_with_def)
  then show thesis using that [OF x] steps_entities [of ev ?K ?w w'] steps_mono by simp
qed

lemma steps_members:
  assumes "steps ev K w w'" and "K \<inter> {Member, Destroy} = {}" and "map_ok w" and "w_cells w a = Some c"
  shows "\<exists>c'. w_cells w' a = Some c' \<and> cl_entities c' = cl_entities c"
proof -
  have "map_ok w' \<and> (\<exists>c'. w_cells w' a = Some c' \<and> cl_entities c' = cl_entities c)"
    using assms(1)
  proof (rule steps_invariant [where P = "\<lambda>v. map_ok v \<and> (\<exists>c'. w_cells v a = Some c' \<and> cl_entities c' = cl_entities c)"])
    fix k v v'
    assume k: "k \<in> K" and v: "world_step ev k v v'" and P: "map_ok v \<and> (\<exists>c'. w_cells v a = Some c' \<and> cl_entities c' = cl_entities c)"
    have "\<exists>c'. w_cells v' a = Some c' \<and> cl_entities c' = cl_entities c"
      using v P k assms(2) map_ok_live(1) [of v a] by (elim world_stepE) (auto simp: push_op_def)
    then show "map_ok v' \<and> (\<exists>c'. w_cells v' a = Some c' \<and> cl_entities c' = cl_entities c)"
      using world_step_map_ok [OF v] P by blast
  qed (use assms(3,4) in blast)
  then show ?thesis by blast
qed

text \<open>
  A client that closes after its entity moved, before the queue ran, stays in the map: the removal it
  queues names the old cell, so it runs after the entity has entered the new cell and erases
  nothing there. The entity forgets its cell, so the server may delete it, but the new cell still
  lists it, and the next update of that cell uses the entity after its deletion.
\<close>

theorem stale_removal_dangles:
  assumes "map_ok w" and "w_cells w b = Some c" and "(en_id x, e) \<in> set (cl_entities c)" and "w_entities w e = Some x"
    and "cl_offset c \<noteq> p" and "get w (off_q p) (off_r p) = Some a"
    and "run_op ev \<lparr>mo_type = REMOVE_ENTITY, mo_offset = p, mo_entity = Some e, mo_param = None\<rparr> w = Inr w'"
  shows "\<exists>c'. w_cells w' b = Some c' \<and> (en_id x, e) \<in> set (cl_entities c')
    \<and> w_entities w' = (w_entities w)(e \<mapsto> x\<lparr>en_cell := None\<rparr>)
    \<and> update_entity ev upd b q e (w'\<lparr>w_entities := (w_entities w')(e := None)\<rparr>) = Inl UseAfterFree"
proof -
  obtain w1 w2 as where w1: "removeEntity a e w = Inr w1"
    and w2: "w2 = w1 \<or> Cluster_remove e w1 = Inr w2" and w': "onRemoved ev e a None w2 = Inr (as, w')"
    using assms(6,7) by (auto simp: run_op_def run_remove_def rbind_eq_Inr split: if_splits)
  obtain d where d: "w_cells w a = Some d" "cl_offset d = p"
    using map_ok_get [OF assms(1,6)] by (metis offset.collapse)
  then have "b \<noteq> a" using assms(2,5) by auto
  have s1: "steps ev {Member} w w1" using w1 by (rule removeEntity_steps) simp
  have s2: "steps ev {Graph} w1 w2" using w2 Cluster_remove_steps by (auto intro: steps_refl)
  have e2: "w_entities w2 = w_entities w"
    using steps_entities [OF s1] steps_entities [OF s2] by simp
  have ok1: "map_ok w1" using steps_map_ok [OF s1] assms(1) by simp
  have "w_cells w1 b = Some c"
    using w1 d(1) \<open>b \<noteq> a\<close> assms(2) by (auto simp: removeEntity_def rbind_eq_Inr world_simps Let_def)
  then obtain c2 where c2: "w_cells w2 b = Some c2" "cl_entities c2 = cl_entities c"
    using steps_members [OF s2 _ ok1] by auto
  obtain w3 where e: "w_entities w' = (w_entities w)(e \<mapsto> x\<lparr>en_cell := None\<rparr>)"
    and w3: "w3 = set_entity e (x\<lparr>en_cell := None\<rparr>) w2" "steps ev {Stall, Graph, Create, Message, Queue, Request} w3 w'"
    using onRemoved_place [OF w'] assms(4) e2 by (metis option.inject subset_refl)
  have "map_ok w3" "w_cells w3 b = Some c2"
    using steps_map_ok [OF s2 ok1] c2 by (simp_all add: w3)
  then have "\<exists>c'. w_cells w' b = Some c' \<and> cl_entities c' = cl_entities c"
    using steps_members [OF w3(2) _ _, of b c2] c2(2) by simp
  then show ?thesis
    using e assms(3) by (auto simp: update_entity_def entity_at_def)
qed

theorem stale_removal_dangles_witness:
  "\<exists>w' c'. run_op demo_env \<lparr>mo_type = REMOVE_ENTITY, mo_offset = Offset 6 5, mo_entity = Some 3, mo_param = None\<rparr> two_cell_world = Inr w'
    \<and> w_cells w' 0 = Some c' \<and> (7, 3) \<in> set (cl_entities c')
    \<and> update_entity demo_env (\<lambda>_. Inr) 0 [] 3 (w'\<lparr>w_entities := (w_entities w')(3 := None)\<rparr>) = Inl UseAfterFree"
proof -
  let ?x = "(MapAwareEntity_new 7 (Some 9) 0)\<lparr>en_cell := Some 0\<rparr>"
  let ?c = "(Cell_new demo_env (Offset 5 5))\<lparr>cl_entities := [(7, 3)], cl_clientsCount := 4\<rparr>"
  have g: "en_isUpdater ?x" "get two_cell_world (off_q (Offset 6 5)) (off_r (Offset 6 5)) = Some 4"
    by (simp_all add: MapAwareEntity_new_def two_cell_world(4))
  obtain w' where w': "run_op demo_env \<lparr>mo_type = REMOVE_ENTITY, mo_offset = Offset 6 5, mo_entity = Some 3, mo_param = None\<rparr> two_cell_world = Inr w'"
    using remove_entity_total [OF two_cell_world(1,2) g despawn_fits two_cell_world(5)] by (elim exE conjE)
  have "(en_id ?x, 3) \<in> set (cl_entities ?c)" "cl_offset ?c \<noteq> Offset 6 5"
    by (simp_all add: MapAwareEntity_new_def Cell_new_def)
  from stale_removal_dangles [OF calm_map_ok [OF two_cell_world(1)] two_cell_world(6) this(1) two_cell_world(2) this(2) g(2) w']
  show ?thesis using w' by (auto simp: MapAwareEntity_new_def)
qed

end
