(* ===== verification/Server.thy ===== *)
theory Server
  imports Entering
begin

text \<open>
  Clients and the server (\<^verbatim>\<open>src/server/client.cpp\<close>, \<^verbatim>\<open>server.cpp\<close>, \<^verbatim>\<open>defs/atomic_autoincrement.hpp\<close>):
  accepting, reading, closing and destroying clients, the queue of server operations and the
  update that ties the map, the executor and that queue together. The asynchronous operations
  of \<^verbatim>\<open>boost::asio\<close> that are under way are a list, and a completion handler runs as one step; a
  cancelled operation completes with \<^verbatim>\<open>operation_aborted\<close>. The pure virtual functions of the
  server are fields of \<open>server_env\<close>.
\<close>

section \<open>Data\<close>

datatype client_status = INITIALIZED | IN_WORLD | CLOSED

record client =
  ct_status :: client_status
  ct_entity :: addr
  ct_packet :: packet
  ct_readTimes :: uint8

datatype operation_type = ACCEPT | CLOSE

text \<open>The error of an operation is a reference that nothing reads.\<close>

record operation =
  op_type :: operation_type
  op_client :: addr

text \<open>
  An operation under way: the acceptor waits for a connection of a client, a client reads
  \<open>len\<close> bytes to position \<open>pos\<close> of its packet, or a client waits for its timer; the boolean says
  that it has been cancelled.
\<close>

datatype io = Accepting addr | Reading addr nat nat bool | Waiting addr bool

datatype io_result = Success "uint8 list" | Eof | Failure

record server =
  sv_world :: world
  sv_clients :: "addr \<Rightarrow> client option"
  sv_next :: addr
  sv_ops :: "operation bqueue"
  sv_exec :: "(nat, nat) executor"
  sv_io :: "io list"
  sv_lastUpdate :: int
  sv_prevSleepTime :: int
  sv_last :: uint64

text \<open>
  \<open>se_newMapAwareEntity\<close> makes an entity, for an identifier and a client, at the address the
  allocator gave (\<open>sv_next\<close> counts addresses); \<open>se_worker\<close> is the client a work was made for,
  \<open>se_works\<close> what the works of the server do.
\<close>

record server_env =
  se_env :: env
  se_newMapAwareEntity :: "uint64 \<Rightarrow> addr \<Rightarrow> addr \<Rightarrow> world \<Rightarrow> world"
  se_destroyMapAwareEntity :: "addr \<Rightarrow> world \<Rightarrow> world"
  se_handleRead :: "addr \<Rightarrow> nat \<Rightarrow> server \<Rightarrow> fault + server"
  se_works :: "(nat, nat, fault + server) program"
  se_worker :: "nat \<Rightarrow> addr option"

section \<open>Clients\<close>

definition AtomicAutoIncrement_get :: "uint64 \<Rightarrow> uint64 \<times> uint64" where
  "AtomicAutoIncrement_get counter = (counter + 1, counter + 1)"

definition client_at :: "addr \<Rightarrow> server \<Rightarrow> fault + client" where
  "client_at c s = (case sv_clients s c of None \<Rightarrow> Inl UseAfterFree | Some x \<Rightarrow> Inr x)"

definition set_client :: "addr \<Rightarrow> client \<Rightarrow> server \<Rightarrow> server" where
  "set_client c x s = s\<lparr>sv_clients := (sv_clients s)(c := Some x)\<rparr>"

definition on_rx :: "(reactive \<Rightarrow> reactive) \<Rightarrow> server \<Rightarrow> server" where
  "on_rx f s = s\<lparr>sv_world := (sv_world s)\<lparr>w_rx := f (w_rx (sv_world s))\<rparr>\<rparr>"

definition Client_new :: "server_env \<Rightarrow> uint64 \<Rightarrow> server \<Rightarrow> addr \<times> server" where
  "Client_new se ident s =
     (let c = sv_next s;
          (p, rx) = Packet_new (ev_junk_buffer (se_env se)) (w_rx (sv_world s));
          e = c + 1;
          w = se_newMapAwareEntity se ident c e ((sv_world s)\<lparr>w_rx := rx\<rparr>)
      in (c, set_client c \<lparr>ct_status = INITIALIZED, ct_entity = e, ct_packet = p, ct_readTimes = 0\<rparr>
               (s\<lparr>sv_next := e + 1, sv_world := w\<rparr>)))"

definition Client_delete :: "server_env \<Rightarrow> addr \<Rightarrow> server \<Rightarrow> fault + server" where
  "Client_delete se c s =
     rbind (client_at c s) (\<lambda>x.
       case Packet_destroy (ct_packet x) (w_rx (sv_world s)) of
         Inl f \<Rightarrow> Inl (PacketFault f)
       | Inr rx \<Rightarrow>
           Inr (s\<lparr>sv_world := se_destroyMapAwareEntity se (ct_entity x) ((sv_world s)\<lparr>w_rx := rx\<rparr>),
                  sv_clients := (sv_clients s)(c := None)\<rparr>))"

definition Client_id :: "addr \<Rightarrow> server \<Rightarrow> fault + uint64" where
  "Client_id c s = rbind (client_at c s) (\<lambda>x. rbind (entity_at (ct_entity x) (sv_world s)) (\<lambda>y. Inr (en_id y)))"

definition inMap :: "addr \<Rightarrow> server \<Rightarrow> fault + bool" where
  "inMap c s = rbind (client_at c s) (\<lambda>x. rbind (entity_at (ct_entity x) (sv_world s)) (\<lambda>y. Inr (en_cell y \<noteq> None)))"

fun cancel_wait :: "addr \<Rightarrow> io \<Rightarrow> io" where
  "cancel_wait c (Waiting d cancelled) = Waiting d (cancelled \<or> d = c)"
| "cancel_wait c i = i"

fun cancel_read :: "addr \<Rightarrow> io \<Rightarrow> io" where
  "cancel_read c (Reading d pos len cancelled) = Reading d pos len (cancelled \<or> d = c)"
| "cancel_read c i = i"

text \<open>\<^verbatim>\<open>_timer.cancel()\<close> and \<^verbatim>\<open>_socket.close()\<close>.\<close>

definition timer_cancel :: "addr \<Rightarrow> server \<Rightarrow> server" where
  "timer_cancel c s = s\<lparr>sv_io := map (cancel_wait c) (sv_io s)\<rparr>"

definition socket_close :: "addr \<Rightarrow> server \<Rightarrow> server" where
  "socket_close c s = s\<lparr>sv_io := map (cancel_read c) (sv_io s)\<rparr>"

definition scheduleRead :: "addr \<Rightarrow> uint16 \<Rightarrow> bool \<Rightarrow> server \<Rightarrow> fault + server" where
  "scheduleRead c bytesToRead rst s =
     rbind (client_at c s) (\<lambda>x.
       let s = timer_cancel c s;
           x = (if rst then x\<lparr>ct_readTimes := 0, ct_packet := reset (ct_packet x)\<rparr> else x)
       in case recvBuffer bytesToRead (ct_packet x) of
            Inl f \<Rightarrow> Inl (PacketFault f)
          | Inr (pos, len) \<Rightarrow>
              Inr (set_client c x (s\<lparr>sv_io := sv_io s @ [Reading c pos len False, Waiting c False]\<rparr>)))"

text \<open>The result of the push is ignored.\<close>

definition push_operation :: "operation \<Rightarrow> server \<Rightarrow> server" where
  "push_operation op s = s\<lparr>sv_ops := fst (bq_push op (sv_ops s))\<rparr>"

definition handleClose :: "addr \<Rightarrow> server \<Rightarrow> server" where
  "handleClose c s = push_operation \<lparr>op_type = CLOSE, op_client = c\<rparr> (on_rx onClientClosed s)"

definition Client_close :: "addr \<Rightarrow> server \<Rightarrow> fault + server" where
  "Client_close c s =
     rbind (client_at c s) (\<lambda>x.
       if ct_status x \<noteq> CLOSED then
         let s = socket_close c (timer_cancel c s)
         in rbind (entity_at (ct_entity x) (sv_world s)) (\<lambda>y.
            rbind (case en_cell y of
                     None \<Rightarrow> Inr (sv_world s)
                   | Some a \<Rightarrow> removeFrom_cell (Some a) (ct_entity x) None (sv_world s)) (\<lambda>w.
              Inr (handleClose c (set_client c (x\<lparr>ct_status := CLOSED\<rparr>) (s\<lparr>sv_world := w\<rparr>)))))
       else Inr s)"

text \<open>The completion handlers of \<^verbatim>\<open>scheduleRead\<close>; the socket has written the bytes into the packet.\<close>

definition read_done :: "server_env \<Rightarrow> addr \<Rightarrow> nat \<Rightarrow> io_result \<Rightarrow> server \<Rightarrow> fault + server" where
  "read_done se c pos r s =
     (case r of
        Eof \<Rightarrow> Client_close c s
      | Success bs \<Rightarrow>
          rbind (client_at c s) (\<lambda>x.
            case poke pos bs (ct_packet x) of
              Inl f \<Rightarrow> Inl (PacketFault f)
            | Inr p \<Rightarrow>
                se_handleRead se c (length bs)
                  (set_client c (x\<lparr>ct_readTimes := ct_readTimes x + 1, ct_packet := addSize (of_nat (length bs)) p\<rparr>) s))
      | Failure \<Rightarrow> Inr s)"

definition wait_done :: "addr \<Rightarrow> io_result \<Rightarrow> server \<Rightarrow> fault + server" where
  "wait_done c r s = (case r of Success _ \<Rightarrow> Client_close c s | _ \<Rightarrow> Inr s)"

section \<open>The server\<close>

definition WORLD_HEART_BEAT :: int where "WORLD_HEART_BEAT = 50"

definition Server_new :: "world \<Rightarrow> int \<Rightarrow> server" where
  "Server_new w junk =
     \<lparr>sv_world = w, sv_clients = (\<lambda>_. None), sv_next = 0, sv_ops = \<lparr>cap = Some 1024, items = []\<rparr>,
      sv_exec = Executor_new 8192, sv_io = [], sv_lastUpdate = 0, sv_prevSleepTime = junk, sv_last = 0\<rparr>"

definition newClient :: "server_env \<Rightarrow> uint64 \<Rightarrow> server \<Rightarrow> addr \<times> server" where
  "newClient se ident s = Client_new se ident s"

definition destroyClient :: "server_env \<Rightarrow> addr \<Rightarrow> server \<Rightarrow> fault + server" where
  "destroyClient se c s = Client_delete se c s"

definition startAccept :: "server_env \<Rightarrow> server \<Rightarrow> server" where
  "startAccept se s =
     (let (ident, counter) = AtomicAutoIncrement_get (sv_last s);
          (c, s) = newClient se ident (s\<lparr>sv_last := counter\<rparr>)
      in s\<lparr>sv_io := sv_io s @ [Accepting c]\<rparr>)"

definition accept_done :: "server_env \<Rightarrow> addr \<Rightarrow> server \<Rightarrow> server" where
  "accept_done se c s =
     startAccept se (push_operation \<lparr>op_type = ACCEPT, op_client = c\<rparr> (on_rx onClientCreated s))"

text \<open>One completion handler, run by \<^verbatim>\<open>updateIO\<close>.\<close>

definition io_done :: "server_env \<Rightarrow> io \<Rightarrow> io_result \<Rightarrow> server \<Rightarrow> fault + server" where
  "io_done se i r s =
     (let s = s\<lparr>sv_io := remove1 i (sv_io s)\<rparr>
      in case i of
           Accepting c \<Rightarrow> Inr (accept_done se c s)
         | Reading c pos len cancelled \<Rightarrow> read_done se c pos r s
         | Waiting c cancelled \<Rightarrow> wait_done c r s)"

definition handleAccept :: "addr \<Rightarrow> server \<Rightarrow> server" where
  "handleAccept c s = on_rx onClientAccepted s"

definition onWorkError :: "addr option \<Rightarrow> server \<Rightarrow> fault + server" where
  "onWorkError executor s = rbind (the_ptr executor) (\<lambda>c. Client_close c s)"

text \<open>The body of the loop over the queue; \<open>pending\<close> are the operations to queue again.\<close>

definition run_operation :: "server_env \<Rightarrow> operation \<Rightarrow> operation list \<times> server \<Rightarrow> fault + (operation list \<times> server)" where
  "run_operation se op = (\<lambda>(pending, s).
     case op_type op of
       ACCEPT \<Rightarrow> Inr (pending, handleAccept (op_client op) s)
     | CLOSE \<Rightarrow>
         rbind (inMap (op_client op) s) (\<lambda>b.
           if b then Inr (pending @ [op], s)
           else rbind (destroyClient se (op_client op) s) (\<lambda>s. Inr (pending, on_rx onClientDestroyed s))))"

definition runScheduledOperations :: "server_env \<Rightarrow> server \<Rightarrow> fault + server" where
  "runScheduledOperations se s =
     rbind (rfold (run_operation se) (items (sv_ops s)) ([], s\<lparr>sv_ops := (sv_ops s)\<lparr>items := []\<rparr>\<rparr>))
       (\<lambda>(pending, s). Inr (fold push_operation pending s))"

text \<open>A fault of a work stops the server, so the works run on the result type.\<close>

definition server_works :: "server_env \<Rightarrow> (nat, nat, fault + server) program" where
  "server_works se = (se_works se)\<lparr>pg_onWorkError := \<lambda>job r. rbind r (onWorkError (se_worker se job))\<rparr>"

definition run_jobs :: "server_env \<Rightarrow> int \<Rightarrow> server \<Rightarrow> fault + server" where
  "run_jobs se now s =
     (case executeJobs (ev_fuel (se_env se)) (server_works se) now (sv_exec s, Inr s) of
        Inl f \<Rightarrow> Inl (ExecFault f)
      | Inr (ex, r) \<Rightarrow> rbind r (\<lambda>s. Inr (s\<lparr>sv_exec := ex\<rparr>)))"

text \<open>How long the update sleeps, in milliseconds.\<close>

definition next_sleep :: "int \<Rightarrow> int \<Rightarrow> int" where
  "next_sleep diff prev =
     (if diff \<le> WORLD_HEART_BEAT + prev then WORLD_HEART_BEAT + prev - diff else 0)"

definition on_world :: "(world \<Rightarrow> fault + world) \<Rightarrow> server \<Rightarrow> fault + server" where
  "on_world f s = rbind (f (sv_world s)) (\<lambda>w. Inr (s\<lparr>sv_world := w\<rparr>))"

definition Server_update ::
    "server_env \<Rightarrow> (nat, nat, world) program \<Rightarrow> int \<Rightarrow> char option \<Rightarrow> server \<Rightarrow> fault + server" where
  "Server_update se pg now key s =
     (let ev = (se_env se)\<lparr>ev_now := now\<rparr>;
          diff = duration_cast (now - sv_lastUpdate s)
      in rbind (on_world (Map_update ev pg (of_int diff)) (s\<lparr>sv_lastUpdate := now\<rparr>)) (\<lambda>s.
         rbind (run_jobs se now s) (\<lambda>s.
         rbind (runScheduledOperations se s) (\<lambda>s.
         rbind (on_world (Map_cleanup ev (of_int diff)) s) (\<lambda>s.
         let s = on_rx (\<lambda>rx. fst (Reactive_update key now rx)) s
         in Inr (s\<lparr>sv_prevSleepTime := next_sleep diff (sv_prevSleepTime s)\<rparr>))))))"

end
