(* ===== verification/Client_Lifecycle.thy ===== *)
theory Client_Lifecycle
  imports Server
begin

text \<open>
  The life of a client, from its creation to its deletion: an invariant of the server that
  every completion handler, every call of the application and every update keeps. It rests on
  what entities keep through a round of the map: their identifiers and clients.
\<close>

section \<open>What entities keep\<close>

definition entity_key :: "world \<Rightarrow> addr \<Rightarrow> (uint64 \<times> addr option) option" where
  "entity_key w e = map_option (\<lambda>x. (en_id x, en_client x)) (w_entities w e)"

lemma entity_key_updates [simp]:
  "entity_key (w\<lparr>w_ops := q\<rparr>) = entity_key w" "entity_key (w\<lparr>w_rx := rx\<rparr>) = entity_key w"
  "entity_key (push_op op w) = entity_key w"
  by (simp_all add: entity_key_def fun_eq_iff push_op_def)

lemma entity_key_set_entity [simp]:
  "entity_key (set_entity e y w) = (entity_key w)(e := Some (en_id y, en_client y))"
  by (auto simp: entity_key_def fun_eq_iff)

lemma entity_key_None [simp]: "entity_key w e = None \<longleftrightarrow> w_entities w e = None"
  by (simp add: entity_key_def)

lemma entity_keyE:
  assumes "entity_key w e = Some (i, c)"
  obtains y where "w_entities w e = Some y" and "en_id y = i" and "en_client y = c"
  using assms by (auto simp: entity_key_def)

lemma world_step_entity_key: "world_step ev k w w' \<Longrightarrow> entity_key w' = entity_key w"
  by (erule world_stepE) (auto simp: entity_key_def fun_eq_iff push_op_def)

lemma steps_entity_key: "steps ev K w w' \<Longrightarrow> entity_key w' = entity_key w"
  by (erule steps_invariant [where P = "\<lambda>v. entity_key v = entity_key w"]) (simp_all add: world_step_entity_key)

lemma run_op_entity_key:
  assumes "run_op ev op w = Inr w'"
  shows "entity_key w' = entity_key w"
proof (cases "mo_type op = DESTROY")
  case True
  with assms show ?thesis
    by (auto simp: run_op_def run_destroy_def rbind_eq_Inr world_simps entity_key_def fun_eq_iff)
next
  case False
  with assms show ?thesis using run_op_not_destroy_steps steps_entity_key by blast
qed

lemma Map_update_entity_key:
  assumes "Map_update ev pg elapsed w = Inr w'" and "program_within ev UNIV pg"
  shows "entity_key w' = entity_key w"
proof -
  obtain w1 where w1: "Map_runScheduledOperations ev w = Inr w1"
    and w': "Cluster_update ev (MapAwareEntity_update ev pg elapsed) w1 = Inr w'"
    using assms(1) by (auto simp: Map_update_def rbind_eq_Inr)
  have "entity_key w1 = entity_key w"
    using w1 unfolding Map_runScheduledOperations_def
    by (rule rfold_invariant [where P = "\<lambda>v. entity_key v = entity_key w"]) (simp_all add: run_op_entity_key)
  moreover have "steps ev UNIV w1 w'"
    using reaches_update [OF _ assms(2)] w' by (simp add: reaches_def)
  ultimately show ?thesis using steps_entity_key by metis
qed

lemma Map_cleanup_entity_key: "Map_cleanup ev elapsed w = Inr w' \<Longrightarrow> entity_key w' = entity_key w"
  using reaches_Map_cleanup [of UNIV] steps_entity_key by (simp add: reaches_def) blast

section \<open>The invariant\<close>

text \<open>The clients whose \<^verbatim>\<open>CLOSE\<close> is queued, and the clients that are alive and not closed.\<close>

definition closing :: "server \<Rightarrow> addr list" where
  "closing s = map op_client (filter (\<lambda>op. op_type op = CLOSE) (items (sv_ops s)))"

definition is_open :: "server \<Rightarrow> addr \<Rightarrow> bool" where
  "is_open s c \<longleftrightarrow> (\<exists>x. sv_clients s c = Some x \<and> ct_status x \<noteq> CLOSED)"

definition client_key :: "server \<Rightarrow> addr \<Rightarrow> (uint64 \<times> addr option) option" where
  "client_key s c = Option.bind (sv_clients s c) (\<lambda>x. entity_key (sv_world s) (ct_entity x))"

text \<open>
  Every live client has a well-formed packet and a live entity of its own that knows it, with
  an identifier that no other client has, and addresses are allocated once.
\<close>

definition clients_ok :: "server \<Rightarrow> bool" where
  "clients_ok s \<longleftrightarrow>
     (\<forall>c x. sv_clients s c = Some x \<longrightarrow> c < sv_next s \<and> pk_wf (ct_packet x)
        \<and> (\<exists>i. client_key s c = Some (i, Some c) \<and> 0 < i \<and> i \<le> sv_last s))
     \<and> (\<forall>c d i. client_key s c = Some (i, Some c) \<longrightarrow> client_key s d = Some (i, Some d) \<longrightarrow> c = d)
     \<and> (\<forall>e. entity_key (sv_world s) e \<noteq> None \<longrightarrow> e < sv_next s)"

text \<open>
  A queued \<^verbatim>\<open>CLOSE\<close> belongs to a live client that is closed, no client has two, and the queue
  holds no more than its capacity.
\<close>

definition closing_ok :: "server \<Rightarrow> bool" where
  "closing_ok s \<longleftrightarrow> distinct (closing s) \<and> (\<forall>n. cap (sv_ops s) = Some n \<longrightarrow> length (items (sv_ops s)) \<le> n)
     \<and> (\<forall>c\<in>set (closing s). \<exists>x. sv_clients s c = Some x \<and> ct_status x = CLOSED)"

text \<open>
  Only open clients have reads and timers under way that are not cancelled; a client has at most
  one read, which continues the packet and fits it.
\<close>

fun is_read :: "addr \<Rightarrow> io \<Rightarrow> bool" where
  "is_read c (Reading d pos len cancelled) \<longleftrightarrow> d = c \<and> \<not> cancelled"
| "is_read c _ \<longleftrightarrow> False"

fun pending_for :: "addr \<Rightarrow> io \<Rightarrow> bool" where
  "pending_for c (Reading d pos len cancelled) \<longleftrightarrow> d = c \<and> \<not> cancelled"
| "pending_for c (Waiting d cancelled) \<longleftrightarrow> d = c \<and> \<not> cancelled"
| "pending_for c (Accepting d) \<longleftrightarrow> False"

fun io_fits :: "io \<Rightarrow> client \<Rightarrow> bool" where
  "io_fits (Reading d pos len cancelled) x \<longleftrightarrow> pos = unat (pk_size (ct_packet x)) \<and> pos + len \<le> BUFFER_SIZE"
| "io_fits _ x \<longleftrightarrow> True"

definition io_ok :: "server \<Rightarrow> bool" where
  "io_ok s \<longleftrightarrow> (\<forall>c. length (filter (is_read c) (sv_io s)) \<le> 1)
     \<and> (\<forall>i\<in>set (sv_io s). \<forall>c. pending_for c i \<longrightarrow>
          (\<exists>x. sv_clients s c = Some x \<and> ct_status x \<noteq> CLOSED \<and> io_fits i x))"

definition server_ok :: "server \<Rightarrow> bool" where
  "server_ok s \<longleftrightarrow> clients_ok s \<and> closing_ok s \<and> io_ok s"

lemmas server_ok_defs = server_ok_def clients_ok_def closing_ok_def io_ok_def client_key_def closing_def

section \<open>Primitive changes\<close>

lemma server_ok_world:
  "entity_key w = entity_key (sv_world s) \<Longrightarrow> server_ok (s\<lparr>sv_world := w\<rparr>) = server_ok s"
  by (simp add: server_ok_defs)

lemma server_ok_frame [simp]:
  "server_ok (s\<lparr>sv_exec := ex\<rparr>) = server_ok s" "server_ok (s\<lparr>sv_lastUpdate := t\<rparr>) = server_ok s"
  "server_ok (s\<lparr>sv_prevSleepTime := t\<rparr>) = server_ok s" "server_ok (on_rx f s) = server_ok s"
  by (simp_all add: server_ok_defs on_rx_def)

lemma length_filter_map_le:
  "(\<And>x. P (f x) \<Longrightarrow> P x) \<Longrightarrow> length (filter P (map f xs)) \<le> length (filter P xs)"
  by (induction xs) (auto simp: le_Suc_eq)

lemma length_filter_remove1: "x \<in> set xs \<Longrightarrow> P x \<Longrightarrow> length (filter P xs) = length (filter P (remove1 x xs)) + 1"
  by (induction xs) auto

lemma io_ok_map:
  assumes "io_ok s" and "\<And>c i. is_read c (f i) \<Longrightarrow> is_read c i"
    and "\<And>c i. pending_for c (f i) \<Longrightarrow> pending_for c i" and "\<And>i x. io_fits (f i) x = io_fits i x"
  shows "io_ok (s\<lparr>sv_io := map f (sv_io s)\<rparr>)"
proof -
  have "length (filter (is_read c) (map f (sv_io s))) \<le> 1" for c
    using length_filter_map_le [of "is_read c" f "sv_io s"] assms(1,2) unfolding io_ok_def
    by (meson le_trans)
  then show ?thesis using assms(1,3,4) unfolding io_ok_def by auto
qed

lemma cancel_wait_simps:
  "is_read c (cancel_wait d i) = is_read c i" "pending_for c (cancel_wait d i) \<Longrightarrow> pending_for c i"
  "io_fits (cancel_wait d i) x = io_fits i x"
  by (cases i; auto)+

lemma cancel_read_simps:
  "is_read c (cancel_read d i) \<Longrightarrow> is_read c i" "pending_for c (cancel_read d i) \<Longrightarrow> pending_for c i"
  "io_fits (cancel_read d i) x = io_fits i x"
  by (cases i; auto)+

lemma cancel_wait_pending: "pending_for c (cancel_wait c i) = is_read c i"
  by (cases i) auto

lemma io_fits_wait: "pending_for c i \<Longrightarrow> \<not> is_read c i \<Longrightarrow> io_fits i x"
  by (cases i) auto

lemma cancelled_nothing_pending: "\<not> pending_for c (cancel_read c (cancel_wait c i))"
  by (cases i) auto

lemma io_ok_timer_cancel: "io_ok s \<Longrightarrow> io_ok (timer_cancel c s)"
  unfolding timer_cancel_def by (rule io_ok_map) (auto simp: cancel_wait_simps)

lemma io_ok_socket_close: "io_ok s \<Longrightarrow> io_ok (socket_close c s)"
  unfolding socket_close_def by (rule io_ok_map) (auto simp: cancel_read_simps)

lemma server_ok_io:
  "server_ok (s\<lparr>sv_io := is\<rparr>) \<longleftrightarrow> clients_ok s \<and> closing_ok s \<and> io_ok (s\<lparr>sv_io := is\<rparr>)"
  by (simp add: server_ok_defs)

lemma server_ok_io_done: "server_ok s \<Longrightarrow> server_ok (s\<lparr>sv_io := remove1 i (sv_io s)\<rparr>)"
proof -
  have "length (filter P (remove1 i xs)) \<le> length (filter P xs)" for P and xs :: "io list"
    by (induction xs) auto
  then show "server_ok s \<Longrightarrow> ?thesis"
    unfolding server_ok_io by (auto simp: server_ok_def io_ok_def dest: notin_set_remove1 intro: le_trans)
qed

lemma set_client_sel [simp]:
  "sv_clients (set_client c x s) = (sv_clients s)(c := Some x)" "sv_world (set_client c x s) = sv_world s"
  "sv_next (set_client c x s) = sv_next s" "sv_ops (set_client c x s) = sv_ops s" "sv_io (set_client c x s) = sv_io s"
  "sv_last (set_client c x s) = sv_last s" "sv_exec (set_client c x s) = sv_exec s"
  by (simp_all add: set_client_def)

lemma on_rx_sel [simp]:
  "sv_clients (on_rx f s) = sv_clients s" "sv_next (on_rx f s) = sv_next s" "sv_ops (on_rx f s) = sv_ops s"
  "sv_io (on_rx f s) = sv_io s" "sv_last (on_rx f s) = sv_last s" "sv_exec (on_rx f s) = sv_exec s"
  "w_entities (sv_world (on_rx f s)) = w_entities (sv_world s)"
  by (simp_all add: on_rx_def)

lemma set_client_world: "set_client c x (s\<lparr>sv_world := w\<rparr>) = (set_client c x s)\<lparr>sv_world := w\<rparr>"
  by (simp add: set_client_def)

lemma cancel_sel [simp]:
  "sv_clients (timer_cancel c s) = sv_clients s" "sv_world (timer_cancel c s) = sv_world s"
  "sv_next (timer_cancel c s) = sv_next s" "sv_ops (timer_cancel c s) = sv_ops s" "sv_last (timer_cancel c s) = sv_last s"
  "sv_clients (socket_close c s) = sv_clients s" "sv_world (socket_close c s) = sv_world s"
  "sv_next (socket_close c s) = sv_next s" "sv_ops (socket_close c s) = sv_ops s" "sv_last (socket_close c s) = sv_last s"
  by (simp_all add: timer_cancel_def socket_close_def)

lemma clients_ok_cong:
  "sv_clients s' = sv_clients s \<Longrightarrow> entity_key (sv_world s') = entity_key (sv_world s) \<Longrightarrow> sv_next s' = sv_next s
    \<Longrightarrow> sv_last s' = sv_last s \<Longrightarrow> clients_ok s' = clients_ok s"
  by (simp add: clients_ok_def client_key_def)

text \<open>A client may change everything but its entity.\<close>

lemma clients_ok_set_client:
  assumes "clients_ok s" and "sv_clients s c = Some x" and "ct_entity y = ct_entity x" and "pk_wf (ct_packet y)"
  shows "clients_ok (set_client c y s)"
proof -
  have "client_key (set_client c y s) = client_key s"
    using assms(2,3) by (auto simp: client_key_def fun_eq_iff)
  then show ?thesis
    using assms(1,2,4) unfolding clients_ok_def by auto
qed

lemma closing_ok_set_client:
  assumes "closing_ok s" and "sv_clients s c = Some x" and "ct_status y = ct_status x \<or> c \<notin> set (closing s)"
  shows "closing_ok (set_client c y s)"
  using assms by (auto simp: closing_ok_def closing_def)

lemma open_not_closing: "server_ok s \<Longrightarrow> is_open s c \<Longrightarrow> c \<notin> set (closing s)"
  by (auto simp: server_ok_def closing_ok_def is_open_def)

lemma io_ok_set_client:
  assumes "io_ok s" and "sv_clients s c = Some x"
    and "\<And>i. i \<in> set (sv_io s) \<Longrightarrow> pending_for c i \<Longrightarrow> ct_status y \<noteq> CLOSED \<and> io_fits i y"
  shows "io_ok (set_client c y s)"
  using assms unfolding io_ok_def by auto

section \<open>Operations\<close>

lemma scheduleRead_ok:
  assumes "server_ok s" and "is_open s c" and "filter (is_read c) (sv_io s) = []"
    and "scheduleRead c n rst s = Inr s'"
  shows "server_ok s'"
proof -
  obtain x where x: "sv_clients s c = Some x" "ct_status x \<noteq> CLOSED" using assms(2) by (auto simp: is_open_def)
  define y where "y = (if rst then x\<lparr>ct_readTimes := 0, ct_packet := reset (ct_packet x)\<rparr> else x)"
  define t where "t = timer_cancel c s"
  have fit: "unat (pk_size (ct_packet y)) + unat n \<le> BUFFER_SIZE"
    and s': "s' = set_client c y (t\<lparr>sv_io := sv_io t @ [Reading c (unat (pk_size (ct_packet y))) (unat n) False, Waiting c False]\<rparr>)"
    using assms(4) x(1) by (auto simp: scheduleRead_def client_at_def Let_def recvBuffer_def y_def t_def split: if_splits)
  have y: "ct_status y \<noteq> CLOSED" "ct_entity y = ct_entity x" "ct_status y = ct_status x" using x(2) by (simp_all add: y_def)
  have "pk_wf (ct_packet x)" using assms(1) x(1) unfolding server_ok_def clients_ok_def by blast
  then have "pk_wf (ct_packet y)" by (auto simp: y_def reset_def pk_wf_def)
  then have 1: "clients_ok s'"
    using clients_ok_set_client [of s c x y] clients_ok_cong [of s' "set_client c y s"] assms(1) x(1) y(2)
    by (simp add: s' t_def server_ok_def)
  have "closing_ok (set_client c y s)"
    using closing_ok_set_client assms(1) x(1) y(3) unfolding server_ok_def by blast
  then have 2: "closing_ok s'" by (simp add: s' t_def closing_ok_def closing_def)
  have no: "filter (is_read c) (sv_io t) = []"
    using assms(3) by (auto simp: t_def timer_cancel_def filter_empty_conv cancel_wait_simps)
  have none: "\<not> pending_for c i" if "i \<in> set (sv_io t)" for i
    using that assms(3) by (auto simp: filter_empty_conv t_def timer_cancel_def cancel_wait_pending)
  have "io_ok (set_client c y t)"
    using io_ok_set_client [of t c x y] io_ok_timer_cancel assms(1) x(1) none by (auto simp: server_ok_def t_def)
  then have 3: "io_ok s'"
    using y(1) fit no by (auto simp: io_ok_def s')
  from 1 2 3 show ?thesis by (simp add: server_ok_def)
qed

lemma closing_push:
  "closing (push_operation op s) = closing s @ (if op_type op = CLOSE \<and> \<not> bq_full (sv_ops s) then [op_client op] else [])"
  by (simp add: closing_def push_operation_def bq_push_def)

lemma push_operation_sel [simp]:
  "sv_clients (push_operation op s) = sv_clients s" "sv_world (push_operation op s) = sv_world s"
  "sv_next (push_operation op s) = sv_next s" "sv_io (push_operation op s) = sv_io s"
  "sv_last (push_operation op s) = sv_last s" "sv_exec (push_operation op s) = sv_exec s"
  by (simp_all add: push_operation_def)

lemma server_ok_push:
  assumes "server_ok s" and "op_type op = CLOSE \<Longrightarrow> op_client op \<notin> set (closing s)
      \<and> (\<exists>x. sv_clients s (op_client op) = Some x \<and> ct_status x = CLOSED)"
  shows "server_ok (push_operation op s)"
proof -
  have "closing_ok (push_operation op s)"
    using assms by (auto simp: server_ok_def closing_ok_def closing_push)
      (auto simp: push_operation_def bq_push_def bq_full_def)
  with assms(1) show ?thesis by (simp add: server_ok_def clients_ok_def io_ok_def client_key_def)
qed

text \<open>
  \<^verbatim>\<open>close\<close> of an open client: it is closed, its entity's removal is queued if it is in the map, its
  reads and its timer are cancelled and its \<^verbatim>\<open>CLOSE\<close> is queued, if the queue has room.
\<close>

lemma Client_close_eq:
  assumes "sv_clients s c = Some x" and "ct_status x \<noteq> CLOSED" and "Client_close c s = Inr s'"
  obtains w where "s' = push_operation \<lparr>op_type = CLOSE, op_client = c\<rparr>
      (on_rx onClientClosed (set_client c (x\<lparr>ct_status := CLOSED\<rparr>) (socket_close c (timer_cancel c s)\<lparr>sv_world := w\<rparr>)))"
    and "entity_key w = entity_key (sv_world s)" and "w_entities w = w_entities (sv_world s)"
  using assms
  by (auto simp: Client_close_def client_at_def handleClose_def Let_def rbind_eq_Inr world_simps removeFrom_cell_def
    removeFrom_def push_op_def entity_key_def fun_eq_iff split: option.splits)

lemma Client_close_ok:
  assumes "server_ok s" and "Client_close c s = Inr s'"
  shows "server_ok s'"
proof -
  obtain x where x: "sv_clients s c = Some x"
    using assms(2) by (auto simp: Client_close_def client_at_def split: option.splits)
  show ?thesis
  proof (cases "ct_status x = CLOSED")
    case True
    then show ?thesis using assms x by (simp add: Client_close_def client_at_def)
  next
    case False
    obtain w where s': "s' = push_operation \<lparr>op_type = CLOSE, op_client = c\<rparr>
        (on_rx onClientClosed (set_client c (x\<lparr>ct_status := CLOSED\<rparr>) (socket_close c (timer_cancel c s)\<lparr>sv_world := w\<rparr>)))"
      and w: "entity_key w = entity_key (sv_world s)"
      using Client_close_eq [OF x False assms(2)] .
    let ?y = "x\<lparr>ct_status := CLOSED\<rparr>" and ?t = "socket_close c (timer_cancel c s)"
    have nc: "c \<notin> set (closing s)" using open_not_closing [OF assms(1)] x False by (simp add: is_open_def)
    have "clients_ok (set_client c ?y ?t)"
    proof (rule clients_ok_set_client)
      show "clients_ok ?t" using clients_ok_cong [of ?t s] assms(1) by (simp add: server_ok_def)
      show "pk_wf (ct_packet ?y)" using assms(1) x unfolding server_ok_def clients_ok_def by simp
    qed (simp_all add: x)
    moreover have "closing_ok (set_client c ?y ?t)"
      using closing_ok_set_client [of ?t c x ?y] assms(1) x nc by (simp add: server_ok_def closing_ok_def closing_def)
    moreover have "io_ok (set_client c ?y ?t)"
    proof (rule io_ok_set_client)
      show "io_ok ?t" using assms(1) by (simp add: server_ok_def io_ok_timer_cancel io_ok_socket_close)
      show "ct_status ?y \<noteq> CLOSED \<and> io_fits i ?y" if "i \<in> set (sv_io ?t)" "pending_for c i" for i
        using that cancelled_nothing_pending by (auto simp: socket_close_def timer_cancel_def)
    qed (simp add: x)
    ultimately have "server_ok (set_client c ?y (?t\<lparr>sv_world := w\<rparr>))"
      using server_ok_world [of w "set_client c ?y ?t"] w by (simp add: server_ok_def set_client_world)
    then show ?thesis
      unfolding s' using nc by (intro server_ok_push) (simp_all add: closing_def)
  qed
qed

lemma read_done_packet:
  assumes "server_ok s" and "sv_clients s c = Some x" and "io_fits (Reading c pos (length bs) False) x"
    and "\<forall>i\<in>set (sv_io s). \<not> is_read c i" and "poke pos bs (ct_packet x) = Inr p"
    and "y = x\<lparr>ct_readTimes := k, ct_packet := addSize (of_nat (length bs)) p\<rparr>"
  shows "server_ok (set_client c y s)"
proof -
  have fit: "pos = unat (pk_size (ct_packet x))" "pos + length bs \<le> BUFFER_SIZE" using assms(3) by simp_all
  have wf: "pk_wf (ct_packet x)" using assms(1,2) unfolding server_ok_def clients_ok_def by blast
  have p: "p = (ct_packet x)\<lparr>pk_buffer := take pos (pk_buffer (ct_packet x)) @ bs @ drop (pos + length bs) (pk_buffer (ct_packet x))\<rparr>"
    using assms(5) by (auto simp: poke_def split: if_splits)
  have size: "unat (pk_size (ct_packet x) + of_nat (length bs)) = pos + length bs"
    using fit unat_add16 [of "pk_size (ct_packet x)" "length bs"] by (simp add: BUFFER_SIZE_def)
  have "pk_wf (addSize (of_nat (length bs)) p)"
    using wf fit size unfolding pk_wf_def word_le_nat_alt unat_bufferLen
    by (auto simp: p addSize_def le_max_iff_disj)
  then have 1: "clients_ok (set_client c y s)"
    using assms(1,2,6) by (intro clients_ok_set_client) (simp_all add: server_ok_def)
  have 2: "closing_ok (set_client c y s)"
    using assms(1,6) closing_ok_set_client [OF _ assms(2), of y] by (simp add: server_ok_def)
  have "io_ok (set_client c y s)"
  proof (rule io_ok_set_client [OF _ assms(2)])
    fix i assume i: "i \<in> set (sv_io s)" "pending_for c i"
    then have "ct_status x \<noteq> CLOSED"
      using assms(1,2) unfolding server_ok_def io_ok_def by fastforce
    with i assms(4,6) show "ct_status y \<noteq> CLOSED \<and> io_fits i y" by (simp add: io_fits_wait)
  qed (use assms(1) in \<open>simp add: server_ok_def\<close>)
  with 1 2 show ?thesis by (simp add: server_ok_def)
qed

section \<open>Accepting\<close>

text \<open>What the server relies on in the overrides that make and destroy entities.\<close>

definition entities_ok :: "server_env \<Rightarrow> bool" where
  "entities_ok se \<longleftrightarrow>
     (\<forall>ident c e w. \<exists>y. se_newMapAwareEntity se ident c e w = set_entity e y w
        \<and> en_id y = ident \<and> en_client y = Some c \<and> en_cell y = None)
     \<and> (\<forall>e w. se_destroyMapAwareEntity se e w = w\<lparr>w_entities := (w_entities w)(e := None)\<rparr>)
     \<and> length (ev_junk_buffer (se_env se)) = BUFFER_SIZE"

lemma startAccept_eq:
  assumes "entities_ok se"
  obtains y p rx where "startAccept se s =
      (set_client (sv_next s) \<lparr>ct_status = INITIALIZED, ct_entity = sv_next s + 1, ct_packet = p, ct_readTimes = 0\<rparr>
        (s\<lparr>sv_last := sv_last s + 1, sv_next := sv_next s + 2,
           sv_world := set_entity (sv_next s + 1) y ((sv_world s)\<lparr>w_rx := rx\<rparr>)\<rparr>))\<lparr>sv_io := sv_io s @ [Accepting (sv_next s)]\<rparr>"
    and "en_id y = sv_last s + 1" and "en_client y = Some (sv_next s)" and "en_cell y = None" and "pk_wf p"
proof -
  let ?p = "fst (Packet_new (ev_junk_buffer (se_env se)) (w_rx (sv_world s)))"
  have p: "pk_wf ?p" using assms by (simp add: entities_ok_def Packet_new_def pk_wf_def)
  obtain y where "se_newMapAwareEntity se (sv_last s + 1) (sv_next s) (sv_next s + 1)
      ((sv_world s)\<lparr>w_rx := onPacketCreated (w_rx (sv_world s))\<rparr>)
    = set_entity (sv_next s + 1) y ((sv_world s)\<lparr>w_rx := onPacketCreated (w_rx (sv_world s))\<rparr>)"
    "en_id y = sv_last s + 1" "en_client y = Some (sv_next s)" "en_cell y = None"
    using assms unfolding entities_ok_def by blast
  then show thesis
    using p that [of ?p y "onPacketCreated (w_rx (sv_world s))"]
    by (simp add: startAccept_def AtomicAutoIncrement_get_def newClient_def Client_new_def Packet_new_def set_client_def Let_def)
qed

lemma startAccept_ok:
  assumes "server_ok s" and "entities_ok se" and "sv_last s \<noteq> - 1"
  shows "server_ok (startAccept se s)"
proof -
  obtain y p rx where eq: "startAccept se s =
      (set_client (sv_next s) \<lparr>ct_status = INITIALIZED, ct_entity = sv_next s + 1, ct_packet = p, ct_readTimes = 0\<rparr>
        (s\<lparr>sv_last := sv_last s + 1, sv_next := sv_next s + 2,
           sv_world := set_entity (sv_next s + 1) y ((sv_world s)\<lparr>w_rx := rx\<rparr>)\<rparr>))\<lparr>sv_io := sv_io s @ [Accepting (sv_next s)]\<rparr>"
    and y: "en_id y = sv_last s + 1" "en_client y = Some (sv_next s)" "pk_wf p"
    using startAccept_eq [OF assms(2)] by metis
  let ?s = "startAccept se s" and ?c = "sv_next s"
  have ok: "clients_ok s" "closing_ok s" "io_ok s" using assms(1) by (simp_all add: server_ok_def)
  have fresh: "sv_clients s ?c = None" using ok(1) unfolding clients_ok_def by (metis less_irrefl not_Some_eq)
  have lt: "sv_last s < sv_last s + 1"
    using assms(3) unatSuc [of "sv_last s"] by (simp add: word_less_nat_alt add.commute eq_neg_iff_add_eq_0)
  have key: "client_key ?s d = (if d = ?c then Some (sv_last s + 1, Some ?c) else client_key s d)" for d
  proof (cases "sv_clients s d")
    case (Some x)
    then have "entity_key (sv_world s) (ct_entity x) \<noteq> None"
      using ok(1) unfolding clients_ok_def client_key_def by fastforce
    then have "ct_entity x < ?c" using ok(1) unfolding clients_ok_def by blast
    with Some fresh y show ?thesis by (auto simp: eq client_key_def)
  qed (auto simp: eq client_key_def y)
  have old: "sv_clients s d = Some x \<Longrightarrow> \<exists>i. client_key s d = Some (i, Some d) \<and> 0 < i \<and> i \<le> sv_last s" for d x
    using ok(1) unfolding clients_ok_def by blast
  have A: "d < sv_next ?s \<and> pk_wf (ct_packet x) \<and> (\<exists>i. client_key ?s d = Some (i, Some d) \<and> 0 < i \<and> i \<le> sv_last ?s)"
    if "sv_clients ?s d = Some x" for d x
  proof -
    from that consider "d = ?c" "ct_packet x = p" | "d \<noteq> ?c" "sv_clients s d = Some x"
      by (auto simp: eq split: if_splits)
    then show ?thesis
    proof cases
      case 1
      have "0 < sv_last s + 1" using lt by (metis le_less_trans word_zero_le)
      with 1 y(3) key show ?thesis by (simp add: eq)
    next
      case 2
      then have "d < sv_next s" "pk_wf (ct_packet x)" using ok(1) unfolding clients_ok_def by blast+
      with 2 old [of d x] key lt show ?thesis by (auto simp: eq)
    qed
  qed
  have B: "d = d'" if "client_key ?s d = Some (i, Some d)" "client_key ?s d' = Some (i, Some d')" for d d' i
  proof -
    have le: "i \<le> sv_last s" if "client_key s d = Some (i, Some d)" for d
      using that old [of d] by (cases "sv_clients s d") (auto simp: client_key_def)
    have "client_key s d = Some (i, Some d) \<Longrightarrow> client_key s d' = Some (i, Some d') \<Longrightarrow> d = d'"
      using ok(1) unfolding clients_ok_def by blast
    then show ?thesis using that lt le [of d] le [of d'] unfolding key by (auto split: if_splits)
  qed
  have C: "e < sv_next ?s" if "entity_key (sv_world ?s) e \<noteq> None" for e
  proof -
    have "e = ?c + 1 \<or> entity_key (sv_world s) e \<noteq> None" using that by (auto simp: eq simp del: entity_key_None split: if_splits)
    then show ?thesis using ok(1) unfolding clients_ok_def by (auto simp: eq)
  qed
  have "clients_ok ?s" unfolding clients_ok_def using A B C by blast
  moreover have "closing_ok ?s" using ok(2) fresh by (auto simp: eq closing_ok_def closing_def)
  moreover have "io_ok ?s" using ok(3) fresh by (fastforce simp: eq io_ok_def)
  ultimately show ?thesis by (simp add: server_ok_def)
qed

section \<open>The queue of operations\<close>

definition in_map :: "server \<Rightarrow> addr \<Rightarrow> bool" where
  "in_map s c \<longleftrightarrow> (\<exists>x y. sv_clients s c = Some x \<and> w_entities (sv_world s) (ct_entity x) = Some y \<and> en_cell y \<noteq> None)"

lemma live_entity:
  assumes "clients_ok s" and "sv_clients s c = Some x"
  obtains y where "w_entities (sv_world s) (ct_entity x) = Some y" and "en_client y = Some c" and "inMap c s = Inr (en_cell y \<noteq> None)"
    and "in_map s c \<longleftrightarrow> en_cell y \<noteq> None"
proof -
  obtain i where "client_key s c = Some (i, Some c)" using assms unfolding clients_ok_def by blast
  then obtain y where "w_entities (sv_world s) (ct_entity x) = Some y" "en_client y = Some c"
    using assms(2) by (auto simp: client_key_def elim: entity_keyE)
  then show thesis using that assms(2) by (simp add: inMap_def client_at_def in_map_def)
qed

text \<open>The map, less its entities and the counters of the monitor.\<close>

definition same_map :: "world \<Rightarrow> world \<Rightarrow> bool" where
  "same_map w w' \<longleftrightarrow> w_cells w' = w_cells w \<and> w_next w' = w_next w \<and> w_index w' = w_index w \<and> w_ops w' = w_ops w
     \<and> w_cluster w' = w_cluster w \<and> w_packets w' = w_packets w \<and> w_sent w' = w_sent w"

text \<open>The server without client \<open>c\<close>.\<close>

definition without :: "addr \<Rightarrow> server \<Rightarrow> server \<Rightarrow> bool" where
  "without c s s' \<longleftrightarrow> sv_clients s' = (sv_clients s)(c := None) \<and> sv_next s' = sv_next s \<and> sv_ops s' = sv_ops s
     \<and> sv_io s' = sv_io s \<and> sv_last s' = sv_last s \<and> sv_exec s' = sv_exec s \<and> same_map (sv_world s) (sv_world s')
     \<and> (\<forall>x. sv_clients s c = Some x \<longrightarrow> w_entities (sv_world s') = (w_entities (sv_world s))(ct_entity x := None))"

lemma destroyClient_total:
  assumes "clients_ok s" and "sv_clients s c = Some x" and "entities_ok se"
  shows "\<exists>s'. destroyClient se c s = Inr s' \<and> without c s s'"
proof -
  have "pk_wf (ct_packet x)" using assms unfolding clients_ok_def by blast
  then obtain rx where "Packet_destroy (ct_packet x) (w_rx (sv_world s)) = Inr rx"
    using Packet_destroy_total by metis
  then show ?thesis
    using assms(2,3) by (simp add: destroyClient_def Client_delete_def client_at_def entities_ok_def without_def same_map_def)
qed

text \<open>Deleting one client leaves the entities of the others alone.\<close>

lemma without_others:
  assumes "clients_ok s" and "sv_clients s c = Some x" and "without c s s'" and "d \<noteq> c"
  shows "client_key s' d = client_key s d" and "in_map s' d = in_map s d"
proof -
  have ne: "ct_entity z \<noteq> ct_entity x" if z: "sv_clients s d = Some z" for z
  proof
    assume eq: "ct_entity z = ct_entity x"
    obtain y where "w_entities (sv_world s) (ct_entity x) = Some y" "en_client y = Some c"
      using live_entity [OF assms(1,2)] .
    moreover obtain y' where "w_entities (sv_world s) (ct_entity z) = Some y'" "en_client y' = Some d"
      using live_entity [OF assms(1) z] .
    ultimately show False using eq assms(4) by simp
  qed
  show "client_key s' d = client_key s d" "in_map s' d = in_map s d"
    using assms(2-4) ne by (cases "sv_clients s d"; auto simp: without_def client_key_def in_map_def entity_key_def)+
qed

lemma without_clients_ok:
  assumes "clients_ok s" and "sv_clients s c = Some x" and "without c s s'"
  shows "clients_ok s'"
proof -
  have c: "client_key s' c = None" using assms(3) by (simp add: client_key_def without_def)
  have k: "client_key s' d = (if d = c then None else client_key s d)" for d
    using c without_others(1) [OF assms] by simp
  have e: "entity_key (sv_world s') f \<noteq> None \<Longrightarrow> entity_key (sv_world s) f \<noteq> None" for f
    using assms(2,3) by (auto simp: without_def split: if_splits)
  show ?thesis
    using assms(1,3) e unfolding clients_ok_def k by (auto simp: without_def split: if_splits)
qed

text \<open>The clients whose \<^verbatim>\<open>CLOSE\<close> is among the operations and that are in the map no more.\<close>

definition leaving :: "server \<Rightarrow> operation list \<Rightarrow> addr list" where
  "leaving s ops = map op_client (filter (\<lambda>op. op_type op = CLOSE \<and> \<not> in_map s (op_client op)) ops)"

definition staying :: "server \<Rightarrow> operation list \<Rightarrow> operation list" where
  "staying s ops = filter (\<lambda>op. op_type op = CLOSE \<and> in_map s (op_client op)) ops"

text \<open>The server without the clients \<open>cs\<close> and their entities.\<close>

definition purged :: "addr list \<Rightarrow> server \<Rightarrow> server \<Rightarrow> bool" where
  "purged cs s s' \<longleftrightarrow> sv_clients s' = (\<lambda>c. if c \<in> set cs then None else sv_clients s c)
     \<and> sv_next s' = sv_next s \<and> sv_ops s' = sv_ops s \<and> sv_io s' = sv_io s \<and> sv_last s' = sv_last s \<and> sv_exec s' = sv_exec s
     \<and> same_map (sv_world s) (sv_world s')
     \<and> (\<forall>e. w_entities (sv_world s') e =
          (if \<exists>c\<in>set cs. \<exists>x. sv_clients s c = Some x \<and> ct_entity x = e then None else w_entities (sv_world s) e))"

lemma in_map_on_rx [simp]: "in_map (on_rx f s) = in_map s"
  by (simp add: in_map_def fun_eq_iff)

lemma clients_ok_on_rx [simp]: "clients_ok (on_rx f s) = clients_ok s"
  by (rule clients_ok_cong) (simp_all add: entity_key_def fun_eq_iff)

lemma same_map_on_rx [simp]: "same_map (sv_world (on_rx f s)) w = same_map (sv_world s) w"
  by (simp add: same_map_def on_rx_def)

lemma purged_rx: "purged cs (on_rx f s) s' = purged cs s s'"
  unfolding purged_def on_rx_sel same_map_on_rx ..

lemma purged_Cons:
  assumes "without c s t" and "sv_clients s c = Some x" and "purged cs t s'" and "c \<notin> set cs"
  shows "purged (c # cs) s s'"
proof -
  have "w_entities (sv_world s') e = (if \<exists>d\<in>set (c # cs). \<exists>z. sv_clients s d = Some z \<and> ct_entity z = e
      then None else w_entities (sv_world s) e)" for e
  proof (cases "e = ct_entity x")
    case True
    then show ?thesis using assms by (simp add: purged_def without_def)
  next
    case False
    then have "(\<exists>d\<in>set (c # cs). \<exists>z. sv_clients s d = Some z \<and> ct_entity z = e)
        \<longleftrightarrow> (\<exists>d\<in>set cs. \<exists>z. sv_clients t d = Some z \<and> ct_entity z = e)"
      using assms(1,2,4) by (auto simp: without_def)
    moreover have "w_entities (sv_world t) e = w_entities (sv_world s) e"
      using assms(1,2) False by (simp add: without_def)
    moreover have "w_entities (sv_world s') e =
        (if \<exists>d\<in>set cs. \<exists>z. sv_clients t d = Some z \<and> ct_entity z = e then None else w_entities (sv_world t) e)"
      using assms(3) unfolding purged_def by blast
    ultimately show ?thesis by presburger
  qed
  then show ?thesis using assms by (simp add: purged_def without_def same_map_def fun_eq_iff)
qed

lemma leaving_staying_Cons [simp]:
  "leaving s (op # ops) = (if op_type op = CLOSE \<and> \<not> in_map s (op_client op) then [op_client op] else []) @ leaving s ops"
  "staying s (op # ops) = (if op_type op = CLOSE \<and> in_map s (op_client op) then [op] else []) @ staying s ops"
  by (simp_all add: leaving_def staying_def)

lemma run_operation_cases:
  "op_type op = ACCEPT \<Longrightarrow> run_operation se op (pending, s) = Inr (pending, on_rx onClientAccepted s)"
  "op_type op = CLOSE \<Longrightarrow> inMap (op_client op) s = Inr True \<Longrightarrow> run_operation se op (pending, s) = Inr (pending @ [op], s)"
  "op_type op = CLOSE \<Longrightarrow> inMap (op_client op) s = Inr False \<Longrightarrow> destroyClient se (op_client op) s = Inr t
    \<Longrightarrow> run_operation se op (pending, s) = Inr (pending, on_rx onClientDestroyed t)"
  by (simp_all add: run_operation_def handleAccept_def)

lemma run_operations_total:
  assumes "clients_ok s" and "entities_ok se" and "distinct (map op_client (filter (\<lambda>op. op_type op = CLOSE) ops))"
    and "\<forall>op\<in>set ops. op_type op = CLOSE \<longrightarrow> sv_clients s (op_client op) \<noteq> None"
  shows "\<exists>s'. rfold (run_operation se) ops (pending, s) = Inr (pending @ staying s ops, s') \<and> clients_ok s' \<and> purged (leaving s ops) s s'"
  using assms(1,3,4)
proof (induction ops arbitrary: s pending)
  case Nil
  then show ?case by (auto simp: staying_def leaving_def purged_def same_map_def)
next
  case (Cons op ops)
  let ?c = "op_client op"
  show ?case
  proof (cases "op_type op")
    case ACCEPT
    have "staying (on_rx f s) ops = staying s ops" "leaving (on_rx f s) ops = leaving s ops" for f
      by (simp_all add: staying_def leaving_def)
    with Cons.IH [of "on_rx onClientAccepted s" pending] Cons.prems ACCEPT show ?thesis
      by (simp add: run_operation_cases(1) purged_rx)
  next
    case CLOSE
    then obtain x where x: "sv_clients s ?c = Some x" using Cons.prems(3) by auto
    have y: "inMap ?c s = Inr (in_map s ?c)"
      by (rule live_entity [OF Cons.prems(1) x]) simp
    show ?thesis
    proof (cases "in_map s ?c")
      case True
      with Cons.IH [of s "pending @ [op]"] Cons.prems CLOSE y show ?thesis
        by (simp add: run_operation_cases(2))
    next
      case False
      obtain t where t: "destroyClient se ?c s = Inr t" "without ?c s t"
        using destroyClient_total [OF Cons.prems(1) x assms(2)] by blast
      have ne: "op_client p \<noteq> ?c" if "p \<in> set ops" "op_type p = CLOSE" for p
        using Cons.prems(2) CLOSE that by (force simp: image_iff)
      then have same: "in_map t (op_client p) = in_map s (op_client p)" if "p \<in> set ops" "op_type p = CLOSE" for p
        using that without_others(2) [OF Cons.prems(1) x t(2)] by blast
      have f: "staying t ops = staying s ops" "leaving t ops = leaving s ops"
        using same by (auto simp: staying_def leaving_def intro!: filter_cong arg_cong [where f = "map op_client"])
      have live: "\<forall>p\<in>set ops. op_type p = CLOSE \<longrightarrow> sv_clients t (op_client p) \<noteq> None"
        using Cons.prems(3) ne t(2) by (simp add: without_def)
      have "clients_ok t" using without_clients_ok [OF Cons.prems(1) x t(2)] .
      with Cons.IH [of "on_rx onClientDestroyed t" pending] live Cons.prems(2) CLOSE obtain s' where
        s': "rfold (run_operation se) ops (pending, on_rx onClientDestroyed t) = Inr (pending @ staying s ops, s')"
          "clients_ok s'" "purged (leaving s ops) t s'"
        using f by (auto simp: purged_rx staying_def leaving_def)
      have "?c \<notin> set (leaving s ops)" using ne by (force simp: leaving_def)
      with purged_Cons [OF t(2) x s'(3)] s' t(1) y False CLOSE show ?thesis
        by (simp add: run_operation_cases(3))
    qed
  qed
qed

lemma fold_push_operation:
  assumes "\<And>n. cap (sv_ops s) = Some n \<Longrightarrow> length (items (sv_ops s)) + length ops \<le> n"
  shows "fold push_operation ops s = s\<lparr>sv_ops := (sv_ops s)\<lparr>items := items (sv_ops s) @ ops\<rparr>\<rparr>"
  using assms
proof (induction ops arbitrary: s)
  case (Cons op ops)
  have "push_operation op s = s\<lparr>sv_ops := (sv_ops s)\<lparr>items := items (sv_ops s) @ [op]\<rparr>\<rparr>"
    using Cons.prems by (fastforce simp: push_operation_def bq_push_def bq_full_def split: option.splits)
  with Cons.IH [of "push_operation op s"] Cons.prems show ?case by simp
qed simp

text \<open>
  The whole of \<^verbatim>\<open>runScheduledOperations\<close>: it never faults, deletes exactly the clients in \<open>leaving\<close>
  with their entities, and keeps queued exactly the operations in \<open>staying\<close>.
\<close>

lemma runScheduledOperations_total:
  assumes "server_ok s" and "entities_ok se"
  shows "\<exists>s'. runScheduledOperations se s = Inr s' \<and> server_ok s'
    \<and> purged (leaving s (items (sv_ops s))) s (s'\<lparr>sv_ops := sv_ops s\<rparr>) \<and> items (sv_ops s') = staying s (items (sv_ops s))"
proof -
  let ?ops = "items (sv_ops s)" and ?s = "s\<lparr>sv_ops := (sv_ops s)\<lparr>items := []\<rparr>\<rparr>"
  have ok: "clients_ok s" "closing_ok s" "io_ok s" using assms(1) by (simp_all add: server_ok_def)
  have f: "staying ?s ops = staying s ops" "leaving ?s ops = leaving s ops" for ops
    by (simp_all add: staying_def leaving_def in_map_def)
  have "clients_ok ?s" using ok(1) clients_ok_cong [of ?s s] by simp
  moreover have "distinct (map op_client (filter (\<lambda>op. op_type op = CLOSE) ?ops))"
      "\<forall>op\<in>set ?ops. op_type op = CLOSE \<longrightarrow> sv_clients ?s (op_client op) \<noteq> None"
    using ok(2) by (auto simp: closing_ok_def closing_def)
  ultimately obtain t where t: "rfold (run_operation se) ?ops ([], ?s) = Inr (staying s ?ops, t)"
      "clients_ok t" "purged (leaving s ?ops) ?s t"
    using run_operations_total [of ?s se ?ops "[]"] assms(2) f by auto
  have len: "length (staying s ?ops) \<le> n" if "cap (sv_ops s) = Some n" for n
  proof -
    have "length (staying s ?ops) \<le> length ?ops" by (simp add: staying_def)
    also have "\<dots> \<le> n" using ok(2) that by (simp add: closing_ok_def)
    finally show ?thesis .
  qed
  let ?s' = "t\<lparr>sv_ops := (sv_ops t)\<lparr>items := staying s ?ops\<rparr>\<rparr>"
  have tops: "sv_ops t = (sv_ops s)\<lparr>items := []\<rparr>" using t(3) by (simp add: purged_def)
  then have run: "runScheduledOperations se s = Inr ?s'"
    using t(1) len fold_push_operation [of t "staying s ?ops"] by (simp add: runScheduledOperations_def)
  have "sv_clients ?s' c = sv_clients s c" if "c \<notin> set (leaving s ?ops)" for c
    using t(3) that by (simp add: purged_def)
  moreover have "op_client op \<notin> set (leaving s ?ops)" if "op \<in> set (staying s ?ops)" for op
    using that by (auto simp: staying_def leaving_def)
  ultimately have keep: "sv_clients ?s' (op_client op) = sv_clients s (op_client op)" if "op \<in> set (staying s ?ops)" for op
    using that by blast
  have cl: "closing ?s' = filter (in_map s) (closing s)"
    by (auto simp: closing_def staying_def filter_map comp_def intro!: arg_cong [where f = "map op_client"] filter_cong)
  have "closing_ok ?s'"
    using ok(2) len tops keep unfolding closing_ok_def cl
    by (auto simp: closing_def staying_def)
  moreover have "clients_ok ?s'" using t(2) clients_ok_cong [of ?s' t] by simp
  moreover have "io_ok ?s'"
  proof -
    have "sv_clients ?s' c = Some x" if "sv_clients s c = Some x" "ct_status x \<noteq> CLOSED" for c x
    proof -
      have "c \<notin> set (leaving s ?ops)"
        using ok(2) that unfolding closing_ok_def closing_def leaving_def by auto
      then show ?thesis using t(3) that(1) by (simp add: purged_def)
    qed
    then show ?thesis using ok(3) t(3) unfolding io_ok_def by (fastforce simp: purged_def)
  qed
  moreover have "purged (leaving s ?ops) s (?s'\<lparr>sv_ops := sv_ops s\<rparr>)"
    using t(3) by (simp add: purged_def cong: if_cong)
  ultimately show ?thesis using run by (auto simp: server_ok_def)
qed

section \<open>Runs of the server\<close>

text \<open>
  What the handlers of the application may do, one call at a time: start a read for an open
  client that has none under way, close a client, change the status of an open client, take
  bytes from the packet of a client, schedule works, add an entity of its own, and use the map.
\<close>

inductive app_step :: "server \<Rightarrow> server \<Rightarrow> bool" where
  reading: "is_open s c \<Longrightarrow> filter (is_read c) (sv_io s) = [] \<Longrightarrow> scheduleRead c n rst s = Inr s' \<Longrightarrow> app_step s s'"
| closes: "Client_close c s = Inr s' \<Longrightarrow> app_step s s'"
| status: "sv_clients s c = Some x \<Longrightarrow> ct_status x \<noteq> CLOSED \<Longrightarrow> st \<noteq> CLOSED
    \<Longrightarrow> app_step s (set_client c (x\<lparr>ct_status := st\<rparr>) s)"
| taking: "sv_clients s c = Some x \<Longrightarrow> n \<le> length (unread (ct_packet x))
    \<Longrightarrow> app_step s (set_client c (x\<lparr>ct_packet := consumed n (ct_packet x)\<rparr>) s)"
| works: "app_step s (s\<lparr>sv_exec := ex\<rparr>)"
| spawn: "en_client y = None \<Longrightarrow>
    app_step s (s\<lparr>sv_next := sv_next s + 1, sv_world := set_entity (sv_next s) y (sv_world s)\<rparr>)"
| uses_map: "entity_key w = entity_key (sv_world s) \<Longrightarrow> app_step s (s\<lparr>sv_world := w\<rparr>)"

text \<open>A handler may end in a fault, but a state it returns is reached by such calls.\<close>

definition app_result :: "fault + server \<Rightarrow> fault + server \<Rightarrow> bool" where
  "app_result r r' \<longleftrightarrow> (\<forall>s'. r' = Inr s' \<longrightarrow> (\<exists>s. r = Inr s \<and> app_step\<^sup>*\<^sup>* s s'))"

definition app_ok :: "server_env \<Rightarrow> bool" where
  "app_ok se \<longleftrightarrow> (\<forall>c n s. app_result (Inr s) (se_handleRead se c n s)) \<and> works_within app_result (server_works se)"

text \<open>How an operation under way may complete.\<close>

fun may_complete :: "io \<Rightarrow> io_result \<Rightarrow> server \<Rightarrow> bool" where
  "may_complete (Accepting c) r s \<longleftrightarrow> sv_last s \<noteq> - 1"
| "may_complete (Reading c pos len cancelled) (Success bs) s \<longleftrightarrow> \<not> cancelled \<and> length bs = len"
| "may_complete (Waiting c cancelled) (Success bs) s \<longleftrightarrow> \<not> cancelled"
| "may_complete i Eof s \<longleftrightarrow> (\<exists>c. pending_for c i)"
| "may_complete i Failure s \<longleftrightarrow> True"

inductive server_step :: "server_env \<Rightarrow> (nat, nat, world) program \<Rightarrow> server \<Rightarrow> server \<Rightarrow> bool" for se pg where
  start: "sv_last s \<noteq> - 1 \<Longrightarrow> server_step se pg s (startAccept se s)"
| complete: "i \<in> set (sv_io s) \<Longrightarrow> may_complete i r s \<Longrightarrow> io_done se i r s = Inr s' \<Longrightarrow> server_step se pg s s'"
| app: "app_step s s' \<Longrightarrow> server_step se pg s s'"
| tick: "Server_update se pg now key s = Inr s' \<Longrightarrow> server_step se pg s s'"

lemma server_ok_packet: "server_ok s \<Longrightarrow> sv_clients s c = Some x \<Longrightarrow> pk_wf (ct_packet x)"
  unfolding server_ok_def clients_ok_def by blast

lemma server_ok_set_client:
  assumes "server_ok s" and "sv_clients s c = Some x" and "ct_entity y = ct_entity x" and "pk_wf (ct_packet y)"
    and "ct_status y = CLOSED \<longleftrightarrow> ct_status x = CLOSED" and "pk_size (ct_packet y) = pk_size (ct_packet x)"
  shows "server_ok (set_client c y s)"
proof -
  have "ct_status y = ct_status x \<or> c \<notin> set (closing s)"
    using open_not_closing [OF assms(1), of c] assms(2,5) by (cases "ct_status x = CLOSED") (auto simp: is_open_def)
  then have "closing_ok (set_client c y s)"
    using closing_ok_set_client [OF _ assms(2)] assms(1) by (simp add: server_ok_def)
  moreover have fits: "io_fits i y = io_fits i x" for i using assms(6) by (cases i) simp_all
  have "io_ok (set_client c y s)"
  proof (rule io_ok_set_client [OF _ assms(2)])
    show "ct_status y \<noteq> CLOSED \<and> io_fits i y" if "i \<in> set (sv_io s)" "pending_for c i" for i
      using that assms(1,2,5) fits unfolding server_ok_def io_ok_def by fastforce
  qed (use assms(1) in \<open>simp add: server_ok_def\<close>)
  moreover have "clients_ok (set_client c y s)"
    using clients_ok_set_client [OF _ assms(2-4)] assms(1) by (simp add: server_ok_def)
  ultimately show ?thesis by (simp add: server_ok_def)
qed

lemma app_step_ok: "app_step s s' \<Longrightarrow> server_ok s \<Longrightarrow> server_ok s'"
proof (induction rule: app_step.induct)
  case (status s c x st)
  then show ?case
    by (intro server_ok_set_client [of s c x]) (simp_all add: server_ok_packet)
next
  case (taking s c x n)
  then show ?case
    by (intro server_ok_set_client [of s c x]) (simp_all add: server_ok_packet consumed_wf(1), simp add: consumed_def)
next
  case (spawn y s)
  have "client_key (s\<lparr>sv_next := sv_next s + 1, sv_world := set_entity (sv_next s) y (sv_world s)\<rparr>) = client_key s"
  proof
    fix c
    show "client_key (s\<lparr>sv_next := sv_next s + 1, sv_world := set_entity (sv_next s) y (sv_world s)\<rparr>) c = client_key s c"
    proof (cases "sv_clients s c")
      case (Some x)
      then have "entity_key (sv_world s) (ct_entity x) \<noteq> None"
        using spawn unfolding server_ok_def clients_ok_def client_key_def by fastforce
      then have "ct_entity x < sv_next s" using spawn unfolding server_ok_def clients_ok_def by blast
      with Some show ?thesis by (simp add: client_key_def)
    qed (simp add: client_key_def)
  qed
  with spawn show ?case
    by (auto simp: server_ok_def clients_ok_def closing_ok_def closing_def io_ok_def less_Suc_eq
      simp del: entity_key_None split: if_splits)
qed (auto intro: scheduleRead_ok Client_close_ok simp: server_ok_world)

lemma app_steps_ok: "app_step\<^sup>*\<^sup>* s s' \<Longrightarrow> server_ok s \<Longrightarrow> server_ok s'"
  by (induction rule: rtranclp_induct) (simp_all add: app_step_ok)

lemma app_result_ok:
  assumes "app_result (Inr s) (Inr s')" and "server_ok s"
  shows "server_ok s'"
proof -
  have "app_step\<^sup>*\<^sup>* s s'" using assms(1) by (simp add: app_result_def)
  then show ?thesis using assms(2) by (rule app_steps_ok)
qed

lemma app_result_trans:
  assumes "app_result a b" and "app_result b c"
  shows "app_result a c"
  unfolding app_result_def
proof (intro allI impI)
  fix s'' assume "c = Inr s''"
  then obtain s' where b: "b = Inr s'" "app_step\<^sup>*\<^sup>* s' s''" using assms(2) unfolding app_result_def by fast
  then obtain s where "a = Inr s" "app_step\<^sup>*\<^sup>* s s'" using assms(1) unfolding app_result_def by fast
  with b(2) show "\<exists>s. a = Inr s \<and> app_step\<^sup>*\<^sup>* s s''" by (auto intro: rtranclp_trans)
qed

lemma app_result_refl: "app_result r r"
  unfolding app_result_def by blast

lemma io_done_ok:
  assumes "server_ok s" and "entities_ok se" and "app_ok se" and "i \<in> set (sv_io s)" and "may_complete i r s"
    and "io_done se i r s = Inr s'"
  shows "server_ok s'"
proof -
  let ?t = "s\<lparr>sv_io := remove1 i (sv_io s)\<rparr>"
  have t: "server_ok ?t" using server_ok_io_done [OF assms(1)] .
  show ?thesis
  proof (cases i)
    case (Accepting c)
    let ?u = "push_operation \<lparr>op_type = ACCEPT, op_client = c\<rparr> (on_rx onClientCreated ?t)"
    have "server_ok ?u" using t by (intro server_ok_push) simp_all
    then show ?thesis
      using assms(5,6) Accepting startAccept_ok [OF _ assms(2), of ?u] by (simp add: io_done_def accept_done_def)
  next
    case (Waiting c x)
    then show ?thesis
      using assms(6) t Client_close_ok [OF t] by (auto simp: io_done_def wait_done_def Let_def split: io_result.splits)
  next
    case (Reading c pos len x)
    show ?thesis
    proof (cases r)
      case (Success bs)
      then have x: "\<not> x" "length bs = len" using assms(5) Reading by simp_all
      then obtain z where z: "sv_clients s c = Some z" "io_fits i z"
        using assms(1,4) Reading unfolding server_ok_def io_ok_def by fastforce
      have "length (filter (is_read c) (sv_io s)) = length (filter (is_read c) (remove1 i (sv_io s))) + 1"
        using length_filter_remove1 [OF assms(4), of "is_read c"] x(1) Reading by simp
      moreover have "length (filter (is_read c) (sv_io s)) \<le> 1" using assms(1) by (simp add: server_ok_def io_ok_def)
      ultimately have none: "\<forall>j\<in>set (sv_io ?t). \<not> is_read c j" by (simp add: filter_empty_conv)
      obtain p where p: "poke pos bs (ct_packet z) = Inr p"
        using z(2) Reading x(2) by (simp add: poke_def)
      let ?y = "z\<lparr>ct_readTimes := ct_readTimes z + 1, ct_packet := addSize (of_nat (length bs)) p\<rparr>"
      have "server_ok (set_client c ?y ?t)"
        using z Reading x(2) by (intro read_done_packet [OF t _ _ none p refl]) simp_all
      moreover have "se_handleRead se c (length bs) (set_client c ?y ?t) = Inr s'"
        using assms(6) Reading Success z(1) p by (simp add: io_done_def read_done_def client_at_def)
      moreover have "app_result (Inr u) (se_handleRead se c (length bs) u)" for u
        using assms(3) unfolding app_ok_def by blast
      ultimately show ?thesis using app_result_ok by metis
    next
      case Eof
      then show ?thesis using assms(6) Reading Client_close_ok [OF t] by (simp add: io_done_def read_done_def)
    next
      case Failure
      then show ?thesis using assms(6) Reading t by (simp add: io_done_def read_done_def)
    qed
  qed
qed

lemma run_jobs_ok:
  assumes "server_ok s" and "app_ok se" and "run_jobs se now s = Inr s'"
  shows "server_ok s'"
proof -
  obtain ex t where j: "executeJobs (ev_fuel (se_env se)) (server_works se) now (sv_exec s, Inr s) = Inr (ex, Inr t)"
    and s': "s' = t\<lparr>sv_exec := ex\<rparr>"
    using assms(3) by (auto simp: run_jobs_def rbind_eq_Inr split: sum.split_asm prod.split_asm)
  have "app_result (Inr s) (Inr t)"
    by (rule executeJobs_within [OF j]) (use assms(2) in \<open>auto simp: app_ok_def intro: app_result_refl app_result_trans\<close>)
  then have "server_ok t" using assms(1) by (rule app_result_ok)
  then show ?thesis by (simp add: s')
qed

lemma Server_update_phases:
  assumes "Server_update se pg now key s = Inr s'"
  obtains w1 s2 s3 w4 where
    "Map_update ((se_env se)\<lparr>ev_now := now\<rparr>) pg (of_int (duration_cast (now - sv_lastUpdate s))) (sv_world s) = Inr w1"
    and "run_jobs se now (s\<lparr>sv_lastUpdate := now, sv_world := w1\<rparr>) = Inr s2"
    and "runScheduledOperations se s2 = Inr s3"
    and "Map_cleanup ((se_env se)\<lparr>ev_now := now\<rparr>) (of_int (duration_cast (now - sv_lastUpdate s))) (sv_world s3) = Inr w4"
    and "s' = (on_rx (\<lambda>rx. fst (Reactive_update key now rx)) (s3\<lparr>sv_world := w4\<rparr>))\<lparr>sv_prevSleepTime :=
        next_sleep (duration_cast (now - sv_lastUpdate s)) (sv_prevSleepTime s3)\<rparr>"
  using assms by (auto simp: Server_update_def Let_def on_world_def rbind_eq_Inr on_rx_def)

lemma Server_update_ok:
  assumes "server_ok s" and "entities_ok se" and "app_ok se" and "\<And>now. program_within ((se_env se)\<lparr>ev_now := now\<rparr>) UNIV pg"
    and "Server_update se pg now key s = Inr s'"
  shows "server_ok s'"
proof (rule Server_update_phases [OF assms(5)])
  fix w1 s2 s3 w4
  let ?ev = "(se_env se)\<lparr>ev_now := now\<rparr>" and ?d = "of_int (duration_cast (now - sv_lastUpdate s)) :: uint64"
  assume w1: "Map_update ?ev pg ?d (sv_world s) = Inr w1"
    and s2: "run_jobs se now (s\<lparr>sv_lastUpdate := now, sv_world := w1\<rparr>) = Inr s2"
    and s3: "runScheduledOperations se s2 = Inr s3" and w4: "Map_cleanup ?ev ?d (sv_world s3) = Inr w4"
    and s': "s' = (on_rx (\<lambda>rx. fst (Reactive_update key now rx)) (s3\<lparr>sv_world := w4\<rparr>))\<lparr>sv_prevSleepTime :=
        next_sleep (duration_cast (now - sv_lastUpdate s)) (sv_prevSleepTime s3)\<rparr>"
  have "server_ok (s\<lparr>sv_lastUpdate := now, sv_world := w1\<rparr>)"
    using assms(1) server_ok_world [of w1 "s\<lparr>sv_lastUpdate := now\<rparr>"] Map_update_entity_key [OF w1 assms(4)] by simp
  then have "server_ok s2" using run_jobs_ok assms(3) s2 by blast
  then have "server_ok s3" using runScheduledOperations_total [OF _ assms(2)] s3 by fastforce
  then have "server_ok (s3\<lparr>sv_world := w4\<rparr>)"
    using server_ok_world Map_cleanup_entity_key [OF w4] by simp
  then show ?thesis by (simp add: s')
qed

lemma server_step_ok:
  assumes "server_step se pg s s'" and "server_ok s" and "entities_ok se" and "app_ok se"
    and "\<And>now. program_within ((se_env se)\<lparr>ev_now := now\<rparr>) UNIV pg"
  shows "server_ok s'"
  using assms(1,2)
proof cases
  case (complete i r)
  then show ?thesis using io_done_ok assms(2-4) by blast
next
  case (tick now key)
  then show ?thesis using Server_update_ok [OF assms(2-5)] by blast
qed (use assms(2,3) startAccept_ok app_step_ok in auto)

lemma Server_new_ok: "w_entities w = (\<lambda>_. None) \<Longrightarrow> server_ok (Server_new w junk)"
  by (simp add: server_ok_defs Server_new_def entity_key_def)

end
