(* ===== verification/Sessions.thy ===== *)
theory Sessions
  imports Client_Lifecycle Rounds
begin

text \<open>
  The properties of clients and of the server as a whole: the invariant of every run, what
  the queue of operations does, the way of a closed client out of the map and the server, what
  a client receives, and the rhythm of the updates.
\<close>

section \<open>Every run\<close>

text \<open>
  C2. The server is safe in every run: from a new server with no entities, after any sequence of
  accepted connections, completed or cancelled reads and timers, calls of the application and updates,
  every live client has a live entity of its own, with an identifier no other client has; a client has at
  most one \<^verbatim>\<open>CLOSE\<close> queued, only after it was closed and before it is deleted, so no client is deleted
  twice; and only open clients have reads and timers that may still complete, at most one read each, inside
  the packet. At most 2^64 - 1 clients are accepted, and the overrides that make and destroy entities, the
  read handler and the works are assumed to behave as documented.
\<close>

theorem server_invariant:
  assumes "entities_ok se" and "app_ok se" and "\<And>now. program_within ((se_env se)\<lparr>ev_now := now\<rparr>) UNIV pg"
    and "w_entities w = (\<lambda>_. None)" and "(server_step se pg)\<^sup>*\<^sup>* (Server_new w junk) s"
  shows "server_ok s"
  using assms(5)
proof (induction rule: rtranclp_induct)
  case base
  then show ?case using assms(4) by (rule Server_new_ok)
next
  case (step s t)
  then show ?case using server_step_ok [OF _ _ assms(1-3)] by blast
qed

text \<open>A server whose overrides are those of the test server, and whose works do nothing.\<close>

definition mock_env :: server_env where
  "mock_env = \<lparr>se_env = demo_env,
     se_newMapAwareEntity = (\<lambda>ident c e. set_entity e (MapAwareEntity_new ident (Some c) 0)),
     se_destroyMapAwareEntity = (\<lambda>e w. w\<lparr>w_entities := (w_entities w)(e := None)\<rparr>),
     se_handleRead = (\<lambda>c n s. Inr s),
     se_works = \<lparr>pg_ready = (\<lambda>_ _. True), pg_handler = (\<lambda>_ (ex, s). (Done None, ex, s)), pg_onWorkError = (\<lambda>_ s. s),
       pg_task = (\<lambda>_ (ex, s). (ex, s))\<rparr>,
     se_worker = (\<lambda>_. Some 0)\<rparr>"

lemma mock_entities: "entities_ok mock_env"
  by (auto simp: entities_ok_def mock_env_def MapAwareEntity_new_def demo_env_def BUFFER_SIZE_def)

lemma app_result_close: "app_result r (rbind r (onWorkError p))"
  by (cases r) (auto simp: app_result_def onWorkError_def rbind_eq_Inr intro: r_into_rtranclp app_step.closes)

lemma mock_app: "app_ok mock_env"
  unfolding app_ok_def works_within_def server_works_def using app_result_refl app_result_close
  by (auto simp: mock_env_def)

lemma mock_pg: "program_within ((se_env mock_env)\<lparr>ev_now := now\<rparr>) UNIV idle_works"
  by (simp add: program_within_def idle_works_def)

definition fresh_server :: server where
  "fresh_server = Server_new empty_world 0"

text \<open>A server that has accepted one client and waits for the second.\<close>

definition busy_server :: server where
  "busy_server = accept_done mock_env 0 ((startAccept mock_env fresh_server)\<lparr>sv_io := []\<rparr>)"

lemmas server_demo_defs = busy_server_def fresh_server_def Server_new_def accept_done_def startAccept_def newClient_def
  Client_new_def Packet_new_def AtomicAutoIncrement_get_def push_operation_def bq_push_def bq_full_def on_rx_def
  set_client_def set_entity_def Let_def

theorem server_invariant_witness:
  "server_ok busy_server \<and> Client_id 0 busy_server = Inr 1 \<and> Client_id 2 busy_server = Inr 2"
proof -
  let ?s1 = "startAccept mock_env fresh_server"
  have "server_step mock_env idle_works fresh_server ?s1"
    by (rule server_step.start) (simp add: fresh_server_def Server_new_def)
  moreover have "server_step mock_env idle_works ?s1 busy_server"
  proof (rule server_step.complete [where i = "Accepting 0" and r = Failure])
    show "Accepting 0 \<in> set (sv_io ?s1)" "may_complete (Accepting 0) Failure ?s1"
      by (simp_all add: server_demo_defs mock_env_def)
    show "io_done mock_env (Accepting 0) Failure ?s1 = Inr busy_server"
      by (simp add: io_done_def busy_server_def) (simp add: server_demo_defs mock_env_def)
  qed
  ultimately have "(server_step mock_env idle_works)\<^sup>*\<^sup>* (Server_new empty_world 0) busy_server"
    unfolding fresh_server_def [symmetric] by (meson converse_rtranclp_into_rtranclp rtranclp.rtrancl_refl)
  moreover have "w_entities empty_world = (\<lambda>_. None)" by (simp add: empty_world_def World_new_def)
  ultimately have "server_ok busy_server"
    using server_invariant [OF mock_entities mock_app mock_pg] by blast
  moreover have "Client_id 0 busy_server = Inr 1" "Client_id 2 busy_server = Inr 2"
    by (simp_all add: Client_id_def client_at_def entity_at_def server_demo_defs mock_env_def MapAwareEntity_new_def)
  ultimately show ?thesis by simp
qed

section \<open>Closed clients\<close>

text \<open>
  C10. The queue of operations is run exactly: on a server as above \<^verbatim>\<open>runScheduledOperations\<close> never
  faults; it deletes the clients whose \<^verbatim>\<open>CLOSE\<close> is queued and whose entity is in no cell, together with
  their entities, and no other client, entity or cell; the \<^verbatim>\<open>CLOSE\<close> of a client still in the map stays
  queued, in order, and nothing else does.
\<close>

theorem operations_run_exactly:
  assumes "server_ok s" and "entities_ok se"
  shows "\<exists>s'. runScheduledOperations se s = Inr s' \<and> server_ok s'
    \<and> purged (leaving s (items (sv_ops s))) s (s'\<lparr>sv_ops := sv_ops s\<rparr>) \<and> items (sv_ops s') = staying s (items (sv_ops s))"
  by (rule runScheduledOperations_total [OF assms])

text \<open>The server whose first client is closed.\<close>

definition closing_server :: server where
  "closing_server = push_operation \<lparr>op_type = CLOSE, op_client = 0\<rparr>
     (busy_server\<lparr>sv_clients := (sv_clients busy_server)(0 := map_option (ct_status_update (\<lambda>_. CLOSED)) (sv_clients busy_server 0))\<rparr>)"

lemma closing_server_ok: "server_ok closing_server"
  by (auto simp: server_ok_defs closing_server_def server_demo_defs mock_env_def MapAwareEntity_new_def entity_key_def
    empty_world_def World_new_def pk_wf_def BUFFER_SIZE_def bufferLen_def demo_env_def split: if_splits)

theorem operations_run_exactly_witness:
  "\<exists>s'. runScheduledOperations mock_env closing_server = Inr s' \<and> sv_clients s' 0 = None \<and> sv_clients s' 2 \<noteq> None
    \<and> w_entities (sv_world s') 1 = None \<and> items (sv_ops s') = []"
proof -
  have "leaving closing_server (items (sv_ops closing_server)) = [0]" "staying closing_server (items (sv_ops closing_server)) = []"
    and c: "sv_clients closing_server 2 \<noteq> None" "\<exists>x. sv_clients closing_server 0 = Some x \<and> ct_entity x = 1"
    by (simp_all add: leaving_def staying_def in_map_def closing_server_def server_demo_defs mock_env_def MapAwareEntity_new_def)
  then obtain s' where s': "runScheduledOperations mock_env closing_server = Inr s'" "items (sv_ops s') = []"
      "purged [0] closing_server (s'\<lparr>sv_ops := sv_ops closing_server\<rparr>)"
    using operations_run_exactly [OF closing_server_ok mock_entities] by auto
  moreover have "sv_clients s' 0 = None" "sv_clients s' 2 \<noteq> None" "w_entities (sv_world s') 1 = None"
    using s'(3) c by (simp_all add: purged_def)
  ultimately show ?thesis by blast
qed

lemma Client_close_in_map:
  assumes "sv_clients s c = Some x" and "ct_status x \<noteq> CLOSED" and "w_entities (sv_world s) (ct_entity x) = Some y"
    and "en_cell y = Some a" and "w_cells (sv_world s) a = Some cl"
  shows "Client_close c s = Inr (handleClose c (set_client c (x\<lparr>ct_status := CLOSED\<rparr>)
    ((socket_close c (timer_cancel c s))\<lparr>sv_world := removeFrom (cl_offset cl) (ct_entity x) None (sv_world s)\<rparr>)))"
  using assms by (simp add: Client_close_def client_at_def Let_def removeFrom_cell_def)


text \<open>
  C33. A client that closes before it has entered the map is used after its deletion: when its entity's
  \<^verbatim>\<open>ADD_ENTITY\<close> is still queued, it points to no cell, so \<^verbatim>\<open>close\<close> queues no removal and the
  server deletes client and entity; the next run of the map's operations then uses the entity.
\<close>

theorem close_before_entering_dangles:
  assumes "server_ok s" and "entities_ok se" and "sv_clients s c = Some x" and "ct_status x \<noteq> CLOSED"
    and "w_entities (sv_world s) (ct_entity x) = Some y" and "en_cell y = None" and "\<not> bq_full (sv_ops s)"
    and "items (w_ops (sv_world s)) = \<lparr>mo_type = ADD_ENTITY, mo_offset = p, mo_entity = Some (ct_entity x), mo_param = old\<rparr> # ops"
    and "get (sv_world s) (off_q p) (off_r p) = Some a"
  shows "\<exists>s1 s2. Client_close c s = Inr s1 \<and> runScheduledOperations se s1 = Inr s2
    \<and> Map_runScheduledOperations ev (sv_world s2) = Inl UseAfterFree"
proof -
  let ?e = "ct_entity x"
  define s1 where "s1 = handleClose c (set_client c (x\<lparr>ct_status := CLOSED\<rparr>)
    ((socket_close c (timer_cancel c s))\<lparr>sv_world := sv_world s\<rparr>))"
  have close: "Client_close c s = Inr s1"
    using assms(3-6) by (simp add: Client_close_def client_at_def Let_def s1_def)
  have sel: "sv_clients s1 = (sv_clients s)(c \<mapsto> x\<lparr>ct_status := CLOSED\<rparr>)" "w_entities (sv_world s1) = w_entities (sv_world s)"
      "w_ops (sv_world s1) = w_ops (sv_world s)" "w_index (sv_world s1) = w_index (sv_world s)"
      "items (sv_ops s1) = items (sv_ops s) @ [\<lparr>op_type = CLOSE, op_client = c\<rparr>]"
    using assms(7) by (simp_all add: s1_def handleClose_def) (simp_all add: on_rx_def push_operation_def bq_push_def)
  obtain s2 where s2: "runScheduledOperations se s1 = Inr s2"
      "purged (leaving s1 (items (sv_ops s1))) s1 (s2\<lparr>sv_ops := sv_ops s1\<rparr>)"
    using runScheduledOperations_total [OF Client_close_ok [OF assms(1) close] assms(2)] by blast
  have "c \<in> set (leaving s1 (items (sv_ops s1)))"
    using assms(5,6) by (simp add: leaving_def in_map_def sel)
  then have e: "w_entities (sv_world s2) ?e = None" using s2(2) sel(1) by (auto simp: purged_def)
  have same: "w_ops (sv_world s2) = w_ops (sv_world s)" "w_index (sv_world s2) = w_index (sv_world s)"
    using s2(2) by (simp_all add: purged_def same_map_def sel)
  let ?v = "(sv_world s2)\<lparr>w_ops := (w_ops (sv_world s2))\<lparr>items := []\<rparr>\<rparr>"
  have "getOrCreate ev p ?v = Inr (a, ?v)"
    using assms(9) same(2) by (simp add: getOrCreate_def get_def)
  moreover have "on_entity ?e f ?v = Inl UseAfterFree" for f using e by (simp add: on_entity_def entity_at_def)
  ultimately have "Map_runScheduledOperations ev (sv_world s2) = Inl UseAfterFree"
    using assms(8) same(1) by (simp add: Map_runScheduledOperations_def run_op_def run_add_def)
  with close s2(1) show ?thesis by blast
qed

text \<open>A server with one client, whose entity is in a cell of a given world.\<close>

definition player :: client where
  "player = \<lparr>ct_status = IN_WORLD, ct_entity = 3,
     ct_packet = \<lparr>pk_read = 0, pk_size = 0, pk_write = 0, pk_refs = 0, pk_buffer = replicate 1024 0\<rparr>, ct_readTimes = 0\<rparr>"

definition playing :: "world \<Rightarrow> server" where
  "playing w = (Server_new w 0)\<lparr>sv_clients := [9 \<mapsto> player], sv_next := 10, sv_last := 7\<rparr>"

definition entering_world :: world where
  "entering_world = two_cell_world\<lparr>w_entities := [3 \<mapsto> MapAwareEntity_new 7 (Some 9) 0],
     w_ops := \<lparr>cap = None, items = [\<lparr>mo_type = ADD_ENTITY, mo_offset = Offset 5 5, mo_entity = Some 3, mo_param = None\<rparr>]\<rparr>\<rparr>"

lemma playing_ok:
  assumes "w_entities w = [3 \<mapsto> y]" and "en_id y = 7" and "en_client y = Some 9"
  shows "server_ok (playing w)"
  using assms by (auto simp: server_ok_defs playing_def player_def Server_new_def entity_key_def pk_wf_def BUFFER_SIZE_def
    bufferLen_def split: if_splits)

lemma playing_sel:
  "sv_clients (playing w) 9 = Some player" "sv_world (playing w) = w" "\<not> bq_full (sv_ops (playing w))"
  "ct_entity player = 3" "ct_status player \<noteq> CLOSED"
  by (simp_all add: playing_def Server_new_def player_def bq_full_def)


theorem close_before_entering_dangles_witness:
  "\<exists>s1 s2. Client_close 9 (playing entering_world) = Inr s1 \<and> runScheduledOperations mock_env s1 = Inr s2
    \<and> Map_runScheduledOperations demo_env (sv_world s2) = Inl UseAfterFree"
proof -
  let ?y = "MapAwareEntity_new 7 (Some 9) 0"
  have ok: "server_ok (playing entering_world)"
    by (rule playing_ok [of _ ?y]) (simp_all add: entering_world_def MapAwareEntity_new_def)
  show ?thesis
    using close_before_entering_dangles [OF ok mock_entities playing_sel(1,5), of ?y "Offset 5 5" None "[]" 0 demo_env] playing_sel(3)
    by (simp add: playing_sel entering_world_def get_def)
      (simp add: MapAwareEntity_new_def two_cell_world_def)
qed

section \<open>Receiving\<close>

text \<open>The kind of a field, for which a reader is chosen: the field with no contents.\<close>

fun kind :: "field \<Rightarrow> field" where
  "kind (U8 _) = U8 0" | "kind (U16 _) = U16 0" | "kind (U32 _) = U32 0" | "kind (U64 _) = U64 0"
| "kind (F32 _) = F32 0" | "kind (V2 _) = V2 (0, 0)" | "kind (V3 _) = V3 (0, 0, 0)" | "kind (Str _) = Str []"

lemma read_fields_kind: "read_fields (map kind fs) p = read_fields fs p"
proof (induction fs arbitrary: p)
  case (Cons f fs)
  have "read_field (kind f) q = read_field f q" for q by (cases f) simp_all
  with Cons show ?case by simp
qed simp

text \<open>
  A client receives bytes in pieces: for each piece a read of its length is scheduled, the first
  one resetting the packet, and completes with it.
\<close>

fun receive :: "server_env \<Rightarrow> addr \<Rightarrow> bool \<Rightarrow> uint8 list list \<Rightarrow> server \<Rightarrow> fault + server" where
  "receive se c rst [] s = Inr s"
| "receive se c rst (bs # rest) s =
     rbind (scheduleRead c (of_nat (length bs)) rst s) (\<lambda>s.
     rbind (rfold (\<lambda>i. io_done se i (Success bs)) (filter (is_read c) (sv_io s)) s) (receive se c False rest))"

text \<open>What the packet of a client that only receives looks like after the bytes \<open>bs\<close>.\<close>

definition holds :: "uint8 list \<Rightarrow> packet \<Rightarrow> bool" where
  "holds bs p \<longleftrightarrow> pk_wf p \<and> pk_read p = 0 \<and> pk_write p = 0 \<and> unat (pk_size p) = length bs \<and> take (length bs) (pk_buffer p) = bs"

lemma holds_unread: "holds bs p \<Longrightarrow> pk_wf p \<and> unread p = bs"
  by (simp add: holds_def unread_def unat_bufferLen)

lemma holds_reset: "pk_wf p \<Longrightarrow> holds [] (reset p)"
  by (simp add: holds_def reset_def pk_wf_def)

lemma holds_append:
  assumes "holds as p" and "length as + length bs \<le> BUFFER_SIZE"
  shows "\<exists>p'. poke (length as) bs p = Inr p' \<and> holds (as @ bs) (addSize (of_nat (length bs)) p')"
proof -
  have "unat (pk_size p + of_nat (length bs)) = length as + length bs"
    using assms unat_add16 [of "pk_size p" "length bs"] by (simp add: holds_def BUFFER_SIZE_def)
  then show ?thesis
    using assms unfolding holds_def pk_wf_def word_le_nat_alt unat_bufferLen by (simp add: poke_def addSize_def)
qed

lemma receive_piece:
  assumes "sv_clients s c = Some x" and "filter (is_read c) (sv_io s) = []" and "se_handleRead se = (\<lambda>c n s. Inr s)"
    and "if rst then pk_wf (ct_packet x) \<and> as = [] else holds as (ct_packet x)" and "length as + length bs \<le> BUFFER_SIZE"
  shows "\<exists>s' x'. receive se c rst (bs # rest) s = receive se c False rest s' \<and> sv_clients s' c = Some x'
    \<and> filter (is_read c) (sv_io s') = [] \<and> holds (as @ bs) (ct_packet x')
    \<and> ct_readTimes x' = (if rst then 0 else ct_readTimes x) + 1"
proof -
  define y where "y = (if rst then x\<lparr>ct_readTimes := 0, ct_packet := reset (ct_packet x)\<rparr> else x)"
  have y: "holds as (ct_packet y)" "ct_readTimes y = (if rst then 0 else ct_readTimes x)"
    using assms(4) holds_reset by (auto simp: y_def split: if_splits)
  let ?i = "Reading c (length as) (length bs) False"
  let ?t = "set_client c y ((timer_cancel c s)\<lparr>sv_io := sv_io (timer_cancel c s) @ [?i, Waiting c False]\<rparr>)"
  have n: "unat (of_nat (length bs) :: uint16) = length bs" using assms(5) by (simp add: BUFFER_SIZE_def unat_of_nat)
  have "scheduleRead c (of_nat (length bs)) rst s = Inr ?t"
    using assms(1,5) y(1) n by (simp add: scheduleRead_def client_at_def Let_def recvBuffer_def y_def [symmetric] holds_def)
  moreover have none: "filter (is_read c) (sv_io (timer_cancel c s)) = []"
    using assms(2) by (auto simp: timer_cancel_def filter_empty_conv cancel_wait_simps)
  moreover obtain p' where p': "poke (length as) bs (ct_packet y) = Inr p'" "holds (as @ bs) (addSize (of_nat (length bs)) p')"
    using holds_append [OF y(1) assms(5)] by blast
  let ?x' = "y\<lparr>ct_readTimes := ct_readTimes y + 1, ct_packet := addSize (of_nat (length bs)) p'\<rparr>"
  let ?s' = "set_client c ?x' (?t\<lparr>sv_io := remove1 ?i (sv_io ?t)\<rparr>)"
  have "io_done se ?i (Success bs) ?t = Inr ?s'"
    using assms(3) p'(1) by (simp add: io_done_def read_done_def client_at_def)
  ultimately have "receive se c rst (bs # rest) s = receive se c False rest ?s'" by simp
  moreover have "filter (is_read c) (sv_io ?s') = []"
    using none by (simp add: filter_remove1)
  ultimately show ?thesis using p'(2) y(2) by (intro exI [of _ ?s'] exI [of _ ?x']) simp
qed

lemma receive_rest:
  assumes "sv_clients s c = Some x" and "filter (is_read c) (sv_io s) = []" and "se_handleRead se = (\<lambda>c n s. Inr s)"
    and "holds as (ct_packet x)" and "length as + length (concat pieces) \<le> BUFFER_SIZE"
  shows "\<exists>s' x'. receive se c False pieces s = Inr s' \<and> sv_clients s' c = Some x' \<and> filter (is_read c) (sv_io s') = []
    \<and> holds (as @ concat pieces) (ct_packet x') \<and> ct_readTimes x' = ct_readTimes x + of_nat (length pieces)"
  using assms(1,2,4,5)
proof (induction pieces arbitrary: s x as)
  case (Cons bs pieces)
  obtain s1 x1 where s1: "receive se c False (bs # pieces) s = receive se c False pieces s1" "sv_clients s1 c = Some x1"
      "filter (is_read c) (sv_io s1) = []" "holds (as @ bs) (ct_packet x1)" "ct_readTimes x1 = ct_readTimes x + 1"
    using receive_piece [OF Cons.prems(1,2) assms(3), of False as bs pieces] Cons.prems(3,4) by auto
  from Cons.IH [OF s1(2-4)] Cons.prems(4) s1(1,5) show ?case by (auto simp: add.assoc)
qed auto

text \<open>
  C11. What one side sends the other side reads: however the frame of a packet arrives in
  pieces (at least one), if every piece is read by its own \<^verbatim>\<open>scheduleRead\<close>, the first with reset,
  then no read faults, the phase counts the pieces modulo 256, and reading the packet of the
  client gives the opcode, the length of the payload and the fields that were put into it, and
  nothing is left.
\<close>

theorem frame_received:
  assumes "sv_clients s c = Some x" and "pk_wf (ct_packet x)" and "filter (is_read c) (sv_io s) = []"
    and "se_handleRead se = (\<lambda>c n s. Inr s)" and "list_all field_ok fs" and "pieces \<noteq> []"
    and "payload = concat (map enc_field fs)" and "4 + length payload \<le> BUFFER_SIZE"
    and "concat pieces = le_bytes opcode @ le_bytes (of_nat (length payload) :: uint16) @ payload"
  shows "\<exists>s' x' p'. receive se c True pieces s = Inr s' \<and> sv_clients s' c = Some x'
    \<and> ct_readTimes x' = of_nat (length pieces)
    \<and> read_fields (U16 0 # U16 0 # map kind fs) (ct_packet x') =
        Inr (U16 opcode # U16 (of_nat (length payload)) # fs, p') \<and> unread p' = []"
proof -
  let ?fs = "U16 opcode # U16 (of_nat (length payload)) # fs"
  obtain bs rest where pieces: "pieces = bs # rest" using assms(6) by (cases pieces) auto
  have frame: "concat pieces = concat (map enc_field ?fs)" using assms(7,9) by simp
  have len: "length bs + length (concat rest) \<le> BUFFER_SIZE"
    using arg_cong [OF assms(9), of length] assms(8) by (simp add: pieces)
  obtain s1 x1 where s1: "receive se c True pieces s = receive se c False rest s1" "sv_clients s1 c = Some x1"
      "filter (is_read c) (sv_io s1) = []" "holds bs (ct_packet x1)" "ct_readTimes x1 = 1"
    using receive_piece [OF assms(1,3,4), of True "[]" bs rest] assms(2) len by (auto simp: pieces)
  obtain s2 x2 where s2: "receive se c False rest s1 = Inr s2" "sv_clients s2 c = Some x2"
      "holds (concat pieces) (ct_packet x2)" "ct_readTimes x2 = of_nat (length pieces)"
    using receive_rest [OF s1(2,3) assms(4) s1(4) len] s1(5) by (auto simp: pieces)
  let ?p = "ct_packet x2" and ?n = "length (concat (map enc_field ?fs))"
  have p: "pk_wf ?p" "unread ?p = concat (map enc_field ?fs) @ []" using holds_unread [OF s2(3)] frame by simp_all
  have "list_all field_ok ?fs" using assms(5) by (simp add: field_ok_def)
  then have "read_fields ?fs ?p = Inr (?fs, consumed ?n ?p)" using read_fields_enc p by blast
  moreover have "unread (consumed ?n ?p) = []" using consumed_wf(2) [OF p(1), of ?n] p(2) by simp
  moreover have "read_fields (U16 0 # U16 0 # map kind fs) ?p = read_fields ?fs ?p" using read_fields_kind [of ?fs] by simp
  ultimately show ?thesis using s1(1) s2 by (intro exI [of _ s2] exI [of _ x2] exI [of _ "consumed ?n ?p"]) simp
qed

theorem frame_received_witness:
  "\<exists>s' x' p'. receive mock_env 9 True [[0x01, 0x0A, 2], [0, 5], [0]] (playing two_cell_world) = Inr s'
    \<and> sv_clients s' 9 = Some x' \<and> ct_readTimes x' = 3
    \<and> read_fields [U16 0, U16 0, U16 0] (ct_packet x') = Inr ([U16 0x0A01, U16 2, U16 5], p') \<and> unread p' = []"
proof -
  have "pk_wf (ct_packet player)" by (simp add: player_def pk_wf_def BUFFER_SIZE_def bufferLen_def)
  moreover have "filter (is_read 9) (sv_io (playing two_cell_world)) = []" by (simp add: playing_def Server_new_def)
  moreover have "le_bytes (0x0A01 :: uint16) = [0x01, 0x0A]" "le_bytes (2 :: uint16) = [2, 0]" "le_bytes (5 :: uint16) = [5, 0]"
    by code_simp+
  ultimately show ?thesis
    using frame_received [OF playing_sel(1), of two_cell_world mock_env "[U16 5]" "[[0x01, 0x0A, 2], [0, 5], [0]]" "[5, 0]" "0x0A01"]
    by (simp add: mock_env_def field_ok_def BUFFER_SIZE_def)
qed

section \<open>The heart beat\<close>

lemma app_step_times:
  "app_step s s' \<Longrightarrow> sv_prevSleepTime s' = sv_prevSleepTime s \<and> sv_lastUpdate s' = sv_lastUpdate s"
  by (induction rule: app_step.induct)
    (auto simp: scheduleRead_def Client_close_def client_at_def rbind_eq_Inr Let_def set_client_def timer_cancel_def
      socket_close_def handleClose_def push_operation_def on_rx_def split: option.splits sum.splits if_splits)

lemma app_steps_times:
  "app_step\<^sup>*\<^sup>* s s' \<Longrightarrow> sv_prevSleepTime s' = sv_prevSleepTime s \<and> sv_lastUpdate s' = sv_lastUpdate s"
  by (induction rule: rtranclp_induct) (simp_all add: app_step_times)

lemma run_jobs_times:
  assumes "app_ok se" and "run_jobs se now s = Inr s'"
  shows "sv_prevSleepTime s' = sv_prevSleepTime s \<and> sv_lastUpdate s' = sv_lastUpdate s"
proof -
  obtain ex t where j: "executeJobs (ev_fuel (se_env se)) (server_works se) now (sv_exec s, Inr s) = Inr (ex, Inr t)"
    and s': "s' = t\<lparr>sv_exec := ex\<rparr>"
    using assms(2) by (auto simp: run_jobs_def rbind_eq_Inr split: sum.split_asm prod.split_asm)
  have "app_result (Inr s) (Inr t)"
    by (rule executeJobs_within [OF j]) (use assms(1) in \<open>auto simp: app_ok_def intro: app_result_refl app_result_trans\<close>)
  then show ?thesis using app_steps_times [of s t] by (simp add: app_result_def s')
qed

lemma run_operation_times:
  "run_operation se op (pending, s) = Inr (pending', s') \<Longrightarrow>
    sv_prevSleepTime s' = sv_prevSleepTime s \<and> sv_lastUpdate s' = sv_lastUpdate s"
  by (auto simp: run_operation_def handleAccept_def destroyClient_def Client_delete_def client_at_def rbind_eq_Inr on_rx_def
    split: operation_type.splits option.splits sum.splits if_splits)

lemma runScheduledOperations_times:
  assumes "runScheduledOperations se s = Inr s'"
  shows "sv_prevSleepTime s' = sv_prevSleepTime s \<and> sv_lastUpdate s' = sv_lastUpdate s"
proof -
  let ?P = "\<lambda>(pending :: operation list, t). sv_prevSleepTime t = sv_prevSleepTime s \<and> sv_lastUpdate t = sv_lastUpdate s"
  obtain pending t where t: "rfold (run_operation se) (items (sv_ops s)) ([], s\<lparr>sv_ops := (sv_ops s)\<lparr>items := []\<rparr>\<rparr>) = Inr (pending, t)"
    and s': "s' = fold push_operation pending t"
    using assms by (auto simp: runScheduledOperations_def rbind_eq_Inr)
  have "?P (pending, t)"
    by (rule rfold_invariant [OF t, where P = ?P]) (auto dest: run_operation_times)
  moreover have "sv_prevSleepTime (fold push_operation ops u) = sv_prevSleepTime u \<and> sv_lastUpdate (fold push_operation ops u) = sv_lastUpdate u"
    for ops u by (induction ops arbitrary: u) (simp_all add: push_operation_def)
  ultimately show ?thesis by (simp add: s')
qed

lemma Server_update_times:
  assumes "Server_update se pg now key s = Inr s'" and "app_ok se"
  shows "sv_lastUpdate s' = now \<and> sv_prevSleepTime s' = next_sleep (duration_cast (now - sv_lastUpdate s)) (sv_prevSleepTime s)"
  by (rule Server_update_phases [OF assms(1)])
    (auto simp: on_rx_def dest!: run_jobs_times [OF assms(2)] runScheduledOperations_times)

text \<open>
  The loop of the main thread: each update starts when the previous one has done its work, which took the
  given nanoseconds, and has slept. The result is the time at which the next one would start.
\<close>

fun beats :: "server_env \<Rightarrow> (nat, nat, world) program \<Rightarrow> int list \<Rightarrow> int \<Rightarrow> server \<Rightarrow> fault + (int \<times> server)" where
  "beats se pg [] now s = Inr (now, s)"
| "beats se pg (t # ts) now s =
     rbind (Server_update se pg now None s) (\<lambda>s. beats se pg ts (now + t + 1000000 * sv_prevSleepTime s) s)"

lemma next_sleep_steady:
  assumes "now = before + t + 1000000 * prev" and "0 \<le> t" and "t \<le> 50000000" and "0 \<le> prev"
  shows "next_sleep (duration_cast (now - before)) prev = 50 - t div 1000000"
proof -
  have "duration_cast (now - before) = prev + t div 1000000"
    using assms by (simp add: duration_cast_def)
  moreover have "t div 1000000 \<le> 50" using assms(3) by (simp add: zdiv_mono1 [of t 50000000 1000000, simplified])
  ultimately show ?thesis by (simp add: next_sleep_def WORLD_HEART_BEAT_def)
qed

lemma beat_arith:
  fixes n L t t0 q r now now' :: int
  assumes "50000000 * n + L - t \<le> now' - (now + t + 1000000 * (50 - q))"
    and "now' - (now + t + 1000000 * (50 - q)) \<le> 50000000 * n + L - t + 999999 * n"
    and "t0 = 1000000 * q + r" and "0 \<le> r" and "r \<le> 999999"
  shows "50000000 * (n + 1) + L - t0 \<le> now' - now \<and> now' - now \<le> 50000000 * (n + 1) + L - t0 + 999999 * (n + 1)"
  using assms by simp

lemma beats_steady:
  assumes "app_ok se" and "beats se pg ts now s = Inr (now', s')" and "now = sv_lastUpdate s + t0 + 1000000 * sv_prevSleepTime s"
    and "0 \<le> sv_prevSleepTime s" and "\<forall>t\<in>set (t0 # ts). 0 \<le> t \<and> t \<le> 50000000"
  shows "50000000 * int (length ts) + last (t0 # ts) - t0 \<le> now' - now
    \<and> now' - now \<le> 50000000 * int (length ts) + last (t0 # ts) - t0 + 999999 * int (length ts)"
  using assms(2-5)
proof (induction ts arbitrary: now s t0)
  case (Cons t ts)
  obtain s1 where u: "Server_update se pg now None s = Inr s1"
    and b: "beats se pg ts (now + t + 1000000 * sv_prevSleepTime s1) s1 = Inr (now', s')"
    using Cons.prems(1) by (auto simp: rbind_eq_Inr)
  have s1: "sv_lastUpdate s1 = now" "sv_prevSleepTime s1 = 50 - t0 div 1000000"
    using Server_update_times [OF u assms(1)] next_sleep_steady [OF Cons.prems(2)] Cons.prems(3,4) by simp_all
  have "0 \<le> sv_prevSleepTime s1"
    using s1(2) Cons.prems(4) by (simp add: zdiv_mono1 [of t0 50000000 1000000, simplified])
  then have ih: "50000000 * int (length ts) + last (t # ts) - t \<le> now' - (now + t + 1000000 * (50 - t0 div 1000000))"
      "now' - (now + t + 1000000 * (50 - t0 div 1000000)) \<le> 50000000 * int (length ts) + last (t # ts) - t + 999999 * int (length ts)"
    using Cons.IH [OF b] s1 Cons.prems(4) by simp_all
  have t0: "t0 = 1000000 * (t0 div 1000000) + t0 mod 1000000" "0 \<le> t0 mod 1000000" "t0 mod 1000000 \<le> 999999" by simp_all
  have "int (length (t # ts)) = int (length ts) + 1" "last (t0 # t # ts) = last (t # ts)" by simp_all
  then show ?case using beat_arith [OF ih t0] by (simp only:)
qed simp

text \<open>
  C32. The heart beat neither drifts nor rushes: once the server is in its rhythm (an update started
  when the previous one had worked and slept), if the work of every update takes at most the 50 milliseconds
  of \<^verbatim>\<open>WORLD_HEART_BEAT\<close>, then \<open>n\<close> updates take 50 n milliseconds, give or take the difference of
  the first and the last work, and less than a millisecond per update from the rounding
  of durations; a slow update shortens the sleep after the next one.
\<close>

theorem heart_beat:
  assumes "app_ok se" and "beats se pg ts now s = Inr (now', s')" and "now = sv_lastUpdate s + t0 + 1000000 * sv_prevSleepTime s"
    and "0 \<le> sv_prevSleepTime s" and "\<forall>t\<in>set (t0 # ts). 0 \<le> t \<and> t \<le> 50000000"
  shows "50000000 * int (length ts) + last (t0 # ts) - t0 \<le> now' - now
    \<and> now' - now \<le> 50000000 * int (length ts) + last (t0 # ts) - t0 + 999999 * int (length ts)"
  by (rule beats_steady [OF assms])

text \<open>An empty server in its rhythm: the last update started at 0, worked three milliseconds and slept 47.\<close>

definition resting_server :: server where
  "resting_server = fresh_server\<lparr>sv_prevSleepTime := 47\<rparr>"

lemma resting_update: "\<exists>s'. Server_update mock_env idle_works 50000000 None resting_server = Inr s'"
proof -
  let ?ev = "demo_env\<lparr>ev_now := 50000000\<rparr>"
  define w1 where "w1 = empty_world\<lparr>w_ops := (w_ops empty_world)\<lparr>items := []\<rparr>, w_rx := onClusterUpdate 0 0 0 0 (w_rx empty_world)\<rparr>"
  have u: "Map_update ?ev idle_works 50 empty_world = Inr w1"
    by (simp add: Map_update_def Map_runScheduledOperations_def Cluster_update_def w1_def demo_defs Let_def)
  have "w_cluster w1 = Cluster_new 0 0" by (simp add: w1_def empty_world_def World_new_def)
  then have c: "\<exists>w2. Map_cleanup ?ev 50 w1 = Inr w2"
    by (simp add: Map_cleanup_def Cluster_cleanup_def Cluster_runScheduledOperations_def processStallCells_def Cluster_new_def)
  have "executeJobs (Suc n) pg now (Executor_new 8192, r) = Inr (Executor_new 8192, r)"
    for n now and pg :: "(nat, nat, fault + server) program" and r
    by (simp add: executeJobs_def Executor_new_def bq_pop_def)
  then have "executeJobs 10 pg now (Executor_new 8192, r) = Inr (Executor_new 8192, r)"
    for now and pg :: "(nat, nat, fault + server) program" and r
    by (metis eval_nat_numeral(2,3))
  moreover have "se_env mock_env = demo_env" "ev_fuel demo_env = 10" by (simp_all add: mock_env_def demo_env_def)
  ultimately have j: "run_jobs mock_env now s = Inr (s\<lparr>sv_exec := Executor_new 8192\<rparr>)" if "sv_exec s = Executor_new 8192" for now s
    using that by (simp add: run_jobs_def)
  have r: "runScheduledOperations mock_env s = Inr s" if "sv_ops s = \<lparr>cap = Some 1024, items = []\<rparr>" for s
    using that by (simp add: runScheduledOperations_def)
  from u c show ?thesis
    by (auto simp: Server_update_def resting_server_def fresh_server_def Server_new_def on_world_def j r
      \<open>se_env mock_env = demo_env\<close> duration_cast_def Let_def)
qed

theorem heart_beat_witness:
  "\<exists>now' s'. beats mock_env idle_works [7000000] 50000000 resting_server = Inr (now', s')
    \<and> 104000000 \<le> now' \<and> now' \<le> 104999999"
proof -
  obtain now' s' where b: "beats mock_env idle_works [7000000] 50000000 resting_server = Inr (now', s')"
    using resting_update by auto
  show ?thesis
    using heart_beat [OF mock_app b, of 3000000] b by (auto simp: resting_server_def fresh_server_def Server_new_def)
qed

end
