(* ===== verification/C_Strings.thy ===== *)
theory C_Strings
  imports Prelude
begin

text \<open>
  The functions of the C and C++ libraries on characters and strings that the monitor uses: decimal
  printing (\<^verbatim>\<open>std::to_string\<close>) and reading (\<^verbatim>\<open>atoi\<close>), lines of a file (\<^verbatim>\<open>fgets\<close>), \<^verbatim>\<open>strlen\<close> on a buffer.
  A \<^verbatim>\<open>std::string\<close> is a list of characters; a C buffer is the list of all its bytes, terminator and
  stale bytes after it included.
\<close>

definition newline :: char where "newline = CHR 0x0A"
definition NUL :: char where "NUL = CHR 0x00"

datatype string_fault = OutOfBuffer | IntOverflow | NullFile

section \<open>Decimal numbers\<close>

definition is_digit :: "char \<Rightarrow> bool" where
  "is_digit c \<longleftrightarrow> 48 \<le> (of_char c :: nat) \<and> (of_char c :: nat) \<le> 57"

definition digit :: "nat \<Rightarrow> char" where
  "digit d = char_of (48 + d)"

fun show_nat :: "nat \<Rightarrow> string" where
  "show_nat n = (if n < 10 then [digit n] else show_nat (n div 10) @ [digit (n mod 10)])"

declare show_nat.simps [simp del]

definition to_string :: "int \<Rightarrow> string" where
  "to_string i = (if i < 0 then CHR ''-'' # show_nat (nat (- i)) else show_nat (nat i))"

fun digits_value :: "nat \<Rightarrow> string \<Rightarrow> nat" where
  "digits_value acc [] = acc"
| "digits_value acc (c # s) = (if is_digit c then digits_value (10 * acc + (of_char c - 48)) s else acc)"

text \<open>White space in the sense of \<^verbatim>\<open>isspace\<close>.\<close>

definition is_space :: "char \<Rightarrow> bool" where
  "is_space c \<longleftrightarrow> (of_char c :: nat) = 32 \<or> 9 \<le> (of_char c :: nat) \<and> (of_char c :: nat) \<le> 13"

text \<open>
  \<^verbatim>\<open>atoi\<close> on the bytes from a pointer to the end of the buffer: white space, a sign, digits. Running off the
  buffer and a value that does not fit an \<^verbatim>\<open>int\<close> are undefined.
\<close>

definition atoi :: "char list \<Rightarrow> string_fault + int" where
  "atoi s0 =
     (let s1 = dropWhile is_space s0;
          neg = (s1 \<noteq> [] \<and> hd s1 = CHR ''-'');
          s = (if s1 \<noteq> [] \<and> (hd s1 = CHR ''-'' \<or> hd s1 = CHR ''+'') then tl s1 else s1);
          v = (if neg then - int (digits_value 0 s) else int (digits_value 0 s))
      in if dropWhile is_digit s = [] then Inl OutOfBuffer
         else if - (2 ^ 31) \<le> v \<and> v < 2 ^ 31 then Inr v else Inl IntOverflow)"

lemma of_char_digit: "d < 10 \<Longrightarrow> (of_char (digit d) :: nat) = 48 + d"
  by (simp add: digit_def)

lemma is_digit_digit [simp]: "d < 10 \<Longrightarrow> is_digit (digit d)"
  by (simp add: is_digit_def of_char_digit)

lemma show_nat_digits: "\<forall>c\<in>set (show_nat n). is_digit c"
  by (induction n rule: show_nat.induct) (subst show_nat.simps, simp)

lemma show_nat_no_control [simp]: "newline \<notin> set (show_nat n)" "NUL \<notin> set (show_nat n)"
  using show_nat_digits [of n] by (auto simp: is_digit_def newline_def NUL_def)

lemma show_nat_nonempty [simp]: "show_nat n \<noteq> []"
  by (subst show_nat.simps) simp

lemma digits_value_show: "digits_value acc (show_nat n @ r) = digits_value (acc * 10 ^ length (show_nat n) + n) r"
proof (induction n arbitrary: acc r rule: show_nat.induct)
  case (1 n)
  show ?case
  proof (cases "n < 10")
    case True
    then show ?thesis by (simp add: show_nat.simps [of n] of_char_digit algebra_simps)
  next
    case False
    let ?l = "length (show_nat (n div 10))"
    have "10 * (acc * 10 ^ ?l + n div 10) + n mod 10 = acc * 10 ^ Suc ?l + n"
      by (simp add: algebra_simps)
    then show ?thesis
      using False 1 [OF False, of acc "digit (n mod 10) # r"]
      by (simp add: show_nat.simps [of n] of_char_digit ac_simps)
  qed
qed

lemma digits_value_stop: "r = [] \<or> \<not> is_digit (hd r) \<Longrightarrow> digits_value acc r = acc"
  by (cases r) auto

lemma digit_not_sign: "is_digit c \<Longrightarrow> c \<noteq> CHR ''-'' \<and> c \<noteq> CHR ''+'' \<and> \<not> is_space c"
  by (auto simp: is_digit_def is_space_def)

lemma dropWhile_digits: "\<forall>c\<in>set s. is_digit c \<Longrightarrow> dropWhile is_digit (s @ r) = dropWhile is_digit r"
  by (induction s) auto

lemma length_show_nat: "0 < k \<Longrightarrow> length (show_nat n) \<le> k \<longleftrightarrow> n < 10 ^ k"
proof (induction n arbitrary: k rule: show_nat.induct)
  case (1 n)
  obtain j where k: "k = Suc j" using "1.prems" by (cases k) auto
  show ?case
  proof (cases "n < 10")
    case True
    have "(10 :: nat) \<le> 10 ^ k" using "1.prems" by (intro self_le_power) auto
    then show ?thesis using True "1.prems" by (simp add: show_nat.simps [of n])
  next
    case False
    have "length (show_nat n) \<le> k \<longleftrightarrow> length (show_nat (n div 10)) \<le> j"
      using False by (simp add: show_nat.simps [of n] k)
    also have "\<dots> \<longleftrightarrow> n div 10 < 10 ^ j"
      using False "1.IH" [of j] by (cases "j = 0") (simp_all add: div_eq_0_iff)
    also have "\<dots> \<longleftrightarrow> n < 10 ^ k" by (simp add: k div_less_iff_less_mult mult.commute)
    finally show ?thesis .
  qed
qed

lemma to_string_nonempty [simp]: "to_string i \<noteq> []"
  by (simp add: to_string_def)

lemma to_string_no_newline [simp]: "newline \<notin> set (to_string i)"
  by (simp add: to_string_def) (simp add: newline_def)

lemma length_to_string: "length (to_string i) \<le> 4 \<longleftrightarrow> - 1000 < i \<and> i < 10000"
  using length_show_nat [of 4 "nat i"] length_show_nat [of 3 "nat (- i)"] by (auto simp: to_string_def)

text \<open>Reading back what was printed, up to the first byte that is no digit.\<close>

lemma atoi_show:
  assumes "n < 2 ^ 31" and "r \<noteq> []" and "\<not> is_digit (hd r)"
  shows "atoi (show_nat n @ r) = Inr (int n)"
proof -
  obtain c cs where c: "show_nat n = c # cs" "is_digit c"
    using show_nat_digits [of n] show_nat_nonempty [of n] by (cases "show_nat n") auto
  then have "dropWhile is_space (show_nat n @ r) = show_nat n @ r" "hd (show_nat n @ r) \<noteq> CHR ''-''" "hd (show_nat n @ r) \<noteq> CHR ''+''"
    using digit_not_sign [OF c(2)] by simp_all
  moreover have "dropWhile is_digit (show_nat n @ r) = dropWhile is_digit r"
    using show_nat_digits by (rule dropWhile_digits)
  moreover have "dropWhile is_digit r = r" using assms(2,3) by (cases r) auto
  moreover have "digits_value 0 (show_nat n @ r) = n" using assms(3) by (simp add: digits_value_show digits_value_stop)
  ultimately show ?thesis using assms(1,2) by (simp add: atoi_def Let_def del: dropWhile_eq_Nil_conv)
qed

section \<open>Lines of a file\<close>

text \<open>At most \<open>n\<close> bytes of the file, up to and including the first newline; and the rest.\<close>

fun read_line :: "nat \<Rightarrow> string \<Rightarrow> string \<times> string" where
  "read_line 0 s = ([], s)"
| "read_line (Suc n) [] = ([], [])"
| "read_line (Suc n) (c # s) =
     (if c = newline then ([c], s) else let (l, r) = read_line n s in (c # l, r))"

text \<open>\<^verbatim>\<open>fgets\<close> into a buffer: the bytes read and a terminator; what is behind stays.\<close>

definition fgets :: "nat \<Rightarrow> char list \<Rightarrow> string \<Rightarrow> (char list \<times> string) option" where
  "fgets n buf s =
     (if s = [] then None
      else let (l, r) = read_line (n - 1) s in Some (l @ NUL # drop (length l + 1) buf, r))"

definition strlen :: "char list \<Rightarrow> nat" where
  "strlen buf = length (takeWhile (\<lambda>c. c \<noteq> NUL) buf)"

text \<open>\<^verbatim>\<open>strncmp(buf, s, strlen(s)) == 0\<close> for a literal \<open>s\<close>.\<close>

definition has_prefix :: "string \<Rightarrow> char list \<Rightarrow> bool" where
  "has_prefix s buf \<longleftrightarrow> take (length s) buf = s"

lemma read_line_consumes: "0 < n \<Longrightarrow> s \<noteq> [] \<Longrightarrow> length (snd (read_line n s)) < length s"
proof (induction n s rule: read_line.induct)
  case (3 n c s)
  then show ?case by (cases n; cases s) (auto simp: split_beta Let_def)
qed auto

lemma fgets_consumes: "fgets n buf s = Some (line, r) \<Longrightarrow> 1 < n \<Longrightarrow> length r < length s"
  using read_line_consumes [of "n - 1" s] by (auto simp: fgets_def split_beta Let_def split: if_splits)

lemma read_line_line:
  "length l < n \<Longrightarrow> newline \<notin> set l \<Longrightarrow> read_line n (l @ newline # r) = (l @ [newline], r)"
proof (induction l arbitrary: n)
  case Nil
  then show ?case by (cases n) auto
next
  case (Cons c l)
  then show ?case by (cases n) auto
qed

lemma fgets_line:
  assumes "length l + 1 < n" and "newline \<notin> set l"
  shows "fgets n buf (l @ newline # r) = Some (l @ newline # NUL # drop (length l + 2) buf, r)"
  using read_line_line [of l "n - 1" r] assms by (simp add: fgets_def)

lemma strlen_buffer: "NUL \<notin> set l \<Longrightarrow> strlen (l @ NUL # r) = length l"
  unfolding strlen_def by (induction l) auto

end
