(* ===== verification/Terminal.thy ===== *)
theory Terminal
  imports C_Strings Float_Model
begin

unbundle bit_operations_syntax

text \<open>
  The terminal library that the monitor draws with (\<^verbatim>\<open>dep/rxterm\<close>): styles, images, line breaking, the
  components and the virtual terminal. Image sizes are natural numbers: the multiplications of \<^verbatim>\<open>unsigned\<close>
  sizes do not wrap for pages of less than \<open>2^32\<close> pixels. Undefined accesses are faults, and so is a line
  break that never ends.
\<close>

datatype render_fault = OutOfImage | EmptyText | EmptyStack | NeverReturns

section \<open>Styles\<close>

text \<open>\<^verbatim>\<open>Color\<close> and \<^verbatim>\<open>FontColor\<close> have the same values; fonts are sets of bits.\<close>

datatype color = NoColor | Black | Red | Green | Yellow | Blue | Magenta | Cyan | White
  | DefaultColor | Transparent | InheritColor

fun color_code :: "color \<Rightarrow> int" where
  "color_code NoColor = 0" | "color_code Black = 1" | "color_code Red = 2" | "color_code Green = 3"
| "color_code Yellow = 4" | "color_code Blue = 5" | "color_code Magenta = 6" | "color_code Cyan = 7"
| "color_code White = 8" | "color_code DefaultColor = 9" | "color_code Transparent = 10" | "color_code InheritColor = 11"

definition Font_Default :: uint32 where "Font_Default = 1"
definition Font_Bold :: uint32 where "Font_Bold = 2"
definition Font_Faint :: uint32 where "Font_Faint = 4"
definition Font_Italic :: uint32 where "Font_Italic = 16"
definition Font_Underline :: uint32 where "Font_Underline = 64"
definition Font_Hidden :: uint32 where "Font_Hidden = 256"
definition Font_Crossed :: uint32 where "Font_Crossed = 1024"
definition Font_Inherit :: uint32 where "Font_Inherit = 2048"

record style =
  st_bg :: color
  st_fg :: color
  st_font :: uint32

datatype style_arg = Bg color | Fg color | Ft uint32

definition max_color :: "color \<Rightarrow> color \<Rightarrow> color" where
  "max_color a b = (if color_code a < color_code b then b else a)"

text \<open>The constructor from any attributes: the greatest colours and the union of the fonts.\<close>

fun Style :: "style_arg list \<Rightarrow> style" where
  "Style [] = \<lparr>st_bg = NoColor, st_fg = NoColor, st_font = 0\<rparr>"
| "Style (Bg c # as) = (Style as)\<lparr>st_bg := max_color c (st_bg (Style as))\<rparr>"
| "Style (Fg c # as) = (Style as)\<lparr>st_fg := max_color c (st_fg (Style as))\<rparr>"
| "Style (Ft f # as) = (Style as)\<lparr>st_font := f OR st_font (Style as)\<rparr>"

abbreviation Style_Default :: style where
  "Style_Default \<equiv> Style [Ft Font_Default]"

definition font_mod :: "uint32 \<Rightarrow> string \<Rightarrow> style \<Rightarrow> string" where
  "font_mod f code st = (if st_font st AND f \<noteq> 0 then code else [])"

definition bgMod :: "style \<Rightarrow> string" where
  "bgMod st = (if color_code (st_bg st) < 11 then to_string (40 + color_code (st_bg st) - 1) else [])"

definition fgMod :: "style \<Rightarrow> string" where
  "fgMod st = (if color_code (st_fg st) < 11 then to_string (30 + color_code (st_fg st) - 1) else [])"

fun composeMod :: "string list \<Rightarrow> string" where
  "composeMod [] = []"
| "composeMod [x] = x"
| "composeMod (x # xs) = (let r = composeMod xs in x @ (if r = [] \<or> x = [] then [] else '';'') @ r)"

definition ESC :: char where "ESC = CHR 0x1B"

definition computeMod :: "string list \<Rightarrow> string" where
  "computeMod xs = (let r = composeMod xs in if r = [] then [] else ESC # ''['' @ r @ ''m'')"

definition Style_toString :: "style \<Rightarrow> string" where
  "Style_toString st = computeMod
     [font_mod Font_Default ''0'' st, font_mod Font_Bold ''1'' st, font_mod Font_Underline ''4'' st,
      font_mod Font_Faint ''2'' st, font_mod Font_Italic ''3'' st, font_mod Font_Hidden ''8'' st,
      font_mod Font_Crossed ''9'' st, bgMod st, fgMod st]"

text \<open>What has to be sent to go from style \<open>a\<close> to style \<open>b\<close>.\<close>

definition style_diff :: "style \<Rightarrow> style \<Rightarrow> style" where
  "style_diff a b =
     (let l = st_font a; r = st_font b; reset = (l AND NOT r \<noteq> 0)
      in \<lparr>st_bg = (if st_bg a = st_bg b \<and> \<not> reset then InheritColor else st_bg b),
          st_fg = (if st_fg a = st_fg b \<and> \<not> reset then InheritColor else st_fg b),
          st_font = (if l = r \<and> \<not> reset then Font_Inherit else (r AND ((l AND r) XOR r)) OR (if reset then 1 else 0))\<rparr>)"

section \<open>Images\<close>

record pixel =
  px_c :: char
  px_style :: style

record image =
  im_pixels :: "pixel list"
  im_width :: nat
  im_height :: nat

abbreviation blank :: pixel where
  "blank \<equiv> \<lparr>px_c = NUL, px_style = Style []\<rparr>"

definition Image_create :: "nat \<Rightarrow> nat \<Rightarrow> pixel \<Rightarrow> image" where
  "Image_create w h p = \<lparr>im_pixels = replicate (w * h) p, im_width = w, im_height = h\<rparr>"

text \<open>The two \<^verbatim>\<open>operator()\<close>: reading and assigning the pixel at column \<open>x\<close>, row \<open>y\<close>.\<close>

definition get_pixel :: "image \<Rightarrow> nat \<Rightarrow> nat \<Rightarrow> render_fault + pixel" where
  "get_pixel im x y =
     (let i = y * im_width im + x in if i < length (im_pixels im) then Inr (im_pixels im ! i) else Inl OutOfImage)"

definition set_pixel :: "image \<Rightarrow> nat \<Rightarrow> nat \<Rightarrow> pixel \<Rightarrow> render_fault + image" where
  "set_pixel im x y p =
     (let i = y * im_width im + x
      in if i < length (im_pixels im) then Inr (im\<lparr>im_pixels := (im_pixels im)[i := p]\<rparr>) else Inl OutOfImage)"

text \<open>The order of two nested loops over rows and columns.\<close>

definition raster :: "nat \<Rightarrow> nat \<Rightarrow> (nat \<times> nat) list" where
  "raster w h = concat (map (\<lambda>y. map (\<lambda>x. (x, y)) [0..<w]) [0..<h])"

definition blend :: "pixel \<Rightarrow> pixel \<Rightarrow> pixel" where
  "blend p q =
     \<lparr>px_c = (if px_c q \<noteq> NUL then px_c q else px_c p),
      px_style = \<lparr>st_bg = (if px_c q \<noteq> NUL then st_bg (px_style q) else st_bg (px_style p)),
                  st_fg = st_fg (px_style q), st_font = st_font (px_style q)\<rparr>\<rparr>"

definition draw_pixel :: "nat \<Rightarrow> nat \<Rightarrow> image \<Rightarrow> nat \<times> nat \<Rightarrow> image \<Rightarrow> render_fault + image" where
  "draw_pixel sx sy fg xy canvas =
     rbind (get_pixel canvas (sx + fst xy) (sy + snd xy)) (\<lambda>p.
     rbind (get_pixel fg (fst xy) (snd xy)) (\<lambda>q. set_pixel canvas (sx + fst xy) (sy + snd xy) (blend p q)))"

definition drawOnBackground :: "image \<Rightarrow> nat \<Rightarrow> nat \<Rightarrow> image \<Rightarrow> render_fault + image" where
  "drawOnBackground canvas sx sy fg = rfold (draw_pixel sx sy fg) (raster (im_width fg) (im_height fg)) canvas"

text \<open>\<^verbatim>\<open>Image::toString\<close>: the state is the style last sent and the string so far.\<close>

definition print_pixel :: "image \<Rightarrow> nat \<Rightarrow> nat \<Rightarrow> style \<times> string \<Rightarrow> render_fault + style \<times> string" where
  "print_pixel im y x s =
     rbind (get_pixel im x y) (\<lambda>p.
       let st = (if px_c p \<noteq> NUL then px_style p else Style_Default)
       in Inr (st, snd s @ Style_toString (style_diff (fst s) st) @ [if px_c p \<noteq> NUL then px_c p else CHR '' '']))"

definition print_row :: "image \<Rightarrow> nat \<Rightarrow> style \<times> string \<Rightarrow> render_fault + style \<times> string" where
  "print_row im y s =
     rbind (rfold (print_pixel im y) [0..<im_width im] s) (\<lambda>s. Inr (fst s, snd s @ [newline]))"

definition Image_toString :: "image \<Rightarrow> render_fault + string" where
  "Image_toString im =
     rbind (rfold (print_row im) [0..<im_height im] (Style [], [])) (\<lambda>s. Inr (snd s))"

section \<open>Text\<close>

definition breakers :: string where
  "breakers = newline # CHR 0x09 # ''.,!?:;- ''"

definition find_last_of :: "string \<Rightarrow> nat option" where
  "find_last_of s = (case filter (\<lambda>i. s ! i \<in> set breakers) (rev [0..<length s]) of [] \<Rightarrow> None | i # _ \<Rightarrow> Some i)"

definition substr :: "string \<Rightarrow> nat \<Rightarrow> nat \<Rightarrow> string" where
  "substr s b n = take n (drop b s)"

text \<open>
  The loop of \<^verbatim>\<open>reflow\<close>. The position \<open>t\<close> of the break is relative to \<open>b\<close>, but \<^verbatim>\<open>s[t]\<close> and
  \<^verbatim>\<open>b = t+1\<close> take it from the beginning of the string, so \<open>b\<close> can go back: the loop may never end.
\<close>

partial_function (option) reflow_loop :: "nat \<Rightarrow> string \<Rightarrow> nat \<Rightarrow> string \<Rightarrow> string option" where
  "reflow_loop w s b content =
     (if b < length s then
        (case find_last_of (substr s b (w + 1)) of
           None \<Rightarrow> reflow_loop w s (b + w) (content @ substr s b w @ (if b + w < length s then [newline] else []))
         | Some t \<Rightarrow>
             if s ! t = newline then reflow_loop w s (t + 1) (content @ substr s b t)
             else if w \<le> t then reflow_loop w s (b + w) (content @ substr s b w @ [newline])
             else reflow_loop w s (b + t + 1) (content @ substr s b (t + 1) @ [newline]))
      else Some content)"

definition reflow :: "nat \<Rightarrow> string \<Rightarrow> string option" where
  "reflow w s = (if w = 0 then Some [] else if length s \<le> w then Some s else reflow_loop w s 0 [])"

text \<open>\<^verbatim>\<open>split\<close> at newlines; a last piece is kept if it is not empty.\<close>

fun split_lines :: "string \<Rightarrow> string \<Rightarrow> string list" where
  "split_lines acc [] = (if acc = [] then [] else [acc])"
| "split_lines acc (c # s) = (if c = newline then acc # split_lines [] s else split_lines (acc @ [c]) s)"

definition set_char :: "nat \<Rightarrow> string \<Rightarrow> nat \<Rightarrow> image \<Rightarrow> render_fault + image" where
  "set_char y line x im = rbind (get_pixel im x y) (\<lambda>p. set_pixel im x y (p\<lparr>px_c := line ! x\<rparr>))"

definition write_line :: "nat \<times> string \<Rightarrow> image \<Rightarrow> render_fault + image" where
  "write_line yl im = rfold (set_char (fst yl) (snd yl)) [0..<length (snd yl)] im"

definition Text_render :: "nat \<Rightarrow> style \<Rightarrow> string \<Rightarrow> render_fault + image" where
  "Text_render maxWidth st content =
     (case reflow maxWidth content of
        None \<Rightarrow> Inl NeverReturns
      | Some flowed \<Rightarrow>
          let ls = split_lines [] flowed
          in if ls = [] then Inl EmptyText
             else rfold write_line (enumerate 0 ls)
               (Image_create (foldr max (map length ls) 0) (length ls) \<lparr>px_c = NUL, px_style = st\<rparr>))"

section \<open>Components\<close>

text \<open>A result of a \<^verbatim>\<open>float\<close> division: a number, an infinity or none.\<close>

datatype fnum = Fin rat | PosInf | NegInf | NotNumber

text \<open>\<^verbatim>\<open>clamp(0.0f, 1.0f, x)\<close>: \<^verbatim>\<open>std::max(0, NaN)\<close> is 0.\<close>

fun clamp01 :: "fnum \<Rightarrow> rat" where
  "clamp01 (Fin x) = min 1 (max 0 x)"
| "clamp01 PosInf = 1"
| "clamp01 NegInf = 0"
| "clamp01 NotNumber = 0"

datatype component = Text style string | Stack "component list" | Flow "component list"
  | Progress fnum pixel pixel | MaxWidth nat component

definition Progress_render :: "nat \<Rightarrow> fnum \<Rightarrow> pixel \<Rightarrow> pixel \<Rightarrow> render_fault + image" where
  "Progress_render width progress bg fg =
     drawOnBackground (Image_create width 1 bg) 0 0
       (Image_create (nat \<lfloor>rnd32 (rnd32 (of_nat width) * clamp01 progress)\<rfloor>) 1 fg)"

definition Stack_render :: "image list \<Rightarrow> render_fault + image" where
  "Stack_render images =
     (if images = [] then Inl EmptyStack
      else rbind (rfold (\<lambda>image (canvas, y). rbind (drawOnBackground canvas 0 y image) (\<lambda>canvas. Inr (canvas, y + im_height image)))
             images (Image_create (foldr max (map im_width images) 0) (sum_list (map im_height images)) blank, 0))
           (\<lambda>(canvas, y). Inr canvas))"

text \<open>The first loop of \<^verbatim>\<open>FlowLayout::render\<close>: the positions, the width and the height.\<close>

fun flow_place :: "nat \<Rightarrow> image list \<Rightarrow> nat \<Rightarrow> nat \<Rightarrow> nat \<Rightarrow> nat \<Rightarrow> (nat \<times> nat) list \<times> nat \<times> nat" where
  "flow_place maxWidth [] width x curHeight y = ([], width, y + curHeight)"
| "flow_place maxWidth (im # ims) width x curHeight y =
     (if maxWidth < x + im_width im then
        let (ps, size) = flow_place maxWidth ims (max width (im_width im)) (im_width im) (im_height im) (y + curHeight)
        in ((0, y + curHeight) # ps, size)
      else
        let (ps, size) = flow_place maxWidth ims (max width (x + im_width im)) (x + im_width im) (max curHeight (im_height im)) y
        in ((x, y) # ps, size))"

definition Flow_render :: "nat \<Rightarrow> image list \<Rightarrow> render_fault + image" where
  "Flow_render maxWidth images =
     (let (ps, width, height) = flow_place maxWidth images 0 0 0 0
      in rfold (\<lambda>(image, p) canvas. drawOnBackground canvas (fst p) (snd p) image) (zip images ps)
           (Image_create width height blank))"

fun render :: "nat \<Rightarrow> component \<Rightarrow> render_fault + image"
  and render_all :: "nat \<Rightarrow> component list \<Rightarrow> render_fault + image list" where
  "render w (Text st s) = Text_render w st s"
| "render w (Stack cs) = rbind (render_all w cs) Stack_render"
| "render w (Flow cs) = rbind (render_all w cs) (Flow_render w)"
| "render w (Progress p bg fg) = Progress_render w p bg fg"
| "render w (MaxWidth n c) = render (min w n) c"
| "render_all w [] = Inr []"
| "render_all w (c # cs) = rbind (render w c) (\<lambda>im. rbind (render_all w cs) (\<lambda>ims. Inr (im # ims)))"

section \<open>The virtual terminal\<close>

definition clearLines :: "nat \<Rightarrow> string" where
  "clearLines n = ESC # ''[0m'' @ ESC # ''[0K''
     @ concat (replicate n (ESC # ''[2K'' @ [CHR 0x0D] @ ESC # ''['' @ to_string 1 @ ''A'' @ [CHR 0x0D]))"

text \<open>\<open>ws_row\<close> is the height of the terminal. The second value is the new buffer.\<close>

definition computeTransition :: "nat \<Rightarrow> string \<Rightarrow> string \<Rightarrow> string" where
  "computeTransition ws_row buffer s =
     (if buffer = s then [] else clearLines (max (count_list buffer newline) ws_row) @ ESC # ''[0m;'' @ s)"

definition flip_terminal :: "nat \<Rightarrow> string \<Rightarrow> string \<Rightarrow> string \<times> string" where
  "flip_terminal ws_row buffer s =
     (let transition = computeTransition ws_row buffer s
      in if transition = [] then ([], buffer) else (transition @ ESC # ''[0;8m'', s))"

end
