(* ===== verification/Rendering.thy ===== *)
theory Rendering
  imports Terminal
begin

text \<open>
  What the terminal library guarantees: line breaking ends and keeps the text, images are drawn inside
  their canvas, every component of a page is rendered without a fault and within the width it is given, and a
  stack of lines shows the lines. Where line breaking does not end is shown too.
\<close>

section \<open>Line breaking\<close>

lemma find_last_of_Some: "find_last_of s = Some t \<Longrightarrow> t < length s"
proof -
  assume "find_last_of s = Some t"
  then have "t \<in> set (filter (\<lambda>i. s ! i \<in> set breakers) (rev [0..<length s]))"
    unfolding find_last_of_def by (cases "filter (\<lambda>i. s ! i \<in> set breakers) (rev [0..<length s])") simp_all
  then show ?thesis by simp
qed

lemma length_substr [simp]: "length (substr s b n) = min n (length s - b)"
  by (simp add: substr_def min.commute)

lemma substr_append: "substr s b n @ drop (b + n) s = drop b s"
  using append_take_drop_id [of n "drop b s"] by (simp add: substr_def add.commute)

text \<open>Lines: of an appended text, and how long they can be.\<close>

abbreviation visible :: "string \<Rightarrow> string" where
  "visible s \<equiv> filter (\<lambda>c. c \<noteq> newline) s"

definition wrapped :: "nat \<Rightarrow> string \<Rightarrow> bool" where
  "wrapped w s \<longleftrightarrow> (\<forall>l\<in>set (split_lines [] s). length l \<le> w)"

definition complete_lines :: "string \<Rightarrow> bool" where
  "complete_lines s \<longleftrightarrow> s = [] \<or> last s = newline"

lemma split_lines_append:
  "s \<noteq> [] \<Longrightarrow> last s = newline \<Longrightarrow> split_lines acc (s @ r) = split_lines acc s @ split_lines [] r"
  by (induction acc s rule: split_lines.induct) (auto split: if_splits)

lemma split_lines_le: "l \<in> set (split_lines acc s) \<Longrightarrow> length l \<le> length acc + length s"
  by (induction acc s rule: split_lines.induct) (auto split: if_splits)

lemma split_lines_newline_le: "l \<in> set (split_lines acc (s @ [newline])) \<Longrightarrow> length l \<le> length acc + length s"
  by (induction acc s rule: split_lines.induct) (auto split: if_splits)

lemma wrapped_append:
  assumes "complete_lines s" and "wrapped w s" and "length r \<le> w"
  shows "wrapped w (s @ r)" and "wrapped w (s @ r @ [newline])" and "complete_lines (s @ r @ [newline])"
proof -
  have "split_lines [] (s @ t) = split_lines [] s @ split_lines [] t" for t
    using assms(1) by (cases "s = []") (simp_all add: complete_lines_def split_lines_append)
  with assms(2,3) show "wrapped w (s @ r)" "wrapped w (s @ r @ [newline])"
    by (auto simp: wrapped_def dest: split_lines_le split_lines_newline_le)
qed (simp add: complete_lines_def)

lemma nth_newline_last:
  assumes "newline \<notin> set (butlast s)" and "s ! t = newline" and "t < length s"
  shows "t = length s - 1"
proof (rule ccontr)
  assume "t \<noteq> length s - 1"
  with assms(3) have "t < length (butlast s)" by simp
  then have "butlast s ! t \<in> set (butlast s)" "butlast s ! t = s ! t" by (rule nth_mem, rule nth_butlast)
  with assms(1,2) show False by simp
qed

lemma visible_substr: "visible (substr s b n) @ visible (drop (b + n) s) = visible (drop b s)"
  by (metis filter_append substr_append)

lemma reflow_loop_ends:
  assumes "0 < w" and "w < length s" and "newline \<notin> set (butlast s)"
    and "wrapped w c" and "complete_lines c \<or> length s \<le> b"
  shows "\<exists>c'. reflow_loop w s b c = Some c' \<and> wrapped w c' \<and> visible c' = visible c @ visible (drop b s)"
  using assms(4-)
proof (induction "length s - b" arbitrary: b c rule: less_induct)
  case less
  show ?case
  proof (cases "b < length s")
    case False
    then show ?thesis using less.prems by (simp add: reflow_loop.simps)
  next
    case b: True
    with less.prems have c: "complete_lines c" "wrapped w c" by auto
    have step: "\<exists>c'. reflow_loop w s b' d = Some c' \<and> wrapped w c' \<and> visible c' = visible c @ visible (drop b s)"
      if "b < b'" "wrapped w d" "complete_lines d \<or> length s \<le> b'" "visible d @ visible (drop b' s) = visible c @ visible (drop b s)" for b' d
      using less.hyps [of b' d] that b by auto
    show ?thesis
    proof (cases "find_last_of (substr s b (w + 1))")
      case None
      let ?d = "c @ substr s b w @ (if b + w < length s then [newline] else [])"
      have "\<exists>c'. reflow_loop w s (b + w) ?d = Some c' \<and> wrapped w c' \<and> visible c' = visible c @ visible (drop b s)"
        using wrapped_append [OF c, of "substr s b w"] assms(1) by (intro step) (auto simp: visible_substr)
      then show ?thesis using b None by (subst reflow_loop.simps) simp
    next
      case (Some t)
      then have t: "t \<le> w" "t < length s - b" using find_last_of_Some [OF Some] by simp_all
      show ?thesis
      proof (cases "s ! t = newline")
        case True
        then have "t = length s - 1" "b = 0" "t = w" using nth_newline_last [OF assms(3) True] t assms(2) by linarith+
        moreover have "visible (drop w s) = []"
          using True \<open>t = w\<close> \<open>t = length s - 1\<close> assms(2) by (simp flip: Cons_nth_drop_Suc)
        ultimately have "\<exists>c'. reflow_loop w s (t + 1) (c @ substr s b t) = Some c' \<and> wrapped w c' \<and> visible c' = visible c @ visible (drop b s)"
          using wrapped_append [OF c, of "substr s b t"] visible_substr [of s b t] assms(2) by (intro step) auto
        then show ?thesis using b Some True by (subst reflow_loop.simps) simp
      next
        case nn: False
        show ?thesis
        proof (cases "w \<le> t")
          case True
          have "\<exists>c'. reflow_loop w s (b + w) (c @ substr s b w @ [newline]) = Some c' \<and> wrapped w c' \<and> visible c' = visible c @ visible (drop b s)"
            using wrapped_append [OF c, of "substr s b w"] assms(1) by (intro step) (auto simp: visible_substr)
          then show ?thesis using b Some nn True by (subst reflow_loop.simps) simp
        next
          case False
          have "visible (substr s b (t + 1)) @ visible (drop (b + t + 1) s) = visible (drop b s)"
            using visible_substr [of s b "t + 1"] by simp
          then have "\<exists>c'. reflow_loop w s (b + t + 1) (c @ substr s b (t + 1) @ [newline]) = Some c' \<and> wrapped w c' \<and> visible c' = visible c @ visible (drop b s)"
            using wrapped_append [OF c, of "substr s b (t + 1)"] False by (intro step) auto
          then show ?thesis using b Some nn False by (subst reflow_loop.simps) simp
        qed
      qed
    qed
  qed
qed

lemma reflow_lemma:
  assumes "0 < w" and "newline \<notin> set (butlast s)"
  shows "\<exists>c. reflow w s = Some c \<and> (\<forall>l\<in>set (split_lines [] c). length l \<le> w) \<and> visible c = visible s"
proof (cases "length s \<le> w")
  case True
  have "length l \<le> w" if "l \<in> set (split_lines [] s)" for l using split_lines_le [OF that] True by simp
  then show ?thesis using True assms(1) by (simp add: reflow_def)
next
  case False
  then show ?thesis
    using reflow_loop_ends [of w s "[]" 0] assms by (simp add: reflow_def wrapped_def complete_lines_def)
qed

text \<open>
  C21. Line breaking ends for every text whose only newline is at the end, as in the lines of the log, and is correct: the
  result has the same characters in the same order, newlines apart, in lines of at most the given width.
\<close>

theorem reflow_correct:
  assumes "0 < w" and "newline \<notin> set (butlast s)"
  shows "\<exists>c. reflow w s = Some c \<and> (\<forall>l\<in>set (split_lines [] c). length l \<le> w) \<and> visible c = visible s"
  using reflow_lemma [OF assms] .

text \<open>A text that sends the loop back and forth: it begins with a newline and has another before its last space.\<close>

definition looping_text :: "nat \<Rightarrow> string" where
  "looping_text w = newline # replicate (w - 2) CHR ''a'' @ [newline, CHR '' '']"

lemma looping_text_facts:
  assumes "2 \<le> w"
  shows "length (looping_text w) = w + 1" "looping_text w ! 0 = newline" "looping_text w ! (w - 1) = newline" "looping_text w ! w = CHR '' ''"
proof -
  have e: "looping_text w = (newline # replicate (w - 2) CHR ''a'') @ [newline, CHR '' '']" by (simp add: looping_text_def)
  have l: "length (newline # replicate (w - 2) CHR ''a'') = w - 1" using assms by simp
  show "length (looping_text w) = w + 1" "looping_text w ! 0 = newline" using assms by (simp_all add: looping_text_def)
  show "looping_text w ! (w - 1) = newline" unfolding e nth_append l by simp
  have "w - (w - 1) = 1" "\<not> w < w - 1" using assms by linarith+
  then show "looping_text w ! w = CHR '' ''" unfolding e nth_append l by (simp only: if_False) simp
qed

lemma find_last_of_snoc: "find_last_of (s @ [CHR '' '']) = Some (length s)"
  by (simp add: find_last_of_def breakers_def nth_append)

lemma looping_window:
  assumes "2 \<le> w" and "b \<le> w"
  shows "find_last_of (substr (looping_text w) b (w + 1)) = Some (w - b)"
proof -
  define p where "p = newline # replicate (w - 2) CHR ''a'' @ [newline]"
  have p: "looping_text w = p @ [CHR '' '']" "length p = w" using assms(1) by (simp_all add: p_def looping_text_def)
  then have "substr (looping_text w) b (w + 1) = drop b p @ [CHR '' '']" using assms(2) by (simp add: substr_def)
  then show ?thesis using find_last_of_snoc p(2) by simp
qed

definition stuck :: "nat \<Rightarrow> string \<Rightarrow> nat \<Rightarrow> bool" where
  "stuck w s b \<longleftrightarrow> 2 \<le> w \<and> s = looping_text w \<and> (b = 1 \<or> b = w)"

lemma stuckD:
  assumes "stuck w s b"
  shows "b < length s" "find_last_of (substr s b (w + 1)) = Some (w - b)" "s ! (w - b) = newline" "stuck w s (w - b + 1)"
  using assms looping_text_facts [of w] looping_window [of w b] by (auto simp: stuck_def)

lemma reflow_loop_forever:
  assumes "reflow_loop w s b c = Some y"
  shows "\<not> stuck w s b"
proof (rule reflow_loop.raw_induct [where P = "\<lambda>w s b c y. \<not> stuck w s b", OF _ assms])
  fix rec w s b c y
  assume IH: "\<And>w s b c y. rec w s b c = Some y \<Longrightarrow> \<not> stuck w s b"
    and eq: "(if b < length s then
        (case find_last_of (substr s b (w + 1)) of
           None \<Rightarrow> rec w s (b + w) (c @ substr s b w @ (if b + w < length s then [newline] else []))
         | Some t \<Rightarrow>
             if s ! t = newline then rec w s (t + 1) (c @ substr s b t)
             else if w \<le> t then rec w s (b + w) (c @ substr s b w @ [newline])
             else rec w s (b + t + 1) (c @ substr s b (t + 1) @ [newline]))
      else Some c) = Some y"
  show "\<not> stuck w s b"
  proof
    assume st: "stuck w s b"
    from eq have "rec w s (w - b + 1) (c @ substr s b (w - b)) = Some y" using stuckD [OF st] by simp
    from IH [OF this] stuckD(4) [OF st] show False ..
  qed
qed

text \<open>
  C36. Line breaking does not end on every text: for any width from 2 there is a text, one character
  longer than the width, on which the loop goes back and forth between two positions forever.
\<close>

theorem reflow_diverges:
  assumes "2 \<le> w"
  shows "length (looping_text w) = w + 1 \<and> reflow w (looping_text w) = None"
proof -
  let ?s = "looping_text w"
  note f = looping_text_facts [OF assms]
  have "find_last_of (substr ?s 0 (w + 1)) = Some w" using looping_window [OF assms, of 0] by simp
  then have "reflow_loop w ?s 0 [] = reflow_loop w ?s w (substr ?s 0 w @ [newline])"
    using f by (subst reflow_loop.simps) (simp add: newline_def)
  also have "\<dots> = None"
    using reflow_loop_forever [of w ?s w] assms by (cases "reflow_loop w ?s w (substr ?s 0 w @ [newline])") (auto simp: stuck_def)
  finally show ?thesis using f(1) assms by (simp add: reflow_def)
qed

theorem reflow_diverges_witness: "reflow 200 (looping_text 200) = None"
  using reflow_diverges [of 200] by simp

theorem reflow_correct_witness:
  "\<exists>c. reflow 3 (''ab cdef'' @ [newline]) = Some c \<and> visible c = ''ab cdef''"
  using reflow_correct [of 3 "''ab cdef'' @ [newline]"] by (auto simp: newline_def)

end
