(* ===== verification/Layout.thy ===== *)
theory Layout
  imports Rendering
begin

text \<open>
  Drawing: images are only accessed inside their bounds, and what a page of components shows. The
  lemmas on single pixels are proved once for loops of edits (\<open>edits_total\<close>) and used for text, for drawing one
  image on another and for both layouts.
\<close>

section \<open>Images as functions of column and row\<close>

definition image_ok :: "image \<Rightarrow> bool" where
  "image_ok im \<longleftrightarrow> length (im_pixels im) = im_width im * im_height im"

definition px :: "image \<Rightarrow> nat \<Rightarrow> nat \<Rightarrow> pixel" where
  "px im x y = im_pixels im ! (y * im_width im + x)"

definition same_size :: "image \<Rightarrow> image \<Rightarrow> bool" where
  "same_size a b \<longleftrightarrow> im_width a = im_width b \<and> im_height a = im_height b"

lemma index_less: "x < w \<Longrightarrow> y < h \<Longrightarrow> y * w + x < w * (h :: nat)"
proof -
  assume "x < w" "y < h"
  then have "y * w + x < Suc y * w" by simp
  also have "\<dots> \<le> h * w" using \<open>y < h\<close> by (intro mult_right_mono) auto
  finally show ?thesis by (simp add: mult.commute)
qed

lemma index_inj: "x < w \<Longrightarrow> x' < w \<Longrightarrow> y * w + x = y' * w + x' \<longleftrightarrow> x = x' \<and> y = (y' :: nat)"
proof
  assume "x < w" "x' < w" "y * w + x = y' * w + x'"
  then have "(y * w + x) mod w = (y' * w + x') mod w" "(y * w + x) div w = (y' * w + x') div w" by simp_all
  then show "x = x' \<and> y = y'" using \<open>x < w\<close> \<open>x' < w\<close> by simp
qed simp

lemma image_ok_create [simp]: "image_ok (Image_create w h p)"
  by (simp add: image_ok_def Image_create_def)

lemma create_sel [simp]: "im_width (Image_create w h p) = w" "im_height (Image_create w h p) = h"
  by (simp_all add: Image_create_def)

lemma px_create [simp]: "x < w \<Longrightarrow> y < h \<Longrightarrow> px (Image_create w h p) x y = p"
  by (simp add: px_def Image_create_def index_less)

lemma get_pixel_ok: "image_ok im \<Longrightarrow> x < im_width im \<Longrightarrow> y < im_height im \<Longrightarrow> get_pixel im x y = Inr (px im x y)"
  by (simp add: get_pixel_def image_ok_def index_less px_def)

text \<open>A pixel replaced by a function of itself.\<close>

definition edit :: "nat \<times> nat \<Rightarrow> (pixel \<Rightarrow> pixel) \<Rightarrow> image \<Rightarrow> render_fault + image" where
  "edit p g im = rbind (get_pixel im (fst p) (snd p)) (\<lambda>q. set_pixel im (fst p) (snd p) (g q))"

lemma edit_total:
  assumes "image_ok im" and "x < im_width im" and "y < im_height im"
  shows "\<exists>im'. edit (x, y) g im = Inr im' \<and> image_ok im' \<and> same_size im' im \<and> px im' x y = g (px im x y)
    \<and> (\<forall>a<im_width im. \<forall>b. (a, b) \<noteq> (x, y) \<longrightarrow> px im' a b = px im a b)"
proof -
  have i: "y * im_width im + x < length (im_pixels im)" using assms by (simp add: image_ok_def index_less)
  let ?im = "im\<lparr>im_pixels := (im_pixels im)[y * im_width im + x := g (px im x y)]\<rparr>"
  have "edit (x, y) g im = Inr ?im" using assms i by (simp add: edit_def get_pixel_ok set_pixel_def)
  moreover have "px ?im a b = px im a b" if "a < im_width im" "(a, b) \<noteq> (x, y)" for a b
    using index_inj [of x "im_width im" a y b] assms(2) that by (auto simp: px_def nth_list_update_neq)
  moreover have "image_ok ?im" "same_size ?im im" "px ?im x y = g (px im x y)"
    using assms(1) i by (simp_all add: image_ok_def same_size_def px_def)
  ultimately show ?thesis by blast
qed

lemma edits_total:
  assumes "image_ok im" and "distinct ks" and "inj_on pos (set ks)"
    and "\<forall>k\<in>set ks. fst (pos k) < im_width im \<and> snd (pos k) < im_height im"
  shows "\<exists>im'. rfold (\<lambda>k. edit (pos k) (g k)) ks im = Inr im' \<and> image_ok im' \<and> same_size im' im
    \<and> (\<forall>k\<in>set ks. px im' (fst (pos k)) (snd (pos k)) = g k (px im (fst (pos k)) (snd (pos k))))
    \<and> (\<forall>a<im_width im. \<forall>b. (a, b) \<notin> pos ` set ks \<longrightarrow> px im' a b = px im a b)"
  using assms
proof (induction ks rule: rev_induct)
  case Nil
  then show ?case by (simp add: same_size_def)
next
  case (snoc k ks)
  then obtain im1 where im1: "rfold (\<lambda>k. edit (pos k) (g k)) ks im = Inr im1" "image_ok im1" "same_size im1 im"
      "\<forall>k\<in>set ks. px im1 (fst (pos k)) (snd (pos k)) = g k (px im (fst (pos k)) (snd (pos k)))"
      "\<forall>a<im_width im. \<forall>b. (a, b) \<notin> pos ` set ks \<longrightarrow> px im1 a b = px im a b"
    by (auto simp: inj_on_def)
  obtain x y where xy: "pos k = (x, y)" by force
  have b: "x < im_width im" "y < im_height im" using snoc.prems(4) xy by simp_all
  have new: "(x, y) \<notin> pos ` set ks"
    using snoc.prems(2,3) xy by (auto simp: inj_on_def)
  obtain im2 where im2: "edit (x, y) (g k) im1 = Inr im2" "image_ok im2" "same_size im2 im1" "px im2 x y = g k (px im1 x y)"
      "\<forall>a<im_width im1. \<forall>b. (a, b) \<noteq> (x, y) \<longrightarrow> px im2 a b = px im1 a b"
    using edit_total [OF im1(2), of x y "g k"] b im1(3) by (auto simp: same_size_def)
  have w: "im_width im1 = im_width im" using im1(3) by (simp add: same_size_def)
  have "px im2 (fst (pos j)) (snd (pos j)) = g j (px im (fst (pos j)) (snd (pos j)))" if "j \<in> set ks" for j
  proof -
    have "pos j \<noteq> (x, y)" using new that by force
    then have "px im2 (fst (pos j)) (snd (pos j)) = px im1 (fst (pos j)) (snd (pos j))"
      using im2(5) snoc.prems(4) that w by (cases "pos j") auto
    with im1(4) that show ?thesis by simp
  qed
  moreover have "px im2 x y = g k (px im x y)" using im2(4) im1(5) new b(1) by simp
  moreover have "px im2 c d = px im c d" if "c < im_width im" "(c, d) \<notin> pos ` set (ks @ [k])" for c d
    using im2(5) im1(5) that xy w by auto
  moreover have "rfold (\<lambda>k. edit (pos k) (g k)) (ks @ [k]) im = Inr im2" using im1(1) im2(1) xy by (simp add: rfold_append)
  moreover have "same_size im2 im" using im1(3) im2(3) by (simp add: same_size_def)
  ultimately show ?case using im2(2) xy by auto
qed

section \<open>Drawing an image on another\<close>

lemma set_raster: "set (raster w h) = {0..<w} \<times> {0..<h}"
  by (auto simp: raster_def)

lemma distinct_raster: "distinct (raster w h)"
  by (induction h) (auto simp: raster_def distinct_map inj_on_def)

text \<open>
  An image that fits is drawn without a fault: the pixels of the canvas under it are blended with it, the
  others stay.
\<close>

lemma draw_total:
  assumes "image_ok canvas" and "image_ok fg" and "sx + im_width fg \<le> im_width canvas" and "sy + im_height fg \<le> im_height canvas"
  shows "\<exists>im. drawOnBackground canvas sx sy fg = Inr im \<and> image_ok im \<and> same_size im canvas
    \<and> (\<forall>x<im_width fg. \<forall>y<im_height fg. px im (sx + x) (sy + y) = blend (px canvas (sx + x) (sy + y)) (px fg x y))
    \<and> (\<forall>a<im_width canvas. \<forall>b. (a < sx \<or> sx + im_width fg \<le> a \<or> b < sy \<or> sy + im_height fg \<le> b) \<longrightarrow> px im a b = px canvas a b)"
proof -
  let ?ks = "raster (im_width fg) (im_height fg)"
  define pos where "pos k = (sx + fst k, sy + snd k)" for k :: "nat \<times> nat"
  define g where "g k p = blend p (px fg (fst k) (snd k))" for k :: "nat \<times> nat" and p
  have "draw_pixel sx sy fg k im = edit (pos k) (g k) im" if "k \<in> set ?ks" for k im
    using that assms(2) by (auto simp: draw_pixel_def edit_def pos_def g_def set_raster get_pixel_ok)
  then have eq: "drawOnBackground canvas sx sy fg = rfold (\<lambda>k. edit (pos k) (g k)) ?ks canvas"
    unfolding drawOnBackground_def by (intro rfold_cong) auto
  have inj: "inj_on pos (set ?ks)" by (auto simp: inj_on_def pos_def)
  have bounds: "\<forall>k\<in>set ?ks. fst (pos k) < im_width canvas \<and> snd (pos k) < im_height canvas"
    using assms(3,4) by (auto simp: pos_def set_raster)
  obtain im where im: "drawOnBackground canvas sx sy fg = Inr im" "image_ok im" "same_size im canvas"
      "\<forall>k\<in>set ?ks. px im (fst (pos k)) (snd (pos k)) = g k (px canvas (fst (pos k)) (snd (pos k)))"
      "\<forall>a<im_width canvas. \<forall>b. (a, b) \<notin> pos ` set ?ks \<longrightarrow> px im a b = px canvas a b"
    using edits_total [OF assms(1) distinct_raster inj bounds, of g] unfolding eq by (elim exE conjE)
  have "px im (sx + x) (sy + y) = blend (px canvas (sx + x) (sy + y)) (px fg x y)" if "x < im_width fg" "y < im_height fg" for x y
    using im(4) [rule_format, of "(x, y)"] that by (simp add: pos_def g_def set_raster)
  moreover have "px im a b = px canvas a b"
    if "a < im_width canvas" "a < sx \<or> sx + im_width fg \<le> a \<or> b < sy \<or> sy + im_height fg \<le> b" for a b
  proof -
    have "(a, b) \<notin> pos ` set ?ks" using that(2) by (auto simp: pos_def set_raster)
    with im(5) that(1) show ?thesis by blast
  qed
  ultimately show ?thesis using im(1-3) by blast
qed

section \<open>Text\<close>

lemma rfold_map: "rfold f (map h xs) s = rfold (\<lambda>x. f (h x)) xs s"
  by (induction xs arbitrary: s) (auto intro: rbind_cong)

lemma rfold_nested:
  "rfold (\<lambda>z. rfold (f z) (xs z)) zs s = rfold (\<lambda>(z, x). f z x) (concat (map (\<lambda>z. map (Pair z) (xs z)) zs)) s"
  by (induction zs arbitrary: s) (auto simp: rfold_append rfold_map intro: rbind_cong)

lemma distinct_pairs: "distinct zs \<Longrightarrow> (\<And>z. distinct (xs z)) \<Longrightarrow> distinct (concat (map (\<lambda>z. map (Pair z) (xs z)) zs))"
  by (induction zs) (auto simp: distinct_map inj_on_def)

lemma le_foldr_max: "x \<in> set xs \<Longrightarrow> x \<le> foldr max xs (0 :: nat)"
  by (induction xs) auto

lemma foldr_max_le: "\<forall>x\<in>set xs. x \<le> b \<Longrightarrow> foldr max xs (0 :: nat) \<le> b"
  by (induction xs) auto

text \<open>The image of a text shows its lines, padded with empty pixels of its style.\<close>

lemma Text_total:
  assumes "reflow w s = Some c" and "split_lines [] c = ls" and "ls \<noteq> []"
  shows "\<exists>im. Text_render w st s = Inr im \<and> image_ok im \<and> im_width im = foldr max (map length ls) 0 \<and> im_height im = length ls
    \<and> (\<forall>y<length ls. \<forall>x<im_width im. px im x y = \<lparr>px_c = (if x < length (ls ! y) then ls ! y ! x else NUL), px_style = st\<rparr>)"
proof -
  let ?W = "foldr max (map length ls) 0"
  let ?im0 = "Image_create ?W (length ls) \<lparr>px_c = NUL, px_style = st\<rparr>"
  define ks where "ks = concat (map (\<lambda>z. map (Pair z) [0..<length (snd z)]) (enumerate 0 ls))"
  define pos :: "(nat \<times> string) \<times> nat \<Rightarrow> nat \<times> nat" where "pos k = (snd k, fst (fst k))" for k
  define g where "g k p = p\<lparr>px_c := snd (fst k) ! snd k\<rparr>" for k :: "(nat \<times> string) \<times> nat" and p :: pixel
  have mem: "k \<in> set ks \<longleftrightarrow> fst (fst k) < length ls \<and> snd (fst k) = ls ! fst (fst k) \<and> snd k < length (snd (fst k))" for k
  proof -
    have "k \<in> set ks \<longleftrightarrow> fst k \<in> set (enumerate 0 ls) \<and> snd k < length (snd (fst k))" by (cases k) (force simp: ks_def)
    then show ?thesis by (auto simp: in_set_enumerate_eq)
  qed
  have "Text_render w st s = rfold write_line (enumerate 0 ls) ?im0"
    using assms by (simp add: Text_render_def)
  also have "\<dots> = rfold (\<lambda>z. rfold (\<lambda>x. edit (pos (z, x)) (g (z, x))) [0..<length (snd z)]) (enumerate 0 ls) ?im0"
    by (simp add: write_line_def [abs_def] set_char_def [abs_def] edit_def [abs_def] pos_def g_def)
  also have "\<dots> = rfold (\<lambda>k. edit (pos k) (g k)) ks ?im0"
    unfolding rfold_nested ks_def by (intro rfold_cong) auto
  finally have eq: "Text_render w st s = rfold (\<lambda>k. edit (pos k) (g k)) ks ?im0" .
  have d: "distinct ks" unfolding ks_def by (rule distinct_pairs) simp_all
  have inj: "inj_on pos (set ks)" by (auto simp: inj_on_def pos_def mem)
  have bounds: "\<forall>k\<in>set ks. fst (pos k) < im_width ?im0 \<and> snd (pos k) < im_height ?im0"
  proof
    fix k assume "k \<in> set ks"
    then have "snd k < length (ls ! fst (fst k))" "length (ls ! fst (fst k)) \<le> ?W" "fst (fst k) < length ls"
      by (auto simp: mem intro: le_foldr_max)
    then show "fst (pos k) < im_width ?im0 \<and> snd (pos k) < im_height ?im0" by (simp add: pos_def)
  qed
  obtain im where im: "Text_render w st s = Inr im" "image_ok im" "same_size im ?im0"
      "\<forall>k\<in>set ks. px im (fst (pos k)) (snd (pos k)) = g k (px ?im0 (fst (pos k)) (snd (pos k)))"
      "\<forall>a<im_width ?im0. \<forall>b. (a, b) \<notin> pos ` set ks \<longrightarrow> px im a b = px ?im0 a b"
    using edits_total [OF image_ok_create d inj bounds, of g] unfolding eq by (elim exE conjE)
  have "px im x y = \<lparr>px_c = (if x < length (ls ! y) then ls ! y ! x else NUL), px_style = st\<rparr>" if "y < length ls" "x < ?W" for x y
  proof (cases "x < length (ls ! y)")
    case True
    with that have "((y, ls ! y), x) \<in> set ks" by (simp add: mem)
    from im(4) [rule_format, OF this] that True show ?thesis by (simp add: pos_def g_def)
  next
    case False
    then have "(x, y) \<notin> pos ` set ks" by (auto simp: pos_def mem)
    with im(5) that False show ?thesis by simp
  qed
  then show ?thesis using im(1-3) by (simp add: same_size_def)
qed

section \<open>What an image shows\<close>

definition shown :: "pixel \<Rightarrow> char" where
  "shown p = (if px_c p = NUL then CHR '' '' else px_c p)"

definition row :: "image \<Rightarrow> nat \<Rightarrow> string" where
  "row im y = map (\<lambda>x. shown (px im x y)) [0..<im_width im]"

definition screen :: "image \<Rightarrow> string list" where
  "screen im = map (row im) [0..<im_height im]"

definition pad :: "nat \<Rightarrow> string \<Rightarrow> string" where
  "pad w s = s @ replicate (w - length s) CHR '' ''"

lemma pad_nth: "length s \<le> w \<Longrightarrow> x < w \<Longrightarrow> pad w s ! x = (if x < length s then s ! x else CHR '' '')"
  by (simp add: pad_def nth_append)

lemma length_pad: "length s \<le> w \<Longrightarrow> length (pad w s) = w"
  by (simp add: pad_def)

lemma length_row [simp]: "length (row im y) = im_width im"
  by (simp add: row_def)

lemma pad_pad: "length s \<le> v \<Longrightarrow> v \<le> w \<Longrightarrow> pad w (pad v s) = pad w s"
  by (simp add: pad_def flip: replicate_add)

lemma Text_screen:
  assumes "reflow w s = Some c" and "split_lines [] c = ls" and "ls \<noteq> []" and "\<forall>l\<in>set ls. NUL \<notin> set l"
  shows "\<exists>im. Text_render w st s = Inr im \<and> image_ok im \<and> im_width im = foldr max (map length ls) 0
    \<and> screen im = map (pad (im_width im)) ls"
proof -
  obtain im where im: "Text_render w st s = Inr im" "image_ok im" "im_width im = foldr max (map length ls) 0" "im_height im = length ls"
      "\<forall>y<length ls. \<forall>x<im_width im. px im x y = \<lparr>px_c = (if x < length (ls ! y) then ls ! y ! x else NUL), px_style = st\<rparr>"
    using Text_total [OF assms(1-3), of st] by (elim exE conjE)
  have "row im y = pad (im_width im) (ls ! y)" if "y < length ls" for y
  proof (rule nth_equalityI)
    have l: "length (ls ! y) \<le> im_width im" using that im(3) by (auto intro: le_foldr_max)
    then show "length (row im y) = length (pad (im_width im) (ls ! y))" by (simp add: length_pad)
    fix x assume "x < length (row im y)"
    moreover have "ls ! y ! x \<noteq> NUL" if "x < length (ls ! y)" for x using assms(4) \<open>y < length ls\<close> that by (metis nth_mem)
    ultimately show "row im y ! x = pad (im_width im) (ls ! y) ! x"
      using im(5) that l by (simp add: row_def shown_def pad_nth)
  qed
  then have "screen im = map (pad (im_width im)) ls" using im(4) by (auto simp: screen_def intro: nth_equalityI)
  with im show ?thesis by blast
qed

section \<open>Stacks\<close>

abbreviation stack_step :: "image \<Rightarrow> image \<times> nat \<Rightarrow> render_fault + image \<times> nat" where
  "stack_step \<equiv> (\<lambda>image (canvas, y). rbind (drawOnBackground canvas 0 y image) (\<lambda>canvas. Inr (canvas, y + im_height image)))"

text \<open>Nothing has been drawn from column \<open>x\<close> and row \<open>y\<close> on.\<close>

definition blank_from :: "nat \<Rightarrow> nat \<Rightarrow> image \<Rightarrow> bool" where
  "blank_from x y im \<longleftrightarrow> (\<forall>a b. x \<le> a \<and> a < im_width im \<and> y \<le> b \<and> b < im_height im \<longrightarrow> px_c (px im a b) = NUL)"

lemma blank_from_create: "blank_from x y (Image_create w h blank)"
  by (simp add: blank_from_def)

lemma shown_blend: "px_c p = NUL \<Longrightarrow> shown (blend p q) = shown q"
  by (simp add: shown_def blend_def)

text \<open>An image drawn at the left of an empty part of the canvas.\<close>

lemma draw_rows:
  assumes "image_ok canvas" and "image_ok i" and "im_width i \<le> im_width canvas" and "y + im_height i \<le> im_height canvas"
    and "blank_from 0 y canvas"
  shows "\<exists>im. drawOnBackground canvas 0 y i = Inr im \<and> image_ok im \<and> same_size im canvas \<and> blank_from 0 (y + im_height i) im
    \<and> (\<forall>b<y. row im b = row canvas b) \<and> (\<forall>j<im_height i. row im (y + j) = pad (im_width canvas) (row i j))"
proof -
  obtain im where im: "drawOnBackground canvas 0 y i = Inr im" "image_ok im" "same_size im canvas"
      "\<forall>x<im_width i. \<forall>j<im_height i. px im (0 + x) (y + j) = blend (px canvas (0 + x) (y + j)) (px i x j)"
      "\<forall>a<im_width canvas. \<forall>b. (a < 0 \<or> 0 + im_width i \<le> a \<or> b < y \<or> y + im_height i \<le> b) \<longrightarrow> px im a b = px canvas a b"
    using draw_total [OF assms(1,2), of 0 y] assms(3,4) by (elim meta_impE exE conjE) auto
  have size: "im_width im = im_width canvas" "im_height im = im_height canvas" using im(3) by (simp_all add: same_size_def)
  have nul: "px_c (px canvas a b) = NUL" if "a < im_width canvas" "y \<le> b" "b < im_height canvas" for a b
    using assms(5) that by (simp add: blank_from_def)
  have "row im (y + j) = pad (im_width canvas) (row i j)" if "j < im_height i" for j
  proof (rule nth_equalityI)
    show "length (row im (y + j)) = length (pad (im_width canvas) (row i j))" using assms(3) size by (simp add: length_pad)
    fix x assume "x < length (row im (y + j))"
    then have x: "x < im_width canvas" using size by simp
    then have "shown (px im x (y + j)) = (if x < im_width i then shown (px i x j) else CHR '' '')"
      using im(4,5) that assms(4) nul [of x "y + j"] by (auto simp: shown_blend) (simp add: shown_def)
    then show "row im (y + j) ! x = pad (im_width canvas) (row i j) ! x"
      using x size assms(3) by (simp add: pad_nth) (simp add: row_def)
  qed
  moreover have "row im b = row canvas b" if "b < y" for b using im(5) that size by (simp add: row_def)
  moreover have "blank_from 0 (y + im_height i) im" using im(5) size nul by (simp add: blank_from_def)
  ultimately show ?thesis using im(1-3) by blast
qed

lemma stack_loop:
  assumes "\<forall>i\<in>set ims. image_ok i \<and> im_width i \<le> im_width canvas" and "image_ok canvas"
    and "y + sum_list (map im_height ims) \<le> im_height canvas" and "blank_from 0 y canvas"
  shows "\<exists>im. rfold stack_step ims (canvas, y) = Inr (im, y + sum_list (map im_height ims)) \<and> image_ok im \<and> same_size im canvas
    \<and> (\<forall>b<y. row im b = row canvas b)
    \<and> map (row im) [y..<y + sum_list (map im_height ims)] = concat (map (\<lambda>i. map (pad (im_width canvas)) (screen i)) ims)"
  using assms
proof (induction ims arbitrary: canvas y)
  case Nil
  then show ?case by (simp add: same_size_def)
next
  case (Cons i ims)
  let ?h = "im_height i" and ?s = "sum_list (map im_height ims)"
  obtain c1 where c1: "drawOnBackground canvas 0 y i = Inr c1" "image_ok c1" "same_size c1 canvas" "blank_from 0 (y + ?h) c1"
      "\<forall>b<y. row c1 b = row canvas b" "\<forall>j<?h. row c1 (y + j) = pad (im_width canvas) (row i j)"
    using draw_rows [of canvas i y] Cons.prems by auto
  have size: "im_width c1 = im_width canvas" "im_height c1 = im_height canvas" using c1(3) by (simp_all add: same_size_def)
  obtain im where im: "rfold stack_step ims (c1, y + ?h) = Inr (im, y + ?h + ?s)" "image_ok im" "same_size im c1"
      "\<forall>b<y + ?h. row im b = row c1 b"
      "map (row im) [y + ?h..<y + ?h + ?s] = concat (map (\<lambda>i. map (pad (im_width c1)) (screen i)) ims)"
    using Cons.IH [of c1 "y + ?h"] Cons.prems c1 size by auto
  have "map (row im) [y..<y + ?h] = map (\<lambda>j. row im (y + j)) [0..<?h]"
    by (rule nth_equalityI) simp_all
  also have "\<dots> = map (pad (im_width canvas)) (screen i)" using im(4) c1(6) by (simp add: screen_def)
  finally have rows: "map (row im) ([y..<y + ?h] @ [y + ?h..<y + ?h + ?s])
      = map (pad (im_width canvas)) (screen i) @ concat (map (\<lambda>i. map (pad (im_width canvas)) (screen i)) ims)"
    using im(5) size by simp
  have "[y..<y + ?h] @ [y + ?h..<y + ?h + ?s] = [y..<y + (?h + ?s)]"
    using upt_add_eq_append [of y "y + ?h" ?s] by (simp add: add.assoc)
  note rows [unfolded this]
  moreover have "same_size im canvas" "\<forall>b<y. row im b = row canvas b" using im(3,4) c1(3,5) by (simp_all add: same_size_def)
  ultimately show ?case using im(1,2) c1(1) by (simp add: add.assoc)
qed

lemma Stack_screen:
  assumes "ims \<noteq> []" and "\<forall>i\<in>set ims. image_ok i"
  shows "\<exists>im. Stack_render ims = Inr im \<and> image_ok im \<and> im_width im = foldr max (map im_width ims) 0
    \<and> screen im = concat (map (\<lambda>i. map (pad (im_width im)) (screen i)) ims)"
proof -
  let ?c = "Image_create (foldr max (map im_width ims) 0) (sum_list (map im_height ims)) blank"
  have w: "\<forall>i\<in>set ims. image_ok i \<and> im_width i \<le> im_width ?c" using assms(2) by (auto intro: le_foldr_max)
  have h: "0 + sum_list (map im_height ims) \<le> im_height ?c" by simp
  obtain im where im: "rfold stack_step ims (?c, 0) = Inr (im, 0 + sum_list (map im_height ims))" "image_ok im" "same_size im ?c"
      "map (row im) [0..<0 + sum_list (map im_height ims)] = concat (map (\<lambda>i. map (pad (im_width ?c)) (screen i)) ims)"
    using stack_loop [OF w image_ok_create h blank_from_create] by (elim exE conjE)
  then show ?thesis using assms(1) by (simp add: Stack_render_def screen_def same_size_def)
qed

section \<open>Flows\<close>

text \<open>The positions of a flow: every image fits the canvas, which is no wider than allowed.\<close>

lemma flow_placeE:
  assumes "flow_place maxWidth (i # ims) width x curHeight y = (ps, W, H)"
  obtains p qs x' c' y' where "flow_place maxWidth ims (max width (fst p + im_width i)) x' c' y' = (qs, W, H)" and "ps = p # qs"
    and "y + curHeight \<le> y' + c'" and "snd p + im_height i \<le> y' + c'" and "fst p = 0 \<or> fst p + im_width i \<le> maxWidth"
proof (cases "maxWidth < x + im_width i")
  case True
  then obtain qs where "flow_place maxWidth ims (max width (im_width i)) (im_width i) (im_height i) (y + curHeight) = (qs, W, H)"
      "ps = (0, y + curHeight) # qs"
    using assms by (auto simp: split_beta Let_def prod_eq_iff)
  then show thesis using that [of "(0, y + curHeight)"] by simp
next
  case False
  then obtain qs where "flow_place maxWidth ims (max width (x + im_width i)) (x + im_width i) (max curHeight (im_height i)) y = (qs, W, H)"
      "ps = (x, y) # qs"
    using assms by (auto simp: split_beta Let_def prod_eq_iff)
  then show thesis using that [of "(x, y)"] False by simp
qed

lemma flow_place_fits:
  assumes "flow_place maxWidth ims width x curHeight y = (ps, W, H)"
  shows "length ps = length ims \<and> width \<le> W \<and> y + curHeight \<le> H
    \<and> (\<forall>(i, p)\<in>set (zip ims ps). fst p + im_width i \<le> W \<and> snd p + im_height i \<le> H)"
  using assms
proof (induction ims arbitrary: width x curHeight y ps)
  case (Cons i ims)
  from Cons.prems show ?case
  proof (rule flow_placeE)
    fix p qs x' c' y'
    assume "flow_place maxWidth ims (max width (fst p + im_width i)) x' c' y' = (qs, W, H)" and p: "ps = p # qs"
      "y + curHeight \<le> y' + c'" "snd p + im_height i \<le> y' + c'"
    from Cons.IH [OF this(1)] p show ?thesis by auto
  qed
qed auto

lemma flow_place_width:
  "flow_place maxWidth ims width x curHeight y = (ps, W, H) \<Longrightarrow> \<forall>i\<in>set ims. im_width i \<le> maxWidth \<Longrightarrow> width \<le> maxWidth
    \<Longrightarrow> W \<le> maxWidth"
proof (induction ims arbitrary: width x curHeight y ps)
  case (Cons i ims)
  from Cons.prems(1) show ?case
  proof (rule flow_placeE)
    fix p qs x' c' y'
    assume "flow_place maxWidth ims (max width (fst p + im_width i)) x' c' y' = (qs, W, H)"
      and "fst p = 0 \<or> fst p + im_width i \<le> maxWidth"
    with Cons.IH [OF this(1)] Cons.prems(2,3) show ?thesis by auto
  qed
qed auto

lemma Flow_total:
  assumes "\<forall>i\<in>set ims. image_ok i \<and> im_width i \<le> w"
  shows "\<exists>im. Flow_render w ims = Inr im \<and> image_ok im \<and> im_width im \<le> w"
proof -
  obtain ps W H where ps: "flow_place w ims 0 0 0 0 = (ps, W, H)" by (cases "flow_place w ims 0 0 0 0") auto
  let ?P = "\<lambda>im. image_ok im \<and> im_width im = W \<and> im_height im = H"
  have "\<exists>t. (\<lambda>(image, p) canvas. drawOnBackground canvas (fst p) (snd p) image) z c = Inr t \<and> ?P t"
    if "z \<in> set (zip ims ps)" "?P c" for z c
  proof -
    obtain i p where z: "z = (i, p)" by (cases z)
    then have "image_ok i" "fst p + im_width i \<le> W" "snd p + im_height i \<le> H"
      using flow_place_fits [OF ps] that(1) assms set_zip_leftD by fastforce+
    then show ?thesis using draw_total [of c i "fst p" "snd p"] that(2) z by (auto simp: same_size_def)
  qed
  then have "\<exists>im. rfold (\<lambda>(image, p) canvas. drawOnBackground canvas (fst p) (snd p) image) (zip ims ps) (Image_create W H blank) = Inr im \<and> ?P im"
    by (intro rfold_total) simp_all
  moreover have "W \<le> w" using flow_place_width [OF ps] assms by simp
  ultimately show ?thesis by (auto simp: Flow_render_def ps)
qed

section \<open>Pages\<close>

text \<open>
  The components that can be drawn in a width: texts are not empty and either fit or have no newline
  but the last character, stacks are not empty, and a progress bar is narrower than \<open>2^24\<close>.
\<close>

fun drawable :: "nat \<Rightarrow> component \<Rightarrow> bool" where
  "drawable w (Text st s) \<longleftrightarrow> 0 < w \<and> s \<noteq> [] \<and> (length s \<le> w \<or> newline \<notin> set (butlast s))"
| "drawable w (Stack cs) \<longleftrightarrow> cs \<noteq> [] \<and> (\<forall>c\<in>set cs. drawable w c)"
| "drawable w (Flow cs) \<longleftrightarrow> (\<forall>c\<in>set cs. drawable w c)"
| "drawable w (Progress p bg fg) \<longleftrightarrow> w \<le> 2 ^ 24"
| "drawable w (MaxWidth n c) \<longleftrightarrow> drawable (min w n) c"

lemma split_lines_empty: "split_lines acc s = [] \<longleftrightarrow> acc = [] \<and> s = []"
  by (induction acc s rule: split_lines.induct) auto

lemma reflow_lines:
  assumes "drawable w (Text st s)"
  shows "\<exists>c. reflow w s = Some c \<and> split_lines [] c \<noteq> [] \<and> (\<forall>l\<in>set (split_lines [] c). length l \<le> w)"
proof (cases "length s \<le> w")
  case True
  have "length l \<le> w" if "l \<in> set (split_lines [] s)" for l using split_lines_le [OF that] True by simp
  then show ?thesis using True assms by (simp add: reflow_def split_lines_empty)
next
  case False
  with assms have s: "0 < w" "newline \<notin> set (butlast s)" "butlast s \<noteq> []" by (auto simp: butlast_conv_take)
  obtain c where c: "reflow w s = Some c" "\<forall>l\<in>set (split_lines [] c). length l \<le> w" "visible c = visible s"
    using reflow_lemma [OF s(1,2)] by blast
  obtain a where "a \<in> set (butlast s)" using s(3) last_in_set by blast
  then have "a \<in> set (visible s)" using s(2) by (auto dest: in_set_butlastD)
  then have "visible s \<noteq> []" by (metis empty_iff empty_set)
  then have "c \<noteq> []" using c(3) by auto
  then show ?thesis using c by (simp add: split_lines_empty)
qed

lemma Progress_total:
  assumes "w \<le> 2 ^ 24"
  shows "\<exists>im. Progress_render w p bg fg = Inr im \<and> image_ok im \<and> im_width im \<le> w"
proof -
  have e: "rnd32 (of_nat w) = of_nat w" using f32.small_int [of "int w"] assms by simp
  have c: "0 \<le> clamp01 p" "clamp01 p \<le> 1" by (cases p; simp)+
  then have "of_nat w * clamp01 p \<le> of_nat w" by (simp add: mult_left_le)
  then have "rnd32 (of_nat w * clamp01 p) \<le> of_nat w" using e by (rule f32.fl_le [rotated])
  then have "nat \<lfloor>rnd32 (of_nat w * clamp01 p)\<rfloor> \<le> w" by linarith
  then show ?thesis
    using draw_total [of "Image_create w 1 bg" "Image_create (nat \<lfloor>rnd32 (of_nat w * clamp01 p)\<rfloor>) 1 fg" 0 0]
    by (auto simp: Progress_render_def e same_size_def)
qed

lemma render_drawable:
  "drawable w c \<Longrightarrow> \<exists>im. render w c = Inr im \<and> image_ok im \<and> im_width im \<le> w"
  "(\<forall>c\<in>set cs. drawable w c) \<Longrightarrow> \<exists>ims. render_all w cs = Inr ims \<and> length ims = length cs \<and> (\<forall>i\<in>set ims. image_ok i \<and> im_width i \<le> w)"
proof (induction w c and w cs rule: render_render_all.induct)
  case (1 w st s)
  then obtain c where c: "reflow w s = Some c" "split_lines [] c \<noteq> []" "\<forall>l\<in>set (split_lines [] c). length l \<le> w"
    using reflow_lines by blast
  then have "foldr max (map length (split_lines [] c)) 0 \<le> w" by (intro foldr_max_le) auto
  with Text_total [OF c(1) refl c(2), of st] show ?case by auto
next
  case (2 w cs)
  then obtain ims where ims: "render_all w cs = Inr ims" "length ims = length cs" "\<forall>i\<in>set ims. image_ok i \<and> im_width i \<le> w" by auto
  have "ims \<noteq> []" using 2 ims(2) by auto
  moreover have "foldr max (map im_width ims) 0 \<le> w" using ims(3) by (intro foldr_max_le) auto
  ultimately show ?case using Stack_screen [of ims] ims by auto
next
  case (3 w cs)
  then obtain ims where ims: "render_all w cs = Inr ims" "\<forall>i\<in>set ims. image_ok i \<and> im_width i \<le> w" by auto
  then show ?case using Flow_total [OF ims(2)] by auto
next
  case (4 w p bg fg)
  then show ?case using Progress_total [of w p bg fg] by simp
next
  case (5 w n c)
  then show ?case by fastforce
next
  case (7 w c cs)
  then show ?case by fastforce
qed simp

text \<open>
  C22. Every page of components that can be drawn in a width is rendered: no access outside an image, no empty text or stack, no
  endless line breaking, and the image is well formed and no wider than the width.
\<close>

theorem page_renders:
  assumes "drawable w c"
  shows "\<exists>im. render w c = Inr im \<and> length (im_pixels im) = im_width im * im_height im \<and> im_width im \<le> w"
  using render_drawable(1) [OF assms] by (simp add: image_ok_def)

text \<open>The lines of a text in a width.\<close>

definition lines_of :: "nat \<Rightarrow> string \<Rightarrow> string list" where
  "lines_of w s = split_lines [] (the (reflow w s))"

definition widest :: "string list \<Rightarrow> nat" where
  "widest ls = foldr max (map length ls) 0"

lemma split_lines_chars: "c \<in> set l \<Longrightarrow> l \<in> set (split_lines acc s) \<Longrightarrow> c \<in> set acc \<union> set s"
  by (induction acc s rule: split_lines.induct) (auto split: if_splits)

lemma lines_no_NUL:
  assumes "drawable w (Text st s)" and "NUL \<notin> set s" and "l \<in> set (lines_of w s)"
  shows "NUL \<notin> set l"
proof
  assume "NUL \<in> set l"
  then have c: "NUL \<in> set (the (reflow w s))" using split_lines_chars [of NUL l "[]"] assms(3) by (simp add: lines_of_def)
  show False
  proof (cases "length s \<le> w")
    case True
    then show False using c assms(1,2) by (simp add: reflow_def)
  next
    case False
    then obtain d where "reflow w s = Some d" "visible d = visible s" using reflow_lemma [of w s] assms(1) by auto
    moreover have "NUL \<noteq> newline" by (simp add: NUL_def newline_def)
    ultimately have "NUL \<in> set (visible s)" using c by (metis (mono_tags, lifting) mem_Collect_eq option.sel set_filter)
    then show False using assms(2) by simp
  qed
qed

lemma render_texts:
  assumes "\<forall>s\<in>set ss. drawable w (Text st s) \<and> NUL \<notin> set s"
  shows "\<exists>ims. render_all w (map (Text st) ss) = Inr ims \<and> (\<forall>i\<in>set ims. image_ok i)
    \<and> map im_width ims = map (\<lambda>s. widest (lines_of w s)) ss
    \<and> map screen ims = map (\<lambda>s. map (pad (widest (lines_of w s))) (lines_of w s)) ss"
  using assms
proof (induction ss)
  case (Cons s ss)
  then obtain c where c: "reflow w s = Some c" "split_lines [] c = lines_of w s" "lines_of w s \<noteq> []"
    using reflow_lines [of w st s] by (auto simp: lines_of_def)
  moreover have "\<forall>l\<in>set (lines_of w s). NUL \<notin> set l" using lines_no_NUL [of w st s] Cons.prems by auto
  ultimately obtain im where "Text_render w st s = Inr im" "image_ok im" "im_width im = widest (lines_of w s)"
      "screen im = map (pad (im_width im)) (lines_of w s)"
    using Text_screen [of w s c "lines_of w s" st] by (auto simp: widest_def)
  then show ?case using Cons by auto
qed simp

lemma le_widest: "l \<in> set ls \<Longrightarrow> length l \<le> widest ls"
  by (simp add: widest_def le_foldr_max)

lemma widest_append: "widest (ls @ ms) = max (widest ls) (widest ms)"
  by (induction ls) (auto simp: widest_def)

lemma widest_concat: "foldr max (map (\<lambda>s. widest (f s)) ss) 0 = widest (concat (map f ss))"
  by (induction ss) (simp_all add: widest_append, simp add: widest_def)

text \<open>
  C20. A stack of texts shows exactly their lines, one below the other in order, each padded with spaces to the
  widest of them: line breaking, the loops over pixels and the blending of images together.
\<close>

theorem stack_shows_lines:
  assumes "ss \<noteq> []" and "\<forall>s\<in>set ss. drawable w (Text st s) \<and> NUL \<notin> set s"
  shows "\<exists>im. render w (Stack (map (Text st) ss)) = Inr im
    \<and> screen im = map (pad (widest (concat (map (lines_of w) ss)))) (concat (map (lines_of w) ss))"
proof -
  let ?W = "widest (concat (map (lines_of w) ss))"
  obtain ims where ims: "render_all w (map (Text st) ss) = Inr ims" "\<forall>i\<in>set ims. image_ok i"
      "map im_width ims = map (\<lambda>s. widest (lines_of w s)) ss"
      "map screen ims = map (\<lambda>s. map (pad (widest (lines_of w s))) (lines_of w s)) ss"
    using render_texts [OF assms(2)] by (elim exE conjE)
  have "ims \<noteq> []" using ims(3) assms(1) by auto
  then obtain im where im: "Stack_render ims = Inr im" "im_width im = foldr max (map im_width ims) 0"
      "screen im = concat (map (\<lambda>i. map (pad (im_width im)) (screen i)) ims)"
    using Stack_screen [of ims] ims(2) by blast
  have W: "im_width im = ?W" unfolding im(2) ims(3) by (rule widest_concat)
  have "widest (lines_of w s) \<le> ?W" if "s \<in> set ss" for s
    unfolding widest_concat [symmetric] using that by (auto intro: le_foldr_max)
  then have p: "map (pad ?W) (map (pad (widest (lines_of w s))) (lines_of w s)) = map (pad ?W) (lines_of w s)" if "s \<in> set ss" for s
    using that by (simp add: pad_pad le_widest)
  have "screen im = concat (map (map (pad ?W)) (map screen ims))" unfolding im(3) W by (simp add: comp_def)
  also have "\<dots> = concat (map (\<lambda>s. map (pad ?W) (lines_of w s)) ss)" unfolding ims(4) map_map comp_def
    using p by (intro arg_cong [where f = concat] map_cong) (simp_all add: comp_def)
  also have "\<dots> = map (pad ?W) (concat (map (lines_of w) ss))" by (simp add: map_concat comp_def)
  finally show ?thesis using ims(1) im(1) by simp
qed

theorem page_renders_witness:
  "\<exists>im. render 200 (Stack [Flow [Text Style_Default ''CPU '', MaxWidth 50 (Progress NotNumber blank blank)], Text Style_Default '' '']) = Inr im"
  using page_renders [of 200 "Stack [Flow [Text Style_Default ''CPU '', MaxWidth 50 (Progress NotNumber blank blank)], Text Style_Default '' '']"]
  by auto

theorem stack_shows_lines_witness:
  "\<exists>im. render 4 (Stack (map (Text Style_Default) [''ab'', ''cdef''])) = Inr im \<and> screen im = [''ab  '', ''cdef'']"
  using stack_shows_lines [of "[''ab'', ''cdef'']" 4 Style_Default]
  by (simp add: lines_of_def reflow_def widest_def pad_def newline_def NUL_def numeral_2_eq_2)

end
