(* ===== verification/Process_Usage.thy ===== *)
theory Process_Usage
  imports C_Strings Float_Model
begin

text \<open>
  The processor and memory usage of the process (\<^verbatim>\<open>src/debug/cpu.cpp\<close>, the branch for systems with
  \<^verbatim>\<open>/proc\<close>). The files and the clock ticks of \<^verbatim>\<open>times\<close> are arguments; a file that cannot be opened is
  \<open>None\<close>. The line buffers are not initialised, so their first contents are an argument too.
  Ticks are integers of 64 bits: they count from the start of the system and do not reach the end of their range.
\<close>

section \<open>State and operations\<close>

record cpu_state =
  lastCPU :: int
  lastSysCPU :: int
  lastUserCPU :: int
  numProcessors :: int

record tms =
  tms_now :: int
  tms_stime :: int
  tms_utime :: int

text \<open>The loop of \<^verbatim>\<open>initCPUDebugger\<close> over the lines of \<^verbatim>\<open>/proc/cpuinfo\<close>.\<close>

function count_processors :: "char list \<Rightarrow> string \<Rightarrow> int \<Rightarrow> int" where
  "count_processors buf file n =
     (case fgets 128 buf file of
        None \<Rightarrow> n
      | Some (line, rest) \<Rightarrow> count_processors line rest (if has_prefix ''processor'' line then n + 1 else n))"
  by pat_completeness auto
termination
  by (relation "measure (\<lambda>(_, file, _). length file)") (auto dest: fgets_consumes)

declare count_processors.simps [simp del]

definition initCPUDebugger :: "char list \<Rightarrow> tms \<Rightarrow> string option \<Rightarrow> string_fault + cpu_state" where
  "initCPUDebugger junk t cpuinfo =
     (case cpuinfo of
        None \<Rightarrow> Inl NullFile
      | Some file \<Rightarrow> Inr \<lparr>lastCPU = tms_now t, lastSysCPU = tms_stime t, lastUserCPU = tms_utime t,
          numProcessors = count_processors junk file 0\<rparr>)"

text \<open>
  \<^verbatim>\<open>parseLine\<close>: from the first digit to the terminator put three bytes before the old one. The search for a digit
  does not stop at the terminator, so it can leave the buffer.
\<close>

definition parseLine :: "char list \<Rightarrow> string_fault + int" where
  "parseLine line =
     (let i = strlen line; p = length (takeWhile (\<lambda>c. \<not> is_digit c) line)
      in if p = length line \<or> i < 3 then Inl OutOfBuffer else atoi (drop p (line[i - 3 := NUL])))"

function ram_loop :: "char list \<Rightarrow> string \<Rightarrow> string_fault + int" where
  "ram_loop buf file =
     (case fgets 128 buf file of
        None \<Rightarrow> Inr (- 1)
      | Some (line, rest) \<Rightarrow> if has_prefix ''VmRSS:'' line then parseLine line else ram_loop line rest)"
  by pat_completeness auto
termination
  by (relation "measure (\<lambda>(_, file). length file)") (auto dest: fgets_consumes)

declare ram_loop.simps [simp del]

definition getCurrentRAMUsage :: "char list \<Rightarrow> string option \<Rightarrow> string_fault + int" where
  "getCurrentRAMUsage junk status = (case status of None \<Rightarrow> Inl NullFile | Some file \<Rightarrow> ram_loop junk file)"

text \<open>
  The usage since the last call, in percent of all processors; \<open>None\<close> when no processor was counted,
  since the quotient is then no finite number.
\<close>

definition getCurrentCPUUsage :: "tms \<Rightarrow> cpu_state \<Rightarrow> rat option \<times> cpu_state" where
  "getCurrentCPUUsage t st =
     (let percent =
            (if tms_now t \<le> lastCPU st \<or> tms_stime t < lastSysCPU st \<or> tms_utime t < lastUserCPU st then Some (- 1)
             else if numProcessors st = 0 then None
             else let used = rnd64 (of_int ((tms_stime t - lastSysCPU st) + (tms_utime t - lastUserCPU st)));
                      p1 = rnd64 (used / rnd64 (of_int (tms_now t - lastCPU st)));
                      p2 = rnd64 (p1 / of_int (numProcessors st))
                  in Some (rnd64 (p2 * 100)))
      in (percent, st\<lparr>lastCPU := tms_now t, lastSysCPU := tms_stime t, lastUserCPU := tms_utime t\<rparr>))"

section \<open>What they compute\<close>

text \<open>A file of short lines.\<close>

definition text_lines :: "string list \<Rightarrow> string" where
  "text_lines ls = concat (map (\<lambda>l. l @ [newline]) ls)"

definition short_line :: "string \<Rightarrow> bool" where
  "short_line l \<longleftrightarrow> length l < 127 \<and> newline \<notin> set l \<and> NUL \<notin> set l"

lemma has_prefix_line: "newline \<notin> set s \<Longrightarrow> has_prefix s (l @ newline # r) = has_prefix s l"
proof (induction s arbitrary: l)
  case (Cons c s)
  then show ?case by (cases l) (auto simp: has_prefix_def)
qed (simp add: has_prefix_def)

lemma prefix_literals [simp]:
  "has_prefix ''processor'' (l @ newline # r) = has_prefix ''processor'' l"
  "has_prefix ''VmRSS:'' (l @ newline # r) = has_prefix ''VmRSS:'' l"
  by (rule has_prefix_line, simp add: newline_def)+

text \<open>
  \<^verbatim>\<open>initCPUDebugger\<close> counts the lines that begin with \<^verbatim>\<open>processor\<close>, whatever was in the line buffer, in a file
  whose lines fit the buffer.
\<close>

theorem processors_counted:
  assumes "\<forall>l\<in>set ls. short_line l"
  shows "count_processors buf (text_lines ls) n = n + int (length (filter (has_prefix ''processor'') ls))"
  using assms
proof (induction ls arbitrary: buf n)
  case Nil
  then show ?case by (simp add: count_processors.simps text_lines_def fgets_def)
next
  case (Cons l ls)
  then have "fgets 128 buf (text_lines (l # ls)) = Some (l @ newline # NUL # drop (length l + 2) buf, text_lines ls)"
    using fgets_line [of l 128 buf "text_lines ls"] by (simp add: text_lines_def short_line_def)
  then show ?case using Cons by (simp add: count_processors.simps [of _ "text_lines (l # ls)"])
qed

lemma ram_loop_skip:
  assumes "\<forall>l\<in>set ls. short_line l \<and> \<not> has_prefix ''VmRSS:'' l"
  shows "\<exists>buf'. ram_loop buf (text_lines ls @ file) = ram_loop buf' file"
  using assms
proof (induction ls arbitrary: buf)
  case Nil
  then show ?case by (auto simp: text_lines_def)
next
  case (Cons l ls)
  then have "fgets 128 buf (text_lines (l # ls) @ file) = Some (l @ newline # NUL # drop (length l + 2) buf, text_lines ls @ file)"
    using fgets_line [of l 128 buf "text_lines ls @ file"] by (simp add: text_lines_def short_line_def)
  then have "ram_loop buf (text_lines (l # ls) @ file) = ram_loop (l @ newline # NUL # drop (length l + 2) buf) (text_lines ls @ file)"
    using Cons.prems by (simp add: ram_loop.simps [of buf "text_lines (l # ls) @ file"])
  then show ?case using Cons by simp
qed

lemma parseLine_number:
  assumes "\<forall>c\<in>set pre. \<not> is_digit c \<and> c \<noteq> NUL" and "n < 2 ^ 31"
  shows "parseLine (pre @ show_nat n @ '' kB'' @ newline # NUL # stale) = Inr (int n)"
proof -
  let ?line = "pre @ show_nat n @ '' kB'' @ newline # NUL # stale"
  have "strlen ((pre @ show_nat n @ '' kB'' @ [newline]) @ NUL # stale) = length (pre @ show_nat n @ '' kB'' @ [newline])"
    by (rule strlen_buffer) (use assms(1) show_nat_no_control(2) [of n] in \<open>auto simp: NUL_def newline_def\<close>)
  then have i: "strlen ?line = length pre + length (show_nat n) + 4" by simp
  have "takeWhile (\<lambda>c. \<not> is_digit c) ?line = pre"
    using assms(1) show_nat_digits [of n] by (cases "show_nat n") (simp_all add: takeWhile_append)
  then have p: "length (takeWhile (\<lambda>c. \<not> is_digit c) ?line) = length pre" by simp
  have "?line[length pre + length (show_nat n) + 1 := NUL] = pre @ show_nat n @ CHR '' '' # NUL # ''B'' @ newline # NUL # stale"
    by (simp add: list_update_append)
  then have "drop (length pre) (?line[strlen ?line - 3 := NUL]) = show_nat n @ CHR '' '' # NUL # ''B'' @ newline # NUL # stale"
    unfolding i by simp
  moreover have "\<not> is_digit (CHR '' '')" by (simp add: is_digit_def)
  ultimately show ?thesis
    unfolding parseLine_def Let_def p i using assms(2) by (simp add: atoi_show)
qed

text \<open>
  C26. \<^verbatim>\<open>getCurrentRAMUsage\<close> reads back the number that the system printed: after any short lines it finds the
  line \<^verbatim>\<open>VmRSS:\<close>, white space, a number that fits an \<^verbatim>\<open>int\<close> and \<^verbatim>\<open>kB\<close>, and returns the
  number, whatever the buffer held and whatever follows.
\<close>

theorem ram_usage_read:
  assumes "\<forall>l\<in>set ls. short_line l \<and> \<not> has_prefix ''VmRSS:'' l"
    and "\<forall>c\<in>set sp. is_space c \<and> c \<noteq> newline" and "length sp + length (show_nat n) < 118" and "n < 2 ^ 31"
  shows "getCurrentRAMUsage junk (Some (text_lines ls @ ''VmRSS:'' @ sp @ show_nat n @ '' kB'' @ newline # rest)) = Inr (int n)"
proof -
  define l where "l = ''VmRSS:'' @ sp @ show_nat n @ '' kB''"
  obtain buf where skip: "ram_loop junk (text_lines ls @ l @ newline # rest) = ram_loop buf (l @ newline # rest)"
    using ram_loop_skip [OF assms(1)] by blast
  define line where "line = l @ newline # NUL # drop (length l + 2) buf"
  have "newline \<notin> set l"
    using assms(2) show_nat_no_control(1) [of n] unfolding l_def by (auto simp: newline_def)
  moreover have "length l + 1 < 128" using assms(3) by (simp add: l_def)
  ultimately have "fgets 128 buf (l @ newline # rest) = Some (line, rest)" unfolding line_def by (intro fgets_line)
  moreover have "has_prefix ''VmRSS:'' line" by (simp add: has_prefix_def line_def l_def)
  moreover have "parseLine ((''VmRSS:'' @ sp) @ show_nat n @ '' kB'' @ newline # NUL # drop (length l + 2) buf) = Inr (int n)"
    by (rule parseLine_number) (use assms(2,4) in \<open>auto simp: is_digit_def is_space_def NUL_def\<close>)
  then have "parseLine line = Inr (int n)" by (simp only: line_def l_def append_assoc)
  ultimately have "ram_loop buf (l @ newline # rest) = Inr (int n)"
    by (simp add: ram_loop.simps [of buf "l @ newline # rest"])
  with skip show ?thesis by (simp only: getCurrentRAMUsage_def option.case l_def append_assoc)
qed


section \<open>Witnesses\<close>

theorem processors_counted_witness:
  "count_processors [] (text_lines [''processor : 0'', ''flags : fpu'', ''processor : 1'']) 0 = 2"
  by (subst processors_counted) (simp_all add: short_line_def newline_def NUL_def has_prefix_def)

theorem ram_usage_read_witness:
  "getCurrentRAMUsage (replicate 128 CHR ''x'') (Some (text_lines [''VmSize: 9 kB''] @ ''VmRSS:'' @ ''  '' @ show_nat 1234 @ '' kB'' @ newline # [])) = Inr 1234"
  using ram_usage_read [of "[''VmSize: 9 kB'']" "''  ''" 1234 "replicate 128 CHR ''x''" "[]"]
  by (simp add: short_line_def has_prefix_def is_space_def newline_def NUL_def show_nat.simps)


end
