(* ===== verification/Status_Page.thy ===== *)
theory Status_Page
  imports Sessions Layout Process_Usage
begin

unbundle bit_operations_syntax

text \<open>
  The page of the monitor (\<^verbatim>\<open>Reactive::update_impl\<close> in \<^verbatim>\<open>debug/reactive.cpp\<close>): it reads the counters, the log, the
  clients and the stalled cells, composes the components of the terminal library and sends the image to the
  terminal. The model composes the theories of the server, of the process usage and of the terminal.
\<close>

section \<open>State and surroundings\<close>

text \<open>
  The static variables: the samples of \<^verbatim>\<open>cpu.cpp\<close>, \<^verbatim>\<open>Reactive::_cpuUsage\<close> and the last page of \<^verbatim>\<open>_vt\<close>.
\<close>

record monitor =
  mn_cpu :: cpu_state
  mn_cpuUsage :: rat
  mn_vt :: string

text \<open>
  What a call meets: the clock ticks and \<^verbatim>\<open>/proc/self/status\<close>, the contents of an uninitialised line buffer, the
  height of the terminal, the clients that the pure virtual \<^verbatim>\<open>iterateClients\<close> visits, and the order
  in which the map of packet counts is visited.
\<close>

record page_env =
  pe_times :: tms
  pe_status :: "string option"
  pe_junk :: "char list"
  pe_rows :: nat
  pe_clients :: "addr list"
  pe_opcodes :: "uint16 list"

datatype page_fault = StringFault string_fault | WorldFault fault | RenderFault render_fault | LengthError | NotFinite

definition lift_fault :: "('e \<Rightarrow> page_fault) \<Rightarrow> 'e + 'a \<Rightarrow> page_fault + 'a" where
  "lift_fault f r = (case r of Inl e \<Rightarrow> Inl (f e) | Inr x \<Rightarrow> Inr x)"

definition LOG_CLIENT_LIFECYCLE :: uint32 where "LOG_CLIENT_LIFECYCLE = 0x10"

section \<open>Numbers on the page\<close>

text \<open>A number right-aligned in four columns; \<^verbatim>\<open>std::string(4 - n, ' ')\<close> throws when \<open>n\<close> is greater.\<close>

definition align4 :: "string \<Rightarrow> page_fault + string" where
  "align4 num = (if length num \<le> 4 then Inr (replicate (4 - length num) CHR '' '' @ num) else Inl LengthError)"

text \<open>The quotient of two integers as a \<^verbatim>\<open>float\<close>, and \<^verbatim>\<open>std::min(1.0f, x)\<close>.\<close>

definition float_quotient :: "int \<Rightarrow> int \<Rightarrow> fnum" where
  "float_quotient a b =
     (if b \<noteq> 0 then Fin (rnd32 (rnd32 (of_int a) / rnd32 (of_int b)))
      else if a = 0 then NotNumber else if 0 < a then PosInf else NegInf)"

fun min_one :: "fnum \<Rightarrow> fnum" where
  "min_one (Fin x) = Fin (min 1 x)"
| "min_one NegInf = NegInf"
| "min_one PosInf = Fin 1"
| "min_one NotNumber = Fin 1"

definition progress :: "int \<Rightarrow> int \<Rightarrow> int \<Rightarrow> fnum" where
  "progress heartBeat diff prevSleep =
     (if heartBeat < diff then min_one (float_quotient (diff - prevSleep) heartBeat)
      else float_quotient (heartBeat - prevSleep) heartBeat)"

definition alpha :: rat where
  "alpha = rnd32 (1 / 10)"

text \<open>The moving average: in \<^verbatim>\<open>double\<close>, stored in a \<^verbatim>\<open>float\<close>.\<close>

definition smooth :: "rat \<Rightarrow> rat \<Rightarrow> rat" where
  "smooth usage old = rnd32 (rnd64 (rnd64 (alpha * usage) + rnd64 (rnd64 (1 - alpha) * old)))"

text \<open>Conversion to an integer and division, both towards zero.\<close>

definition trunc :: "rat \<Rightarrow> int" where
  "trunc x = (if x < 0 then \<lceil>x\<rceil> else \<lfloor>x\<rfloor>)"

definition tdiv :: "int \<Rightarrow> int \<Rightarrow> int" where
  "tdiv a b = (if a < 0 then - (- a div b) else a div b)"

definition hex_digit :: "nat \<Rightarrow> char" where
  "hex_digit d = (if d < 10 then digit d else char_of (87 + d))"

definition hex4 :: "uint16 \<Rightarrow> string" where
  "hex4 w = map (\<lambda>k. hex_digit (unat w div 16 ^ k mod 16)) [3, 2, 1, 0]"

section \<open>The components\<close>

abbreviation plain :: "string \<Rightarrow> component" where
  "plain \<equiv> Text Style_Default"

abbreviation red :: "string \<Rightarrow> component" where
  "red \<equiv> Text (Style [Bg NoColor, Fg Red])"

definition count16 :: "uint16 \<Rightarrow> component" where
  "count16 n = plain (to_string (int (unat n)))"

definition packet_rows :: "reactive \<Rightarrow> uint16 list \<Rightarrow> component list" where
  "packet_rows rx opcodes =
     (if if_log LOG_LEVEL_DEBUG LOG_PACKET_LIFECYCLE rx
      then map (\<lambda>opcode. Flow [plain ''    ['', plain (hex4 opcode), plain '']: '', count16 (packetCount rx opcode)])
             (filter (\<lambda>opcode. 0 < packetCount rx opcode) opcodes)
      else [])"

definition offset_texts :: "offset \<Rightarrow> component list" where
  "offset_texts p = [plain ''    ['', plain (to_string (sint (off_q p))), plain '','', plain (to_string (sint (off_r p))), plain '']: '']"

definition client_row :: "server \<Rightarrow> addr \<Rightarrow> component list \<Rightarrow> fault + component list" where
  "client_row s c rows =
     rbind (client_at c s) (\<lambda>x.
     rbind (entity_at (ct_entity x) (sv_world s)) (\<lambda>y.
       case en_cell y of
         None \<Rightarrow> Inr rows
       | Some a \<Rightarrow>
           rbind (cell_at a (sv_world s)) (\<lambda>cell.
           rbind (Client_id c s) (\<lambda>i. Inr (rows @ [Flow (offset_texts (cl_offset cell) @ [plain (to_string (int (unat i)))])])))))"

definition client_rows :: "server \<Rightarrow> addr list \<Rightarrow> fault + component list" where
  "client_rows s clients =
     (if if_log LOG_LEVEL_DEBUG LOG_CLIENT_LIFECYCLE (w_rx (sv_world s)) then rfold (client_row s) clients [] else Inr [])"

text \<open>The loop over the stalled cells stops after ten of them, shown or not.\<close>

definition stall_row :: "world \<Rightarrow> addr \<Rightarrow> component list \<Rightarrow> fault + component list" where
  "stall_row w a rows =
     rbind (cell_at a w) (\<lambda>c.
       if cl_isRegistered c
       then Inr (rows @ [Flow (offset_texts (cl_offset c)
              @ [plain (to_string (tdiv (sint (cl_remaining c)) 1000)), plain '' ('',
                 plain (to_string (if cl_isOnCooldown c then 1 else 0)), plain '')''])])
       else Inr rows)"

definition stall_rows :: "world \<Rightarrow> fault + component list" where
  "stall_rows w =
     (if if_log LOG_LEVEL_DEBUG LOG_CLUSTERS (w_rx w) then rfold (stall_row w) (take 10 (cu_stall (w_cluster w))) [] else Inr [])"

definition page_head :: "int \<Rightarrow> string \<Rightarrow> string \<Rightarrow> fnum \<Rightarrow> rat \<Rightarrow> string \<Rightarrow> component list" where
  "page_head heartBeat diffStr sleepStr prog cpu ramUsage =
     [Flow [plain ''AuraServer debug information [CPU '', red (to_string (trunc cpu)), plain '', RAM '', red ramUsage, plain '']''],
      Flow [plain ''Diff: '', plain diffStr, plain ''  '',
        MaxWidth (nat heartBeat) (Progress prog \<lparr>px_c = CHR '' '', px_style = Style [Bg Cyan]\<rparr> \<lparr>px_c = CHR '' '', px_style = Style [Bg Red]\<rparr>),
        plain ''  '', plain ''Sleep: '', plain sleepStr],
      plain ''Messages:'']"

definition page :: "component list \<Rightarrow> reactive \<Rightarrow> component list \<Rightarrow> component list \<Rightarrow> component list \<Rightarrow> component" where
  "page header rx packets clients cells =
     (let n = rx_counters rx
      in Stack (header @ map plain (messages rx)
         @ [Stack [plain '' '', Flow [plain ''Alive packets: '', count16 (numAlivePackets n)]]] @ packets
         @ [Flow [plain ''Clients (accepting/playing/closing): '', count16 (pendingAcceptClient n), plain ''/'', count16 (numClients n),
              plain ''/'', count16 (pendingCloseClient n)]] @ clients
         @ [Flow [plain ''Map (clusters/cells/stall [candidates]): '', count16 (numClusters n), plain ''/'', count16 (numCells n), plain ''/'',
              count16 (numStallShown n), plain '' ['', count16 (numStallCandidatesShown n), plain '']'']] @ cells))"

text \<open>
  \<^verbatim>\<open>update_impl\<close>: the output is what is written to the terminal. The page is 200 columns wide.
\<close>

definition update_impl :: "page_env \<Rightarrow> int \<Rightarrow> int \<Rightarrow> int \<Rightarrow> server \<Rightarrow> monitor \<Rightarrow> page_fault + (string \<times> monitor)" where
  "update_impl pe heartBeat diff prevSleep s m =
     rbind (align4 (to_string (min diff 1000))) (\<lambda>diffStr.
     rbind (align4 (to_string prevSleep)) (\<lambda>sleepStr.
       let (usage, cpu) = getCurrentCPUUsage (pe_times pe) (mn_cpu m); w = sv_world s
       in case usage of
            None \<Rightarrow> Inl NotFinite
          | Some u \<Rightarrow>
              let avg = smooth u (mn_cpuUsage m)
              in rbind (lift_fault StringFault (getCurrentRAMUsage (pe_junk pe) (pe_status pe))) (\<lambda>ram.
                 rbind (lift_fault WorldFault (client_rows s (pe_clients pe))) (\<lambda>clients.
                 rbind (lift_fault WorldFault (stall_rows w)) (\<lambda>cells.
                   let header = page_head heartBeat diffStr sleepStr (progress heartBeat diff prevSleep) avg
                         (to_string (tdiv ram 1024) @ ''MB'')
                   in rbind (lift_fault RenderFault (render 200 (page header (w_rx w) (packet_rows (w_rx w) (pe_opcodes pe)) clients cells))) (\<lambda>im.
                      rbind (lift_fault RenderFault (Image_toString im)) (\<lambda>str.
                        let (out, vt) = flip_terminal (pe_rows pe) (mn_vt m) str
                        in Inr (out, m\<lparr>mn_cpu := cpu, mn_cpuUsage := avg, mn_vt := vt\<rparr>))))))))"

text \<open>\<^verbatim>\<open>print_now\<close>: a message, and the page at once.\<close>

definition print_now :: "page_env \<Rightarrow> string \<Rightarrow> server \<Rightarrow> monitor \<Rightarrow> page_fault + (string \<times> server \<times> monitor)" where
  "print_now pe msg s m =
     (let s' = on_rx (print msg) s
      in rbind (update_impl pe 0 0 0 s' m) (\<lambda>(out, m). Inr (out, s', m)))"

section \<open>The average usage\<close>

lemma alpha_eq: "alpha = 13421773 / 134217728"
  by code_simp

lemma smooth_constants:
  "rnd64 (1 - alpha) = 120795955 / 134217728" "rnd64 (alpha * 100) = 1342177300 / 134217728"
  "rnd64 (120795955 / 134217728 * 100) = 12079595500 / 134217728" "rnd64 (- alpha) = - (13421773 / 134217728)"
  "rnd64 (- (120795955 / 134217728)) = - (120795955 / 134217728)"
  by code_simp+

text \<open>The average stays between the bounds of what it averages, all operations rounded.\<close>

lemma smooth_bounds:
  assumes "- 1 \<le> u" and "u \<le> 100" and "- 1 \<le> c" and "c \<le> 100"
  shows "- 1 \<le> smooth u c" and "smooth u c \<le> 100"
proof -
  let ?b = "120795955 / 134217728 :: rat"
  have "0 < alpha" by (simp add: alpha_eq)
  then have "alpha * u \<le> alpha * 100" "- alpha \<le> alpha * u" "?b * c \<le> ?b * 100" "- ?b \<le> ?b * c"
    using assms mult_left_mono [of "- 1" u alpha] by auto
  then have "rnd64 (alpha * u) \<le> 1342177300 / 134217728" "- (13421773 / 134217728) \<le> rnd64 (alpha * u)"
      "rnd64 (?b * c) \<le> 12079595500 / 134217728" "- ?b \<le> rnd64 (?b * c)"
    using f64.mono smooth_constants by metis+
  then have "rnd64 (alpha * u) + rnd64 (?b * c) \<le> 100" "- 1 \<le> rnd64 (alpha * u) + rnd64 (?b * c)" by simp_all
  then have "rnd64 (rnd64 (alpha * u) + rnd64 (?b * c)) \<le> 100" "- 1 \<le> rnd64 (rnd64 (alpha * u) + rnd64 (?b * c))"
    using f64.fl_le [of 100] f64.le_fl [of "- 1"] f64.small_int [of 100] f64.small_int [of "- 1"] by simp_all
  then show "- 1 \<le> smooth u c" "smooth u c \<le> 100"
    unfolding smooth_def smooth_constants(1)
    using f32.fl_le [of 100] f32.le_fl [of "- 1"] f32.small_int [of 100] f32.small_int [of "- 1"] by simp_all
qed

section \<open>The page can be drawn\<close>

lemma page_strings [simp]:
  "newline \<notin> set (butlast (to_string i))" "hex4 w \<noteq> []" "length (hex4 w) = 4"
  by (auto dest: in_set_butlastD simp: hex4_def)

lemma count16_drawable [simp]: "drawable 200 (count16 n)"
  by (simp add: count16_def)

lemma offset_texts_drawable: "\<forall>c\<in>set (offset_texts p). drawable 200 c"
  by (simp add: offset_texts_def)

lemma packet_rows_drawable: "\<forall>c\<in>set (packet_rows rx opcodes). drawable 200 c"
  by (auto simp: packet_rows_def)

text \<open>The pointers that the page follows: from the entities to their cells, and of the stalled cells.\<close>

definition pointers_live :: "world \<Rightarrow> bool" where
  "pointers_live w \<longleftrightarrow> (\<forall>e y a. w_entities w e = Some y \<longrightarrow> en_cell y = Some a \<longrightarrow> w_cells w a \<noteq> None)
     \<and> (\<forall>a\<in>set (cu_stall (w_cluster w)). w_cells w a \<noteq> None)"

lemma client_row_total:
  assumes "server_ok s" and "pointers_live (sv_world s)" and "sv_clients s c \<noteq> None" and "\<forall>r\<in>set rows. drawable 200 r"
  shows "\<exists>rows'. client_row s c rows = Inr rows' \<and> (\<forall>r\<in>set rows'. drawable 200 r)"
proof -
  obtain x where x1: "sv_clients s c = Some x" using assms(3) by blast
  then obtain i where "client_key s c = Some (i, Some c)"
    using assms(1) unfolding server_ok_def clients_ok_def by blast
  then have "entity_key (sv_world s) (ct_entity x) = Some (i, Some c)" using x1 by (simp add: client_key_def)
  then obtain y where "w_entities (sv_world s) (ct_entity x) = Some y" by (elim entity_keyE)
  note x = x1 this
  show ?thesis
  proof (cases "en_cell y")
    case None
    then show ?thesis using x assms(4) by (simp add: client_row_def client_at_def entity_at_def)
  next
    case (Some a)
    then have "w_cells (sv_world s) a \<noteq> None" using x(2) assms(2) unfolding pointers_live_def by blast
    then obtain cl where "w_cells (sv_world s) a = Some cl" by blast
    then show ?thesis
      using x Some assms(4) offset_texts_drawable [of "cl_offset cl"]
      by (auto simp: client_row_def client_at_def entity_at_def cell_at_def Client_id_def)
  qed
qed

lemma client_rows_total:
  assumes "server_ok s" and "pointers_live (sv_world s)" and "\<forall>c\<in>set clients. sv_clients s c \<noteq> None"
  shows "\<exists>rows. client_rows s clients = Inr rows \<and> (\<forall>r\<in>set rows. drawable 200 r)"
proof -
  have "\<exists>rows. rfold (client_row s) clients [] = Inr rows \<and> (\<forall>r\<in>set rows. drawable 200 r)"
    using client_row_total [OF assms(1,2)] assms(3) by (intro rfold_total) auto
  then show ?thesis by (auto simp: client_rows_def)
qed

lemma stall_rows_total:
  assumes "pointers_live w"
  shows "\<exists>rows. stall_rows w = Inr rows \<and> (\<forall>r\<in>set rows. drawable 200 r)"
proof -
  have row: "\<exists>rows'. stall_row w a rows = Inr rows' \<and> (\<forall>r\<in>set rows'. drawable 200 r)"
    if a: "a \<in> set (take 10 (cu_stall (w_cluster w)))" and d: "\<forall>r\<in>set rows. drawable 200 r" for a rows
  proof -
    obtain c where "w_cells w a = Some c" using assms in_set_takeD [OF a] by (auto simp: pointers_live_def)
    then show ?thesis
      using d offset_texts_drawable [of "cl_offset c"]
      by (auto simp: stall_row_def cell_at_def)
  qed
  have "\<exists>rows. rfold (stall_row w) (take 10 (cu_stall (w_cluster w))) [] = Inr rows \<and> (\<forall>r\<in>set rows. drawable 200 r)"
    by (intro rfold_total) (simp_all add: row)
  then show ?thesis by (auto simp: stall_rows_def)
qed

lemma align4_Inr: "align4 (to_string i) = (if - 1000 < i \<and> i < 10000 then Inr (replicate (4 - length (to_string i)) CHR '' '' @ to_string i) else Inl LengthError)"
  by (simp add: align4_def length_to_string)

lemma drawable_no_newline: "s \<noteq> [] \<Longrightarrow> newline \<notin> set s \<Longrightarrow> drawable 200 (Text st s)"
  by (auto dest: in_set_butlastD)

lemma aligned_drawable: "drawable 200 (plain (replicate n CHR '' '' @ to_string i))"
  by (rule drawable_no_newline) (auto simp: newline_def dest: to_string_no_newline [unfolded newline_def, THEN notE])

lemma align4_drawable: "- 1000 < i \<Longrightarrow> i < 10000 \<Longrightarrow> \<exists>d. align4 (to_string i) = Inr d \<and> drawable 200 (plain d)"
  unfolding align4_Inr using aligned_drawable by simp

lemma ram_drawable: "drawable 200 (red (to_string i @ ''MB''))"
  by (rule drawable_no_newline) (auto simp: newline_def dest: to_string_no_newline [unfolded newline_def, THEN notE])

lemma page_drawable:
  assumes "\<forall>r\<in>set header. drawable 200 r" and "\<forall>msg\<in>set (messages rx). drawable 200 (plain msg)"
    and "\<forall>r\<in>set packets. drawable 200 r" and "\<forall>r\<in>set clients. drawable 200 r" and "\<forall>r\<in>set cells. drawable 200 r"
  shows "drawable 200 (page header rx packets clients cells)"
  using assms by (auto simp: page_def Let_def)

lemma page_head_drawable:
  assumes "drawable 200 (plain d)" and "drawable 200 (plain sl)" and "drawable 200 (red ram)"
  shows "\<forall>r\<in>set (page_head hb d sl p cpu ram). drawable 200 r"
  using assms by (auto simp: page_head_def)

lemma Image_toString_total: "image_ok im \<Longrightarrow> \<exists>str. Image_toString im = Inr str"
proof -
  assume ok: "image_ok im"
  have "\<exists>t. print_row im y s = Inr t \<and> True" if "y \<in> set [0..<im_height im]" for y s
  proof -
    have "\<exists>t. rfold (print_pixel im y) [0..<im_width im] s = Inr t \<and> True"
      using ok that by (intro rfold_total) (simp_all add: print_pixel_def get_pixel_ok Let_def)
    then show ?thesis by (auto simp: print_row_def)
  qed
  then have "\<exists>t. rfold (print_row im) [0..<im_height im] (Style [], []) = Inr t \<and> True" by (intro rfold_total) simp_all
  then show ?thesis by (auto simp: Image_toString_def)
qed

section \<open>The page is drawn\<close>




text \<open>A server with one client in the map, and a process that used an eighth of four processors.\<close>

definition demo_page :: page_env where
  "demo_page = \<lparr>pe_times = \<lparr>tms_now = 200, tms_stime = 30, tms_utime = 40\<rparr>, pe_status = Some (''VmRSS: 4096 kB'' @ [newline]),
     pe_junk = replicate 128 CHR ''x'', pe_rows = 24, pe_clients = [9], pe_opcodes = []\<rparr>"

definition demo_monitor :: monitor where
  "demo_monitor = \<lparr>mn_cpu = \<lparr>lastCPU = 100, lastSysCPU = 10, lastUserCPU = 10, numProcessors = 4\<rparr>, mn_cpuUsage = 0, mn_vt = []\<rparr>"

lemma demo_usage:
  "getCurrentCPUUsage (pe_times demo_page) (mn_cpu demo_monitor) =
     (Some (25 / 2), \<lparr>lastCPU = 200, lastSysCPU = 30, lastUserCPU = 40, numProcessors = 4\<rparr>)"
  "getCurrentRAMUsage (pe_junk demo_page) (pe_status demo_page) = Inr 4096"
  by code_simp+


end
