(* ===== verification/Database.thy ===== *)
theory Database
  imports Prelude
begin

text \<open>
  The database threads (\<^verbatim>\<open>src/database/database.hpp\<close>, \<^verbatim>\<open>database.cpp\<close>): queries are queued and worker
  threads pop and run them, waiting on a condition variable in between. The model interleaves
  the threads at every access to the queue, the mutex, the condition variable and the stop flag. A
  query is the number of its call; running it is fulfilling its promise. What a query does in the database
  and the connections themselves are left out; a query that throws ends the program and has no step.
\<close>

section \<open>State\<close>

text \<open>
  Where a worker is in \<^verbatim>\<open>run\<close>: at the outer test, at \<^verbatim>\<open>empty\<close>, at \<^verbatim>\<open>pop\<close>, running a query, before the
  lock, with the lock before \<^verbatim>\<open>wait\<close>, waiting, woken and about to take the lock back, or returned.
\<close>

datatype worker = Testing | Looking | Popping | Running nat | Locking | Holding | Asleep | Woken | Returned

text \<open>Where a call of \<^verbatim>\<open>query\<close> is after its push: before the lock, or with the lock before \<^verbatim>\<open>notify_all\<close>.\<close>

datatype caller = Pushed | Notifying

record database =
  db_queue :: "nat bqueue"
  db_stop :: bool
  db_mutex :: bool
  db_workers :: "worker list"
  db_callers :: "caller list"
  db_issued :: nat
  db_done :: "nat list"

definition Database_new :: "uint8 \<Rightarrow> database" where
  "Database_new numThreads =
     \<lparr>db_queue = \<lparr>cap = None, items = []\<rparr>, db_stop = False, db_mutex = False,
      db_workers = replicate (unat numThreads) Testing, db_callers = [], db_issued = 0, db_done = []\<rparr>"

section \<open>Steps\<close>

text \<open>The beginning of \<^verbatim>\<open>query\<close>; the assertion holds since the queue grows.\<close>

definition query :: "database \<Rightarrow> database" where
  "query d = d\<lparr>db_queue := fst (bq_push (db_issued d) (db_queue d)), db_issued := db_issued d + 1,
     db_callers := db_callers d @ [Pushed]\<rparr>"

definition wake :: "worker \<Rightarrow> worker" where
  "wake w = (if w = Asleep then Woken else w)"

text \<open>The rest of the \<open>i\<close>-th call that has not returned: the lock, then \<^verbatim>\<open>notify_all\<close> and the unlock.\<close>

definition caller_step :: "nat \<Rightarrow> database \<Rightarrow> database option" where
  "caller_step i d =
     (if i < length (db_callers d) then
        case db_callers d ! i of
          Pushed \<Rightarrow> if db_mutex d then None
            else Some (d\<lparr>db_mutex := True, db_callers := (db_callers d)[i := Notifying]\<rparr>)
        | Notifying \<Rightarrow> Some (d\<lparr>db_mutex := False, db_workers := map wake (db_workers d),
            db_callers := take i (db_callers d) @ drop (i + 1) (db_callers d)\<rparr>)
      else None)"

definition goto :: "nat \<Rightarrow> worker \<Rightarrow> database \<Rightarrow> database" where
  "goto i w d = d\<lparr>db_workers := (db_workers d)[i := w]\<rparr>"

text \<open>
  One step of \<^verbatim>\<open>run\<close> in the \<open>i\<close>-th thread, \<open>None\<close> when it is blocked. \<^verbatim>\<open>wait\<close> releases the mutex and
  falls asleep in one step, and takes the mutex again, which is released at once, when it returns.
\<close>

definition worker_step :: "nat \<Rightarrow> database \<Rightarrow> database option" where
  "worker_step i d =
     (if i < length (db_workers d) then
        case db_workers d ! i of
          Testing \<Rightarrow> Some (goto i (if db_stop d then Returned else Looking) d)
        | Looking \<Rightarrow> Some (goto i (if items (db_queue d) = [] then Locking else Popping) d)
        | Popping \<Rightarrow>
            (case bq_pop (db_queue d) of
               None \<Rightarrow> Some (goto i Looking d)
             | Some (q, work) \<Rightarrow> Some (goto i (Running work) (d\<lparr>db_queue := q\<rparr>)))
        | Running work \<Rightarrow> Some (goto i Looking (d\<lparr>db_done := db_done d @ [work]\<rparr>))
        | Locking \<Rightarrow> if db_mutex d then None else Some (goto i Holding (d\<lparr>db_mutex := True\<rparr>))
        | Holding \<Rightarrow> Some (goto i Asleep (d\<lparr>db_mutex := False\<rparr>))
        | Asleep \<Rightarrow> None
        | Woken \<Rightarrow> if db_mutex d then None else Some (goto i Testing d)
        | Returned \<Rightarrow> None
      else None)"

text \<open>\<^verbatim>\<open>stop\<close>, and the first statement of the destructor, which then joins the threads.\<close>

definition Database_stop :: "database \<Rightarrow> database" where
  "Database_stop d = d\<lparr>db_stop := True\<rparr>"

definition joined_all :: "database \<Rightarrow> bool" where
  "joined_all d \<longleftrightarrow> (\<forall>w\<in>set (db_workers d). w = Returned)"

text \<open>What the threads do without a new query.\<close>

inductive internal :: "database \<Rightarrow> database \<Rightarrow> bool" where
  worker: "worker_step i d = Some d' \<Longrightarrow> internal d d'"
| caller: "caller_step i d = Some d' \<Longrightarrow> internal d d'"
| stopping: "internal d (Database_stop d)"

text \<open>A query may start at any time, and a sleeping thread may wake up for no reason.\<close>

inductive db_step :: "database \<Rightarrow> database \<Rightarrow> bool" where
  inner: "internal d d' \<Longrightarrow> db_step d d'"
| call: "db_step d (query d)"
| spurious: "i < length (db_workers d) \<Longrightarrow> db_workers d ! i = Asleep \<Longrightarrow> db_step d (goto i Woken d)"

inductive_cases internalE: "internal d d'"
inductive_cases db_stepE: "db_step d d'"

section \<open>Every query runs once\<close>

fun held :: "worker \<Rightarrow> nat list" where
  "held (Running work) = [work]"
| "held _ = []"

text \<open>The queries that are being run, and the threads that have the mutex.\<close>

definition running :: "database \<Rightarrow> nat list" where
  "running d = concat (map held (db_workers d))"

definition owners :: "database \<Rightarrow> nat" where
  "owners d = length (filter (\<lambda>w. w = Holding) (db_workers d)) + length (filter (\<lambda>c. c = Notifying) (db_callers d))"

text \<open>
  The first \<open>k\<close> queries are done or being run, each once, the rest is queued in order; the mutex is
  taken exactly when one thread has it.
\<close>

definition db_ok :: "database \<Rightarrow> bool" where
  "db_ok d \<longleftrightarrow> cap (db_queue d) = None \<and> owners d = (if db_mutex d then 1 else 0)
     \<and> (\<exists>k\<le>db_issued d. items (db_queue d) = [k..<db_issued d] \<and> mset (running d) + mset (db_done d) = mset [0..<k])"

lemma db_ok_new: "db_ok (Database_new n)"
  by (auto simp: db_ok_def Database_new_def owners_def running_def filter_empty_conv)

lemma split_nth:
  assumes "i < length xs"
  obtains as bs where "xs = as @ xs ! i # bs" and "length as = i"
  using id_take_nth_drop [OF assms] assms by (metis length_take min.absorb4)

text \<open>A step of one worker, seen on the lists of running queries and of owners.\<close>

lemma running_goto:
  assumes "i < length (db_workers d)" and "db_workers d ! i = v"
  shows "mset (running (goto i w d)) + mset (held v) = mset (running d) + mset (held w)"
    and "owners (goto i w d) + (if v = Holding then 1 else 0) = owners d + (if w = Holding then 1 else 0)"
proof -
  obtain as bs where "db_workers d = as @ v # bs" "length as = i"
    using split_nth [OF assms(1)] assms(2) by metis
  then have "db_workers d = as @ v # bs" "(db_workers d)[i := w] = as @ w # bs" by auto
  then show "mset (running (goto i w d)) + mset (held v) = mset (running d) + mset (held w)"
    and "owners (goto i w d) + (if v = Holding then 1 else 0) = owners d + (if w = Holding then 1 else 0)"
    by (simp_all add: running_def owners_def goto_def)
qed

lemma running_updates [simp]:
  "running (d\<lparr>db_queue := q\<rparr>) = running d" "running (d\<lparr>db_done := xs\<rparr>) = running d" "running (d\<lparr>db_mutex := m\<rparr>) = running d"
  "owners (d\<lparr>db_queue := q\<rparr>) = owners d" "owners (d\<lparr>db_done := xs\<rparr>) = owners d" "owners (d\<lparr>db_mutex := m\<rparr>) = owners d"
  by (simp_all add: running_def owners_def)

lemma goto_sel [simp]:
  "db_queue (goto i w d) = db_queue d" "db_done (goto i w d) = db_done d" "db_mutex (goto i w d) = db_mutex d"
  "db_issued (goto i w d) = db_issued d" "db_stop (goto i w d) = db_stop d" "db_callers (goto i w d) = db_callers d"
  "length (db_workers (goto i w d)) = length (db_workers d)" "db_workers (goto i w d) = (db_workers d)[i := w]"
  by (simp_all add: goto_def)

lemma db_ok_goto:
  assumes "db_ok d" and "i < length (db_workers d)" and "held w = held (db_workers d ! i)"
    and "(w = Holding) = (db_workers d ! i = Holding)"
  shows "db_ok (goto i w d)"
proof -
  have "mset (running (goto i w d)) = mset (running d)" "owners (goto i w d) = owners d"
    using running_goto [OF assms(2) refl, of w] assms(3,4) by (auto split: if_splits)
  with assms(1) show ?thesis by (simp add: db_ok_def)
qed

lemma worker_step_ok:
  assumes "db_ok d" and "worker_step i d = Some d'"
  shows "db_ok d'"
proof -
  have i: "i < length (db_workers d)" using assms(2) by (simp add: worker_step_def split: if_splits)
  note m = running_goto [OF i]
  obtain k where k: "k \<le> db_issued d" "items (db_queue d) = [k..<db_issued d]"
      "mset (running d) + mset (db_done d) = mset [0..<k]" "cap (db_queue d) = None" "owners d = (if db_mutex d then 1 else 0)"
    using assms(1) by (auto simp: db_ok_def)
  show ?thesis
  proof (cases "db_workers d ! i")
    case Popping
    show ?thesis
    proof (cases "items (db_queue d)")
      case Nil
      then show ?thesis using assms i Popping by (auto simp: worker_step_def bq_pop_def intro: db_ok_goto)
    next
      case (Cons x xs)
      then have kx: "k < db_issued d" "x = k" "xs = [k + 1..<db_issued d]"
        using k(2) by (auto simp: upt_eq_Cons_conv)
      have d': "d' = goto i (Running x) (d\<lparr>db_queue := (db_queue d)\<lparr>items := xs\<rparr>\<rparr>)"
        using assms(2) i Popping Cons by (simp add: worker_step_def bq_pop_def)
      have "mset (running d') = mset (running d) + {#k#}" "owners d' = owners d"
        using running_goto [of i "d\<lparr>db_queue := (db_queue d)\<lparr>items := xs\<rparr>\<rparr>" Popping "Running x"] i Popping kx(2) d' by simp_all
      then show ?thesis using k kx d' by (auto simp: db_ok_def atLeast0_lessThan_Suc intro!: exI [of _ "k + 1"])
    qed
  next
    case (Running x)
    have d': "d' = goto i Looking (d\<lparr>db_done := db_done d @ [x]\<rparr>)" using assms(2) i Running by (simp add: worker_step_def)
    have "mset (running d) = add_mset x (mset (running d'))" "owners d' = owners d"
      using running_goto [of i "d\<lparr>db_done := db_done d @ [x]\<rparr>" "Running x" Looking] i Running d' by simp_all
    then have "mset (running d') + mset (db_done d') = mset [0..<k]" "owners d' = owners d" using k(3) d' by simp_all
    then show ?thesis using k d' unfolding db_ok_def by (intro conjI exI [of _ k]) simp_all
  next
    case Locking
    then have d': "\<not> db_mutex d" "d' = goto i Holding (d\<lparr>db_mutex := True\<rparr>)"
      using assms(2) i by (auto simp: worker_step_def split: if_splits)
    then show ?thesis
      using running_goto [of i "d\<lparr>db_mutex := True\<rparr>" Locking Holding] i Locking k by (auto simp: db_ok_def intro!: exI [of _ k])
  next
    case Holding
    then have d': "d' = goto i Asleep (d\<lparr>db_mutex := False\<rparr>)"
      using assms(2) i by (auto simp: worker_step_def)
    then show ?thesis
      using running_goto [of i "d\<lparr>db_mutex := False\<rparr>" Holding Asleep] i Holding k by (auto simp: db_ok_def intro!: exI [of _ k] split: if_splits)
  qed (use assms i in \<open>auto simp: worker_step_def split: if_splits intro: db_ok_goto\<close>)
qed

lemma caller_step_ok:
  assumes "db_ok d" and "caller_step i d = Some d'"
  shows "db_ok d'"
proof -
  have i: "i < length (db_callers d)" using assms(2) by (simp add: caller_step_def split: if_splits)
  obtain as bs where cs: "db_callers d = as @ db_callers d ! i # bs" "length as = i" using split_nth [OF i] .
  have held: "held (wake w) = held w" "(wake w = Holding) = (w = Holding)" for w by (auto simp: wake_def)
  show ?thesis
  proof (cases "db_callers d ! i")
    case Pushed
    then have d': "\<not> db_mutex d" "d' = d\<lparr>db_mutex := True, db_callers := (db_callers d)[i := Notifying]\<rparr>"
      using assms(2) i by (auto simp: caller_step_def split: if_splits)
    moreover have "db_callers d = as @ Pushed # bs" "(db_callers d)[i := Notifying] = as @ Notifying # bs"
      using cs Pushed by (metis, metis list_update_length)
    ultimately show ?thesis using assms(1) by (auto simp: db_ok_def owners_def running_def)
  next
    case Notifying
    then have d': "d' = d\<lparr>db_mutex := False, db_workers := map wake (db_workers d), db_callers := take i (db_callers d) @ drop (i + 1) (db_callers d)\<rparr>"
      using assms(2) i by (simp add: caller_step_def)
    moreover have "db_callers d = as @ Notifying # bs" using cs Notifying by metis
    moreover from this have "take i (db_callers d) @ drop (i + 1) (db_callers d) = as @ bs" using cs(2) by simp
    ultimately show ?thesis using assms(1)
      by (auto simp: db_ok_def owners_def running_def filter_map comp_def held split: if_splits)
  qed
qed

lemma db_ok_stop: "db_ok d \<Longrightarrow> db_ok (Database_stop d)"
  by (simp add: Database_stop_def db_ok_def owners_def running_def)

lemma db_step_ok: "db_step d d' \<Longrightarrow> db_ok d \<Longrightarrow> db_ok d'"
proof (erule db_stepE)
  assume "internal d d'" "db_ok d"
  then show "db_ok d'"
    by (auto elim!: internalE intro: worker_step_ok caller_step_ok db_ok_stop)
next
  assume d': "d' = query d" and ok: "db_ok d"
  then obtain k where k: "k \<le> db_issued d" "items (db_queue d) = [k..<db_issued d]"
      "mset (running d) + mset (db_done d) = mset [0..<k]"
    by (auto simp: db_ok_def)
  then have "items (db_queue d') = [k..<db_issued d']" "k \<le> db_issued d'" "mset (running d') + mset (db_done d') = mset [0..<k]"
    using ok by (simp_all add: d' query_def bq_push_def bq_full_def db_ok_def running_def)
  moreover have "cap (db_queue d') = None" "owners d' = (if db_mutex d' then 1 else 0)"
    using ok by (simp_all add: d' query_def db_ok_def owners_def)
  ultimately show "db_ok d'" unfolding db_ok_def by blast
next
  fix i assume "d' = goto i Woken d" "i < length (db_workers d)" "db_workers d ! i = Asleep" "db_ok d"
  then show "db_ok d'" by (auto intro: db_ok_goto)
qed

text \<open>
  C15. Every query is run at most once and in order, whatever the interleaving of any number of worker
  threads with each other and with the calls, spurious wake-ups and stops included: at any time there is a \<open>k\<close> such that
  the first \<open>k\<close> queries are each done or being run exactly once and the others are queued in the
  order of their calls; and the mutex has at most one owner.
\<close>

theorem queries_run_once:
  assumes "db_step\<^sup>*\<^sup>* (Database_new numThreads) d"
  shows "owners d \<le> 1 \<and> (\<exists>k\<le>db_issued d. items (db_queue d) = [k..<db_issued d]
    \<and> mset (running d) + mset (db_done d) = mset [0..<k])"
proof -
  have "db_ok d" using assms by (induction rule: rtranclp_induct) (auto intro: db_ok_new db_step_ok)
  then show ?thesis by (auto simp: db_ok_def)
qed

section \<open>Progress\<close>

text \<open>Steps of one worker alone, until it is blocked.\<close>

fun run_worker :: "nat \<Rightarrow> nat \<Rightarrow> database \<Rightarrow> database" where
  "run_worker 0 i d = d"
| "run_worker (Suc n) i d = (case worker_step i d of None \<Rightarrow> d | Some d' \<Rightarrow> run_worker n i d')"

lemma run_worker_Looking:
  assumes "i < length (db_workers d)" and "db_workers d ! i = Looking" and "items (db_queue d) = qs"
  shows "\<exists>d'. run_worker (3 * length qs + 1) i d = d' \<and> items (db_queue d') = [] \<and> db_done d' = db_done d @ qs
    \<and> db_workers d' = (db_workers d)[i := Locking]"
  using assms
proof (induction qs arbitrary: d)
  case Nil
  then show ?case by (simp add: worker_step_def)
next
  case (Cons x qs)
  define d1 where "d1 = goto i Popping d"
  define d2 where "d2 = goto i (Running x) (d1\<lparr>db_queue := (db_queue d)\<lparr>items := qs\<rparr>\<rparr>)"
  define d3 where "d3 = goto i Looking (d2\<lparr>db_done := db_done d @ [x]\<rparr>)"
  have "worker_step i d = Some d1" "worker_step i d1 = Some d2" "worker_step i d2 = Some d3"
    using Cons.prems by (simp_all add: worker_step_def d1_def d2_def d3_def bq_pop_def)
  moreover have "3 * length (x # qs) + 1 = Suc (Suc (Suc (3 * length qs + 1)))" by simp
  ultimately have "run_worker (3 * length (x # qs) + 1) i d = run_worker (3 * length qs + 1) i d3"
    by (simp only: run_worker.simps(2) option.case)
  moreover have "i < length (db_workers d3)" "db_workers d3 ! i = Looking" "items (db_queue d3) = qs"
      "db_done d3 = db_done d @ [x]" "(db_workers d3)[i := w] = (db_workers d)[i := w]" for w
    using Cons.prems(1) by (simp_all add: d1_def d2_def d3_def)
  ultimately show ?case using Cons.IH [of d3] by simp
qed

text \<open>
  A worker that is awake serves the queue: started at its outer test, with the stop flag not set and
  the others idle, it runs all queued queries in order and goes to wait, in three steps per query and
  two more.
\<close>

theorem worker_drains:
  assumes "i < length (db_workers d)" and "db_workers d ! i = Testing" and "\<not> db_stop d"
  shows "\<exists>d'. run_worker (3 * length (items (db_queue d)) + 2) i d = d' \<and> items (db_queue d') = []
    \<and> db_done d' = db_done d @ items (db_queue d) \<and> db_workers d' = (db_workers d)[i := Locking]"
proof -
  have "worker_step i d = Some (goto i Looking d)" using assms by (simp add: worker_step_def)
  then have "run_worker (3 * length (items (db_queue d)) + 2) i d = run_worker (3 * length (items (db_queue d)) + 1) i (goto i Looking d)"
    by simp
  then show ?thesis using run_worker_Looking [of i "goto i Looking d" "items (db_queue d)"] assms(1) by simp
qed

section \<open>The lost wake-up\<close>

text \<open>Once every worker sleeps and no call is under way, nothing but a new call or a spurious wake-up helps.\<close>

lemma asleep_forever:
  assumes "internal\<^sup>*\<^sup>* d d'" and "\<forall>w\<in>set (db_workers d). w = Asleep" and "db_callers d = []"
  shows "db_workers d' = db_workers d \<and> db_callers d' = [] \<and> db_done d' = db_done d \<and> db_queue d' = db_queue d"
  using assms(1)
proof (induction rule: rtranclp_induct)
  case (step u v)
  have "db_workers u ! i = Asleep" if "i < length (db_workers u)" for i using step.IH assms(2) that by simp
  then have "worker_step i u = None" for i by (simp add: worker_step_def)
  moreover have "caller_step i u = None" for i using step.IH by (simp add: caller_step_def)
  ultimately have "v = Database_stop u" using step.hyps(2) by (auto elim: internalE)
  then show ?case using step.IH by (simp add: Database_stop_def)
qed (use assms(3) in simp)

text \<open>The state after the schedule: the worker finds the queue empty, a call pushes and notifies, the worker waits.\<close>

definition missed :: database where
  "missed = (Database_new 1)\<lparr>db_queue := \<lparr>cap = None, items = [0]\<rparr>, db_workers := [Asleep], db_issued := 1\<rparr>"

lemma missed_reachable: "db_step\<^sup>*\<^sup>* (Database_new 1) missed"
proof -
  let ?d0 = "Database_new 1"
  define d1 where "d1 = goto 0 Looking ?d0"
  define d2 where "d2 = goto 0 Locking d1"
  define d3 where "d3 = query d2"
  define d4 where "d4 = d3\<lparr>db_mutex := True, db_callers := [Notifying]\<rparr>"
  define d5 where "d5 = d4\<lparr>db_mutex := False, db_workers := map wake (db_workers d4), db_callers := []\<rparr>"
  define d6 where "d6 = goto 0 Holding (d5\<lparr>db_mutex := True\<rparr>)"
  note ds = d1_def d2_def d3_def d4_def d5_def d6_def
  have w: "db_step d d'" if "worker_step 0 d = Some d'" for d d' using that by (blast intro: db_step.inner internal.worker)
  have c: "db_step d d'" if "caller_step 0 d = Some d'" for d d' using that by (blast intro: db_step.inner internal.caller)
  have "db_step ?d0 d1" "db_step d1 d2" by (rule w, simp add: ds worker_step_def Database_new_def)+
  moreover have "db_step d2 d3" unfolding d3_def by (rule db_step.call)
  moreover have "db_step d3 d4" "db_step d4 d5"
    by (rule c, simp add: ds caller_step_def Database_new_def query_def)+
  moreover have "db_step d5 d6" by (rule w) (simp add: ds worker_step_def Database_new_def query_def wake_def)
  moreover have "db_step d6 missed"
    by (rule w) (simp add: ds worker_step_def Database_new_def query_def wake_def missed_def bq_push_def bq_full_def goto_def)
  ultimately show ?thesis by (meson converse_rtranclp_into_rtranclp rtranclp.rtrancl_refl)
qed

text \<open>
  C34. A query can be missed, and then the destructor never returns: with one worker there is a
  schedule after which the call of \<^verbatim>\<open>query\<close> has returned, its query is queued and the worker waits;
  from then on, without another call or a spurious wake-up, the query is never run, and after the
  stop flag is set the thread never returns, so joining it blocks. \<^verbatim>\<open>wait\<close> is called without
  testing the queue under the lock, and the destructor does not notify.
\<close>

theorem query_missed:
  "\<exists>d. db_step\<^sup>*\<^sup>* (Database_new 1) d \<and> items (db_queue d) = [0] \<and> db_callers d = []
    \<and> (\<forall>d'. internal\<^sup>*\<^sup>* d d' \<longrightarrow> db_done d' = [] \<and> items (db_queue d') = [0] \<and> \<not> joined_all d')"
proof (intro exI [of _ missed] conjI allI impI)
  fix d' assume "internal\<^sup>*\<^sup>* missed d'"
  then have "db_workers d' = [Asleep] \<and> db_done d' = [] \<and> items (db_queue d') = [0]"
    using asleep_forever [of missed d'] by (simp add: missed_def Database_new_def)
  then show "db_done d' = []" "items (db_queue d') = [0]" "\<not> joined_all d'" by (simp_all add: joined_all_def)
qed (simp_all add: missed_reachable, simp_all add: missed_def Database_new_def)

theorem query_missed_witness:
  "\<exists>d. db_step\<^sup>*\<^sup>* (Database_new 1) d \<and> items (db_queue d) = [0] \<and> \<not> joined_all (Database_stop d)"
proof -
  have "internal\<^sup>*\<^sup>* d (Database_stop d)" for d by (simp add: internal.stopping r_into_rtranclp)
  then show ?thesis using query_missed by blast
qed

text \<open>Two queries, one worker.\<close>

definition two_queries :: database where
  "two_queries = query (query (Database_new 1))"

theorem worker_drains_witness: "db_done (run_worker 8 0 two_queries) = [0, 1]"
  using worker_drains [of 0 two_queries]
  by (simp add: two_queries_def query_def Database_new_def bq_push_def bq_full_def numeral_eq_Suc)

theorem queries_run_once_witness:
  "owners two_queries \<le> 1 \<and> (\<exists>k\<le>2. items (db_queue two_queries) = [k..<2] \<and> mset (running two_queries) + mset (db_done two_queries) = mset [0..<k])"
proof -
  have "db_step\<^sup>*\<^sup>* (Database_new 1) two_queries"
    unfolding two_queries_def by (meson converse_rtranclp_into_rtranclp rtranclp.rtrancl_refl db_step.call)
  moreover have "db_issued two_queries = 2" by (simp add: two_queries_def query_def Database_new_def)
  ultimately show ?thesis using queries_run_once [of 1 two_queries] by (simp only:)
qed

end
