(* ===== verification/Works.thy ===== *)
theory Works
  imports Executor Packet Database
begin

text \<open>
  The works of the executor (\<^verbatim>\<open>src/executor/abstract_work.*\<close>) and who frees what they own. A \<^verbatim>\<open>ClientWork\<close> owns the
  packet it was made for, a \<^verbatim>\<open>FutureWork\<close> waits for a query of the database, a \<^verbatim>\<open>PackagedWork\<close> carries values.
  \<^verbatim>\<open>executeJobs\<close> deletes a work after its handler has returned or thrown, the destructor of the executor deletes the works that are left. Handlers are
  those of a \<open>program\<close>; packets are named by their allocations, which are never reused.
\<close>

section \<open>Works\<close>

datatype ('h, 'p) work = ClientWork 'h nat nat | FutureWork 'h nat nat | PackagedWork 'h nat 'p

text \<open>
  The packets that are alive, those destroyed, in order, those destroyed when they were not alive, the monitor, the database and the
  state of the application.
\<close>

record 's workshop =
  ws_packets :: "nat \<Rightarrow> packet option"
  ws_destroyed :: "nat list"
  ws_dangling :: "nat list"
  ws_rx :: reactive
  ws_db :: database
  ws_app :: 's

fun executor_of :: "('h, 'p) work \<Rightarrow> nat" where
  "executor_of (ClientWork h c a) = c"
| "executor_of (FutureWork h c q) = c"
| "executor_of (PackagedWork h c p) = c"

fun work_packets :: "('h, 'p) work \<Rightarrow> nat list" where
  "work_packets (ClientWork h c a) = [a]"
| "work_packets (FutureWork h c q) = []"
| "work_packets (PackagedWork h c p) = []"

text \<open>A future is ready once its promise is fulfilled, which is when its query has run.\<close>

fun work_ready :: "('h, 'p) work \<Rightarrow> 's workshop \<Rightarrow> bool" where
  "work_ready (ClientWork h c a) s \<longleftrightarrow> True"
| "work_ready (FutureWork h c q) s \<longleftrightarrow> q \<in> set (db_done (ws_db s))"
| "work_ready (PackagedWork h c p) s \<longleftrightarrow> True"

definition destroy_packet :: "nat \<Rightarrow> 's workshop \<Rightarrow> 's workshop" where
  "destroy_packet a s =
     (case ws_packets s a of
        None \<Rightarrow> s\<lparr>ws_dangling := ws_dangling s @ [a]\<rparr>
      | Some p \<Rightarrow>
          (case Packet_destroy p (ws_rx s) of
             Inl e \<Rightarrow> s\<lparr>ws_dangling := ws_dangling s @ [a]\<rparr>
           | Inr rx \<Rightarrow> s\<lparr>ws_packets := (ws_packets s)(a := None), ws_destroyed := ws_destroyed s @ [a], ws_rx := rx\<rparr>))"

fun delete_work :: "('h, 'p) work \<Rightarrow> 's workshop \<Rightarrow> 's workshop" where
  "delete_work (ClientWork h c a) s = destroy_packet a s"
| "delete_work (FutureWork h c q) s = s"
| "delete_work (PackagedWork h c p) s = s"

text \<open>The works' own \<^verbatim>\<open>ready\<close>, and the deletion of each work once it has been called.\<close>

definition work_program :: "(('h, 'p) work, 't, 's workshop) program \<Rightarrow> (('h, 'p) work, 't, 's workshop) program" where
  "work_program pg =
     \<lparr>pg_ready = work_ready,
      pg_handler = (\<lambda>job st.
        case pg_handler pg job st of
          (Done next, ex, s) \<Rightarrow> (Done next, ex, delete_work job s)
        | (Threw, ex, s) \<Rightarrow> (Threw, ex, s)),
      pg_onWorkError = (\<lambda>job s. delete_work job (pg_onWorkError pg job s)),
      pg_task = pg_task pg\<rparr>"

definition Executor_delete :: "(('h, 'p) work, 't) executor \<Rightarrow> 's workshop \<Rightarrow> 's workshop" where
  "Executor_delete ex s = fold delete_work (items (ex_jobs ex)) s"

lemma work_program_sel [simp]: "pg_ready (work_program pg) = work_ready" "pg_task (work_program pg) = pg_task pg"
  "pg_onWorkError (work_program pg) job s = delete_work job (pg_onWorkError pg job s)"
  by (simp_all add: work_program_def)

lemma work_handler:
  "pg_handler pg job st = (out, ex, s) \<Longrightarrow>
   pg_handler (work_program pg) job st = (out, ex, if out = Threw then s else delete_work job s)"
  by (cases out) (simp_all add: work_program_def)

lemma quiet_work_program:
  assumes "quiet pg"
  shows "quiet (work_program pg)"
  unfolding quiet_def
proof (intro conjI allI)
  fix job ex ex' s
  obtain out s' where h: "pg_handler pg job (ex, s) = (out, ex, s')" "pg_handler pg job (ex', s) = (out, ex', s')"
    using assms unfolding quiet_def by (metis prod.collapse)
  note h = work_handler [OF h(1)] work_handler [OF h(2)]
  show "fst (snd (pg_handler (work_program pg) job (ex, s))) = ex" using h by simp
  show "fst (pg_handler (work_program pg) job (ex, s)) = fst (pg_handler (work_program pg) job (ex', s))" using h by simp
  show "snd (snd (pg_handler (work_program pg) job (ex, s))) = snd (snd (pg_handler (work_program pg) job (ex', s)))" using h by simp
next
  show "fst (pg_task (work_program pg) t (ex, s)) = ex" for t ex s using assms by (simp add: quiet_def)
  show "snd (pg_task (work_program pg) t (ex, s)) = snd (pg_task (work_program pg) t (ex', s))" for t ex ex' s
    using assms unfolding quiet_def work_program_sel by blast
qed

section \<open>Ownership of packets\<close>

definition packets_ok :: "'s workshop \<Rightarrow> bool" where
  "packets_ok s \<longleftrightarrow> ws_dangling s = [] \<and> (\<forall>a p. ws_packets s a = Some p \<longrightarrow> pk_wf p)"

definition owned :: "('h, 'p) work list \<Rightarrow> nat list" where
  "owned jobs = concat (map work_packets jobs)"

lemma owned_simps [simp]: "owned [] = []" "owned (j # js) = work_packets j @ owned js" "owned (js @ ks) = owned js @ owned ks"
  by (simp_all add: owned_def)

text \<open>Every packet of a queued work is alive and has no other owner.\<close>

definition owners_ok :: "('h, 'p) work list \<Rightarrow> 's workshop \<Rightarrow> bool" where
  "owners_ok jobs s \<longleftrightarrow> packets_ok s \<and> distinct (owned jobs) \<and> set (owned jobs) \<subseteq> dom (ws_packets s)"

text \<open>
  What a handler may do: read packets, make new ones, change the rest of the state; it does not destroy the packets of works, and the next
  work it returns owns no packet.
\<close>

definition keeps_packets :: "'s workshop \<Rightarrow> 's workshop \<Rightarrow> bool" where
  "keeps_packets s s' \<longleftrightarrow> ws_destroyed s' = ws_destroyed s \<and> dom (ws_packets s) \<subseteq> dom (ws_packets s') \<and> (packets_ok s \<longrightarrow> packets_ok s')"

definition polite :: "(('h, 'p) work, 't, 's workshop) program \<Rightarrow> bool" where
  "polite pg \<longleftrightarrow> quiet pg \<and> works_within keeps_packets pg
     \<and> (\<forall>job st next. fst (pg_handler pg job st) = Done (Some next) \<longrightarrow> work_packets next = [])"

lemma keeps_packets_owners: "keeps_packets s s' \<Longrightarrow> owners_ok jobs s \<Longrightarrow> owners_ok jobs s' \<and> ws_destroyed s' = ws_destroyed s"
  unfolding keeps_packets_def owners_ok_def by (meson subset_trans)

lemma delete_work_owners:
  assumes "owners_ok (job # jobs) s"
  shows "owners_ok jobs (delete_work job s) \<and> ws_destroyed (delete_work job s) = ws_destroyed s @ work_packets job"
proof (cases job)
  case (ClientWork h c a)
  then obtain p where p: "ws_packets s a = Some p" "pk_wf p" using assms by (auto simp: owners_ok_def packets_ok_def)
  then obtain opc where "Packet_destroy p (ws_rx s) = Inr (onPacketDestroyed opc (ws_rx s))" using Packet_destroy_total by blast
  then show ?thesis using ClientWork p(1) assms by (auto simp: destroy_packet_def owners_ok_def packets_ok_def)
qed (use assms in \<open>simp_all add: owners_ok_def\<close>)

lemma owners_ok_Cons: "owners_ok (job # jobs) s \<Longrightarrow> work_packets job = [] \<Longrightarrow> owners_ok jobs s"
  by (simp add: owners_ok_def)

lemma jobs_ref_owners:
  assumes "polite pg" and "owners_ok jobs s" and "jobs_ref (work_program pg) ex0 jobs s = (ok, rest, resched, s')"
  shows "ws_destroyed s' @ owned rest = ws_destroyed s @ owned jobs \<and> owners_ok rest s' \<and> owned resched = []
    \<and> length rest + length resched \<le> length jobs"
  using assms(2,3)
proof (induction jobs arbitrary: s resched)
  case (Cons job jobs)
  obtain out s1 where h: "pg_handler pg job (ex0, s) = (out, ex0, s1)"
    using assms(1) unfolding polite_def quiet_def by (metis prod.collapse)
  have keeps: "keeps_packets s s1" using assms(1) h unfolding polite_def works_within_def by (metis snd_conv)
  note o1 = keeps_packets_owners [OF keeps Cons.prems(1)]
  show ?case
  proof (cases "work_ready job s")
    case False
    then have np: "work_packets job = []" by (cases job) auto
    obtain r where r: "jobs_ref (work_program pg) ex0 jobs s = (ok, rest, r, s')" "resched = job # r"
      using Cons.prems(2) False by (auto split: prod.splits)
    then show ?thesis using Cons.IH [OF owners_ok_Cons [OF Cons.prems(1) np] r(1)] np by simp
  next
    case True
    show ?thesis
    proof (cases out)
      case Threw
      let ?e = "pg_onWorkError pg job s1"
      have "keeps_packets s1 ?e" using assms(1) unfolding polite_def works_within_def by blast
      then have "owners_ok (job # jobs) ?e" "ws_destroyed ?e = ws_destroyed s" using keeps_packets_owners o1 by fastforce+
      then show ?thesis using delete_work_owners Cons.prems(2) True work_handler [OF h] Threw by fastforce
    next
      case (Done nxt)
      let ?d = "delete_work job s1"
      have d: "owners_ok jobs ?d" "ws_destroyed ?d = ws_destroyed s @ work_packets job" using delete_work_owners o1 by fastforce+
      obtain r where r: "jobs_ref (work_program pg) ex0 jobs ?d = (ok, rest, r, s')" "resched = (case nxt of None \<Rightarrow> [] | Some j \<Rightarrow> [j]) @ r"
        using Cons.prems(2) True work_handler [OF h] Done by (auto split: prod.splits)
      have "owned (case nxt of None \<Rightarrow> [] | Some j \<Rightarrow> [j]) = []"
        using assms(1) h Done unfolding polite_def by (cases nxt) (auto, metis fst_conv)
      then show ?thesis using Cons.IH [OF d(1) r(1)] d(2) r(2) by (auto split: option.split)
    qed
  qed
qed simp

lemma tasks_keep_owners:
  assumes "polite pg" and "owners_ok jobs s"
  shows "owners_ok jobs (fold (\<lambda>t s. snd (pg_task pg t (ex, s))) ts s) \<and> ws_destroyed (fold (\<lambda>t s. snd (pg_task pg t (ex, s))) ts s) = ws_destroyed s"
  using assms(2)
proof (induction ts arbitrary: s)
  case (Cons t ts)
  have "keeps_packets s (snd (pg_task pg t (ex, s)))" using assms(1) unfolding polite_def works_within_def by blast
  from keeps_packets_owners [OF this Cons.prems] Cons.IH show ?case by simp
qed simp

text \<open>What holds of an executor between its passes.\<close>

definition executor_ok :: "nat \<Rightarrow> nat \<Rightarrow> (('h, 'p) work, 't) executor \<Rightarrow> 's workshop \<Rightarrow> bool" where
  "executor_ok n c ex s \<longleftrightarrow> owners_ok (items (ex_jobs ex)) s \<and> cap (ex_jobs ex) = Some c \<and> length (items (ex_jobs ex)) < n
     \<and> length (ex_tasks ex) < n \<and> distinct (map st_addr (ex_tasks ex))"

lemma owned_take: "owned js = [] \<Longrightarrow> owned (take c js) = []"
  by (induction js arbitrary: c) (simp_all add: take_Cons')

lemma work_pass:
  assumes "polite pg" and "executor_ok n c ex s"
  shows "\<exists>ex' s'. executeJobs n (work_program pg) now (ex, s) = Inr (ex', s') \<and> executor_ok n c ex' s'
    \<and> ws_destroyed s' @ owned (items (ex_jobs ex')) = ws_destroyed s @ owned (items (ex_jobs ex))"
proof -
  obtain ok rest resched s1 where ref: "jobs_ref (work_program pg) ex (items (ex_jobs ex)) s = (ok, rest, resched, s1)"
    by (metis prod_cases4)
  have q: "quiet (work_program pg)" using assms(1) quiet_work_program by (auto simp: polite_def)
  note e = assms(2) [unfolded executor_ok_def]
  note own = jobs_ref_owners [OF assms(1) _ ref]
  have own: "ws_destroyed s1 @ owned rest = ws_destroyed s @ owned (items (ex_jobs ex))" "owners_ok rest s1" "owned resched = []"
      "length rest + length resched \<le> length (items (ex_jobs ex))"
    using own e by blast+
  obtain ex' s' ts where x: "executeJobs n (work_program pg) now (ex, s) = Inr (ex', s')"
    "ex_jobs ex' = (ex_jobs ex)\<lparr>items := if ok then take c resched else rest\<rparr>"
    "if ok then ex_tasks ex' = [] \<or> ex_tasks ex' = ex_tasks ex else ex_tasks ex' = ex_tasks ex \<and> s' = s1"
    "s' = fold (\<lambda>t s. snd (pg_task pg t (ex, s))) ts s1"
    using executeJobs_ref [OF q _ _ _ _ ref, of n c now] e by (auto simp only: work_program_sel)
  have rest: "ok \<Longrightarrow> rest = []" using ref jobs_ref_ok [of "work_program pg" ex "items (ex_jobs ex)" s rest resched s1] by simp
  let ?js = "items (ex_jobs ex')"
  have js: "owned ?js = owned rest" "length ?js \<le> length (items (ex_jobs ex))" using x(2) own(3,4) rest owned_take by (auto simp: min_def)
  have "owners_ok ?js s1" using own(2) js(1) by (simp add: owners_ok_def)
  then have "owners_ok ?js s'" "ws_destroyed s' = ws_destroyed s1" using tasks_keep_owners [OF assms(1)] x(4) by blast+
  moreover have "length (ex_tasks ex') \<le> length (ex_tasks ex)" "distinct (map st_addr (ex_tasks ex'))" using x(3) e by (auto split: if_splits)
  ultimately show ?thesis using x(1,2) js own(1) e by (simp add: executor_ok_def)
qed

lemma work_passes:
  assumes "polite pg" and "executor_ok n c ex s"
  shows "\<exists>ex' s'. rfold (executeJobs n (work_program pg)) nows (ex, s) = Inr (ex', s') \<and> executor_ok n c ex' s'
    \<and> ws_destroyed s' @ owned (items (ex_jobs ex')) = ws_destroyed s @ owned (items (ex_jobs ex))"
  using assms(2)
proof (induction nows arbitrary: ex s)
  case (Cons t nows)
  obtain ex1 s1 where 1: "executeJobs n (work_program pg) t (ex, s) = Inr (ex1, s1)" "executor_ok n c ex1 s1"
    "ws_destroyed s1 @ owned (items (ex_jobs ex1)) = ws_destroyed s @ owned (items (ex_jobs ex))"
    using work_pass [OF assms(1) Cons.prems] by blast
  from Cons.IH [OF 1(2)] 1 show ?case by simp
qed simp

lemma delete_works_owners:
  "owners_ok jobs s \<Longrightarrow> packets_ok (fold delete_work jobs s) \<and> ws_destroyed (fold delete_work jobs s) = ws_destroyed s @ owned jobs"
proof (induction jobs arbitrary: s)
  case (Cons job jobs)
  from delete_work_owners [OF Cons.prems] Cons.IH show ?case by simp
qed (simp add: owners_ok_def)

text \<open>
  C25. Every packet of a queued work is destroyed exactly once: after any number of passes of \<^verbatim>\<open>executeJobs\<close>, whatever the handlers return or throw, and the
  destructor of the executor, the packets destroyed are exactly those the works owned, in the order of the queue, and none was destroyed
  when it was not alive.
\<close>

theorem packets_destroyed_once:
  assumes "polite pg" and "executor_ok n c ex s"
  shows "\<exists>ex' s'. rfold (executeJobs n (work_program pg)) nows (ex, s) = Inr (ex', s')
    \<and> ws_destroyed (Executor_delete ex' s') = ws_destroyed s @ owned (items (ex_jobs ex)) \<and> ws_dangling (Executor_delete ex' s') = []"
proof -
  obtain ex' s' where x: "rfold (executeJobs n (work_program pg)) nows (ex, s) = Inr (ex', s')" "executor_ok n c ex' s'"
    "ws_destroyed s' @ owned (items (ex_jobs ex')) = ws_destroyed s @ owned (items (ex_jobs ex))"
    using work_passes [OF assms] by blast
  have "owners_ok (items (ex_jobs ex')) s'" using x(2) by (simp add: executor_ok_def)
  note delete_works_owners [OF this, folded Executor_delete_def]
  then show ?thesis using x by (auto simp: packets_ok_def)
qed

section \<open>Waiting for queries\<close>

definition keeps_done :: "'s workshop \<Rightarrow> 's workshop \<Rightarrow> bool" where
  "keeps_done s s' \<longleftrightarrow> db_done (ws_db s') = db_done (ws_db s)"

lemma work_ready_cong: "keeps_done s s' \<Longrightarrow> work_ready job s' = work_ready job s"
  by (cases job) (simp_all add: keeps_done_def)

lemma delete_keeps_done: "keeps_done s (delete_work job s)"
  by (cases job) (simp_all add: keeps_done_def destroy_packet_def split: option.splits sum.splits)

lemma keeps_done_trans: "keeps_done s t \<Longrightarrow> keeps_done t u \<Longrightarrow> keeps_done s u"
  by (simp add: keeps_done_def)

text \<open>Handlers that return and ask for no next work leave exactly the works that are not ready.\<close>

lemma jobs_ref_futures:
  assumes "quiet pg" and "works_within keeps_done pg" and "\<forall>job st. fst (pg_handler pg job st) = Done None"
  shows "\<exists>s'. jobs_ref (work_program pg) ex0 jobs s = (True, [], filter (\<lambda>j. \<not> work_ready j s) jobs, s')"
proof (induction jobs arbitrary: s)
  case (Cons job jobs)
  obtain s1 where h: "pg_handler pg job (ex0, s) = (Done None, ex0, s1)"
    using assms(1,3) unfolding quiet_def by (metis prod.collapse)
  have "keeps_done s s1" using assms(2) h unfolding works_within_def by (metis snd_conv)
  then have "keeps_done s (delete_work job s1)" using delete_keeps_done keeps_done_trans by blast
  then have "filter (\<lambda>j. \<not> work_ready j (delete_work job s1)) jobs = filter (\<lambda>j. \<not> work_ready j s) jobs"
    by (simp add: work_ready_cong)
  then show ?case using Cons.IH [of s] Cons.IH [of "delete_work job s1"] work_handler [OF h] by auto
qed simp

lemma worker_runs_all:
  assumes "i < length (db_workers d)" and "db_workers d ! i = Testing" and "\<not> db_stop d"
  shows "db_done (run_worker (3 * length (items (db_queue d)) + 2) i d) = db_done d @ items (db_queue d)"
  using worker_drains [OF assms] by auto


section \<open>A program of works\<close>

text \<open>The handler with number 9 throws if \<open>b\<close>; the others write the client of the work to the state.\<close>

definition clerk :: "bool \<Rightarrow> ((nat, unit) work, unit, nat list workshop) program" where
  "clerk b =
     \<lparr>pg_ready = work_ready,
      pg_handler = (\<lambda>job (ex, s). (if b \<and> executor_of job = 9 then Threw else Done None, ex, s\<lparr>ws_app := ws_app s @ [executor_of job]\<rparr>)),
      pg_onWorkError = (\<lambda>job s. s),
      pg_task = (\<lambda>t st. st)\<rparr>"

definition blank_packet :: packet where
  "blank_packet = \<lparr>pk_read = 0, pk_size = 0, pk_write = 0, pk_refs = 0, pk_buffer = replicate 1024 0\<rparr>"

definition busy :: "nat list workshop" where
  "busy = \<lparr>ws_packets = (\<lambda>a. if a < 8 then Some blank_packet else None), ws_destroyed = [], ws_dangling = [],
     ws_rx = Reactive_new True 0 zero_counters, ws_db = two_queries, ws_app = []\<rparr>"

definition desk :: "((nat, unit) work, unit) executor" where
  "desk = \<lparr>ex_jobs = \<lparr>cap = Some 16, items = [ClientWork 0 1 5, FutureWork 0 2 0, FutureWork 0 3 7, ClientWork 0 9 6, ClientWork 0 4 3]\<rparr>,
     ex_tasks = [], ex_addr = 0\<rparr>"

lemma clerk_quiet: "quiet (clerk b)"
  by (simp add: quiet_def clerk_def)

lemma clerk_polite: "polite (clerk b)"
  using clerk_quiet [of b] by (simp add: polite_def works_within_def keeps_packets_def packets_ok_def clerk_def split: prod.split)

lemma desk_ok: "executor_ok 9 16 desk busy"
  by (simp add: executor_ok_def owners_ok_def packets_ok_def desk_def busy_def blank_packet_def pk_wf_def BUFFER_SIZE_def bufferLen_def dom_def split: if_splits)

theorem packets_destroyed_once_witness:
  "\<exists>ex' s'. rfold (executeJobs 9 (work_program (clerk True))) [10, 20] (desk, busy) = Inr (ex', s')
     \<and> ws_destroyed (Executor_delete ex' s') = [5, 6, 3] \<and> ws_dangling (Executor_delete ex' s') = []"
  using packets_destroyed_once [OF clerk_polite desk_ok, of True "[10, 20]"] by (simp add: desk_def busy_def)


end
