(* ===== verification/Legacy_Map.thy ===== *)
theory Legacy_Map
  imports Hex_Grid Reactive
begin

text \<open>
  The older map (\<^verbatim>\<open>src/map-slow-radius\<close>): cells indexed by the hash of their offset, clusters that spread from a
  center ring by ring, a cache of the rings, and the merging of clusters that touch. Cells and
  cluster centers live at addresses and are never freed; unordered maps are lists in the order of insertion. The virtual functions of entities (\<^verbatim>\<open>client\<close>,
  \<^verbatim>\<open>id\<close>, \<^verbatim>\<open>update\<close>, \<^verbatim>\<open>onAdded\<close>, \<^verbatim>\<open>onRemoved\<close>) have no definition in the sources: the first two are fields of
  \<open>legacy_env\<close> and the calls of the others are recorded as events.
\<close>

section \<open>Data\<close>

datatype legacy_fault = NullCluster | NoSuchCell | OutOfRings

record legacy_cell =
  lc_offset :: offset
  lc_siblingsDone :: bool
  lc_data :: "(uint32 \<times> nat) list"
  lc_playerData :: "(uint32 \<times> nat) list"
  lc_cluster :: "nat option"

record cluster_center =
  cc_center :: nat
  cc_mergeSignaled :: bool

datatype legacy_cluster_op = MERGE nat nat | RING_INVALIDATION nat int32

datatype legacy_op_type = ADD_ENTITY_CREATE | LEGACY_REMOVE_ENTITY | LEGACY_DESTROY

record legacy_map_op =
  lo_type :: legacy_op_type
  lo_offset :: offset
  lo_entity :: nat

datatype legacy_event = Updated nat | Added nat nat | Removed nat nat

record legacy_map =
  lm_cells :: "nat \<Rightarrow> legacy_cell option"
  lm_centers :: "nat \<Rightarrow> cluster_center option"
  lm_next :: nat
  lm_index :: "(uint64 \<times> nat) list"
  lm_ops :: "legacy_map_op bqueue counted_queue"
  lm_clusterOps :: "legacy_cluster_op bqueue counted_queue"
  lm_unique :: "nat list"
  lm_cache :: "nat \<Rightarrow> uint16 \<Rightarrow> nat option list option"
  lm_fetchCurrent :: uint32
  lm_events :: "legacy_event list"

record legacy_env =
  le_client :: "nat \<Rightarrow> bool"
  le_id :: "nat \<Rightarrow> uint32"

definition Legacy_Map_new :: legacy_map where
  "Legacy_Map_new = \<lparr>lm_cells = (\<lambda>_. None), lm_centers = (\<lambda>_. None), lm_next = 0, lm_index = [],
     lm_ops = \<lparr>cq_queue = \<lparr>cap = None, items = []\<rparr>, cq_counter = 0\<rparr>,
     lm_clusterOps = \<lparr>cq_queue = \<lparr>cap = None, items = []\<rparr>, cq_counter = 0\<rparr>,
     lm_unique = [], lm_cache = (\<lambda>_ _. None), lm_fetchCurrent = 0, lm_events = []\<rparr>"

section \<open>Positions\<close>

text \<open>\<^verbatim>\<open>cos(15 * M_PI / 180.0) * cellSize\<close> as a \<^verbatim>\<open>double\<close>.\<close>

definition slopeX :: rat where
  "slopeX = 1223477772565215 / 140737488355328"

definition cellSize :: int where
  "cellSize = 9"

definition to_zero :: "rat \<Rightarrow> int" where
  "to_zero x = (if x < 0 then \<lceil>x\<rceil> else \<lfloor>x\<rfloor>)"

text \<open>Both coordinates are cut off towards zero.\<close>

definition legacy_offsetOf :: "int32 \<Rightarrow> int32 \<Rightarrow> offset" where
  "legacy_offsetOf x y =
     Offset (word_of_int (to_zero (rnd64 (of_int (sint x) / slopeX))))
            (word_of_int (to_zero (of_int (sint y) / of_int cellSize)))"

section \<open>Cells\<close>

definition legacy_cell_at :: "nat \<Rightarrow> legacy_map \<Rightarrow> legacy_fault + legacy_cell" where
  "legacy_cell_at a m = (case lm_cells m a of None \<Rightarrow> Inl NoSuchCell | Some c \<Rightarrow> Inr c)"

definition put_cell :: "nat \<Rightarrow> legacy_cell \<Rightarrow> legacy_map \<Rightarrow> legacy_map" where
  "put_cell a c m = m\<lparr>lm_cells := (lm_cells m)(a := Some c)\<rparr>"

definition legacy_get :: "legacy_map \<Rightarrow> int32 \<Rightarrow> int32 \<Rightarrow> nat option" where
  "legacy_get m q r = map_of (lm_index m) (offset_hash (Offset q r))"

definition upperHalfSiblings :: "legacy_map \<Rightarrow> offset \<Rightarrow> uint16 \<Rightarrow> nat option list" where
  "upperHalfSiblings m p deviation =
     (let d = ucast deviation; q = off_q p; r = off_r p
      in [legacy_get m (q + 0 * d) (r - 1 * d), legacy_get m (q + 1 * d) (r - 1 * d), legacy_get m (q + 1 * d) (r + 0 * d)])"

definition lowerHalfSiblings :: "legacy_map \<Rightarrow> offset \<Rightarrow> uint16 \<Rightarrow> nat option list" where
  "lowerHalfSiblings m p deviation =
     (let d = ucast deviation; q = off_q p; r = off_r p
      in [legacy_get m (q + 0 * d) (r + 1 * d), legacy_get m (q - 1 * d) (r + 1 * d), legacy_get m (q - 1 * d) (r + 0 * d)])"

text \<open>\<^verbatim>\<open>Cell::ring\<close> is the walk of the current map; a missing cell is null.\<close>

definition legacy_ring :: "nat \<Rightarrow> uint16 \<Rightarrow> legacy_map \<Rightarrow> legacy_fault + nat option list" where
  "legacy_ring a radius m = rbind (legacy_cell_at a m) (\<lambda>c. Inr (ring (legacy_get m) (lc_offset c) radius))"

definition legacy_Cell_update :: "nat \<Rightarrow> legacy_map \<Rightarrow> legacy_fault + legacy_map" where
  "legacy_Cell_update a m =
     rbind (legacy_cell_at a m) (\<lambda>c.
       Inr (m\<lparr>lm_events := lm_events m @ map (Updated \<circ> snd) (lc_playerData c) @ map (Updated \<circ> snd) (lc_data c)\<rparr>))"

section \<open>Clusters\<close>

definition push_cluster :: "legacy_cluster_op \<Rightarrow> legacy_map \<Rightarrow> legacy_map" where
  "push_cluster op m = m\<lparr>lm_clusterOps := fst (cq_push bq_push op (lm_clusterOps m))\<rparr>"

definition set_cluster :: "nat \<Rightarrow> nat \<Rightarrow> legacy_map \<Rightarrow> legacy_fault + legacy_map" where
  "set_cluster k a m = rbind (legacy_cell_at a m) (\<lambda>c. Inr (put_cell a (c\<lparr>lc_cluster := Some k\<rparr>) m))"

text \<open>
  \<^verbatim>\<open>Cluster::add\<close>: a new cluster of the node and its siblings. The rings to forget are those around the center of
  the new cluster, which is the node itself, at distances -1, 0 and 1.
\<close>

definition legacy_Cluster_add :: "nat \<Rightarrow> nat list \<Rightarrow> legacy_map \<Rightarrow> legacy_fault + legacy_map" where
  "legacy_Cluster_add node siblings m =
     (let k = lm_next m;
          m = m\<lparr>lm_centers := (lm_centers m)(k \<mapsto> \<lparr>cc_center = node, cc_mergeSignaled = False\<rparr>), lm_next := k + 1, lm_unique := lm_unique m @ [k]\<rparr>
      in rbind (set_cluster k node m) (\<lambda>m.
         rbind (rfold (set_cluster k) siblings m) (\<lambda>m.
         rbind (legacy_cell_at node m) (\<lambda>c.
           Inr (fold (\<lambda>d. push_cluster (RING_INVALIDATION k (distance (lc_offset c) (lc_offset c) + d))) [- 1, 0, 1] m)))))"

text \<open>\<^verbatim>\<open>getRing\<close>: the cached ring, made when it is missing; or forgotten, with the empty placeholder.\<close>

definition getRing :: "nat \<Rightarrow> uint16 \<Rightarrow> bool \<Rightarrow> bool \<Rightarrow> legacy_map \<Rightarrow> legacy_fault + (nat option list \<times> legacy_map)" where
  "getRing ctr radius invalidate recreate m =
     (if invalidate \<or> lm_cache m ctr radius = None then
        if recreate then
          rbind (legacy_ring ctr radius m) (\<lambda>ns.
            Inr (ns, m\<lparr>lm_cache := (lm_cache m)(ctr := (lm_cache m ctr)(radius := Some ns))\<rparr>))
        else Inr ([], m\<lparr>lm_cache := (lm_cache m)(ctr := (lm_cache m ctr)(radius := None))\<rparr>)
      else Inr (the (lm_cache m ctr radius), m))"

type_synonym visit = "nat \<Rightarrow> legacy_map \<Rightarrow> legacy_fault + (bool \<times> legacy_map)"

text \<open>One node of a ring, null or not.\<close>

definition visit_node :: "visit \<Rightarrow> nat option \<Rightarrow> nat \<times> legacy_map \<Rightarrow> legacy_fault + (nat \<times> legacy_map)" where
  "visit_node fnc node st =
     (case node of
        None \<Rightarrow> Inr st
      | Some a \<Rightarrow> rbind (fnc a (snd st)) (\<lambda>(b, m). Inr (fst st + (if b then 1 else 0), m)))"

text \<open>
  The loop of \<^verbatim>\<open>propagate\<close>. The radius is a \<^verbatim>\<open>uint16_t\<close> that wraps around to the empty ring of radius 0, so
  \<open>2^16\<close> rounds are enough.
\<close>

fun propagate_rings :: "nat \<Rightarrow> nat \<Rightarrow> visit \<Rightarrow> uint16 \<Rightarrow> legacy_map \<Rightarrow> legacy_fault + (uint16 \<times> legacy_map)" where
  "propagate_rings 0 ctr fnc radius m = Inl OutOfRings"
| "propagate_rings (Suc n) ctr fnc radius m =
     rbind (getRing ctr (radius + 1) False True m) (\<lambda>(nodes, m).
     rbind (rfold (visit_node fnc) nodes (0, m)) (\<lambda>(callCount, m).
       if 0 < callCount then propagate_rings n ctr fnc (radius + 1) m else Inr (radius + 1, m)))"

definition propagate :: "nat \<Rightarrow> visit \<Rightarrow> legacy_map \<Rightarrow> legacy_fault + (uint16 \<times> legacy_map)" where
  "propagate ctr fnc m = rbind (fnc ctr m) (\<lambda>(b, m). propagate_rings (2 ^ 16) ctr fnc 0 m)"

text \<open>The function that \<^verbatim>\<open>update\<close> propagates for a cluster.\<close>

definition update_node :: "nat \<Rightarrow> visit" where
  "update_node k a m =
     rbind (legacy_cell_at a m) (\<lambda>c.
       if lc_cluster c = Some k then rbind (legacy_Cell_update a m) (\<lambda>m. Inr (True, m))
       else case (lc_cluster c, lm_centers m k) of
              (Some j, Some ck) \<Rightarrow>
                (case lm_centers m j of
                   None \<Rightarrow> Inl NullCluster
                 | Some cj \<Rightarrow>
                     if \<not> cc_mergeSignaled cj \<and> \<not> cc_mergeSignaled ck
                     then Inr (False, (push_cluster (MERGE j k) m)\<lparr>lm_centers := (lm_centers m)(k \<mapsto> ck\<lparr>cc_mergeSignaled := True\<rparr>)\<rparr>)
                     else Inr (False, m))
            | _ \<Rightarrow> Inl NullCluster)"

definition update_cluster :: "nat \<Rightarrow> legacy_map \<Rightarrow> legacy_fault + legacy_map" where
  "update_cluster k m =
     (case lm_centers m k of
        None \<Rightarrow> Inl NullCluster
      | Some ck \<Rightarrow> rbind (propagate (cc_center ck) (update_node k) m) (\<lambda>(r, m). Inr m))"

definition legacy_Cluster_update :: "legacy_map \<Rightarrow> legacy_fault + legacy_map" where
  "legacy_Cluster_update m =
     rbind (rfold update_cluster (lm_unique m) m) (\<lambda>m. Inr (m\<lparr>lm_fetchCurrent := lm_fetchCurrent m + 1\<rparr>))"

definition move_node :: "nat \<Rightarrow> nat \<Rightarrow> visit" where
  "move_node c2 c1 a m =
     rbind (legacy_cell_at a m) (\<lambda>c.
       if lc_cluster c = Some c2 then Inr (True, put_cell a (c\<lparr>lc_cluster := Some c1\<rparr>) m) else Inr (False, m))"

definition run_merge :: "nat \<Rightarrow> nat \<Rightarrow> legacy_map \<Rightarrow> legacy_fault + legacy_map" where
  "run_merge c1 c2 m =
     (if c1 \<in> set (lm_unique m) \<and> c2 \<in> set (lm_unique m) then
        case lm_centers m c2 of
          None \<Rightarrow> Inl NullCluster
        | Some ck \<Rightarrow>
            rbind (propagate (cc_center ck) (move_node c2 c1) m) (\<lambda>(r, m). Inr (m\<lparr>lm_unique := remove1 c2 (lm_unique m)\<rparr>))
      else Inr m)"

definition run_cluster_op :: "legacy_cluster_op \<Rightarrow> legacy_map \<Rightarrow> legacy_fault + legacy_map" where
  "run_cluster_op op m =
     (case op of
        MERGE c1 c2 \<Rightarrow> run_merge c1 c2 m
      | RING_INVALIDATION k radius \<Rightarrow>
          (case lm_centers m k of
             None \<Rightarrow> Inl NullCluster
           | Some ck \<Rightarrow> rbind (getRing (cc_center ck) (ucast radius) True False m) (\<lambda>(ns, m). Inr m)))"

definition drop_cluster_op :: "legacy_map \<Rightarrow> legacy_map" where
  "drop_cluster_op m = (case cq_pop bq_pop (lm_clusterOps m) of None \<Rightarrow> m | Some (q, _) \<Rightarrow> m\<lparr>lm_clusterOps := q\<rparr>)"

text \<open>No operation queues another, so the loop runs over what is queued at its beginning.\<close>

definition legacy_Cluster_run :: "legacy_map \<Rightarrow> legacy_fault + legacy_map" where
  "legacy_Cluster_run m =
     rfold (\<lambda>op m. run_cluster_op op (drop_cluster_op m)) (items (cq_queue (lm_clusterOps m))) m"

section \<open>The map\<close>

definition create_cell :: "offset \<Rightarrow> legacy_map \<Rightarrow> nat \<times> legacy_map" where
  "create_cell p m =
     (case legacy_get m (off_q p) (off_r p) of
        Some a \<Rightarrow> (a, m)
      | None \<Rightarrow>
          let a = lm_next m
          in (a, m\<lparr>lm_cells := (lm_cells m)(a \<mapsto> \<lparr>lc_offset = p, lc_siblingsDone = False, lc_data = [], lc_playerData = [], lc_cluster = None\<rparr>),
                   lm_next := a + 1, lm_index := (offset_hash p, a) # lm_index m\<rparr>))"

fun create_cells :: "offset list \<Rightarrow> legacy_map \<Rightarrow> nat list \<times> legacy_map" where
  "create_cells [] m = ([], m)"
| "create_cells (p # ps) m =
     (let (a, m) = create_cell p m; (as, m) = create_cells ps m in (a # as, m))"

definition legacy_createSiblings :: "offset \<Rightarrow> legacy_map \<Rightarrow> nat list \<times> legacy_map" where
  "legacy_createSiblings p m = create_cells (sibling_offsets p) m"

definition legacy_getOrCreate :: "offset \<Rightarrow> bool \<Rightarrow> legacy_map \<Rightarrow> legacy_fault + (nat \<times> legacy_map)" where
  "legacy_getOrCreate p siblings m =
     (let (a, m) = create_cell p m
      in rbind (legacy_cell_at a m) (\<lambda>c.
         if siblings \<and> \<not> lc_siblingsDone c then
           let (as, m) = legacy_createSiblings (lc_offset c) m
           in rbind (legacy_Cluster_add a as m) (\<lambda>m.
              rbind (legacy_cell_at a m) (\<lambda>c. Inr (a, put_cell a (c\<lparr>lc_siblingsDone := True\<rparr>) m)))
         else Inr (a, m)))"

text \<open>\<^verbatim>\<open>emplace\<close> keeps an entry that is there.\<close>

definition emplace :: "uint32 \<Rightarrow> nat \<Rightarrow> (uint32 \<times> nat) list \<Rightarrow> (uint32 \<times> nat) list" where
  "emplace i e xs = (if i \<in> fst ` set xs then xs else xs @ [(i, e)])"

definition legacy_run_op :: "legacy_env \<Rightarrow> legacy_map_op \<Rightarrow> legacy_map \<Rightarrow> legacy_fault + legacy_map" where
  "legacy_run_op le op m =
     (let e = lo_entity op; i = le_id le e
      in case lo_type op of
           ADD_ENTITY_CREATE \<Rightarrow>
             rbind (legacy_getOrCreate (lo_offset op) True m) (\<lambda>(a, m).
             rbind (legacy_cell_at a m) (\<lambda>c.
               let c = (if le_client le e then c\<lparr>lc_playerData := emplace i e (lc_playerData c)\<rparr> else c\<lparr>lc_data := emplace i e (lc_data c)\<rparr>)
               in Inr ((put_cell a c m)\<lparr>lm_events := lm_events m @ [Added e a]\<rparr>)))
         | LEGACY_REMOVE_ENTITY \<Rightarrow>
             (case legacy_get m (off_q (lo_offset op)) (off_r (lo_offset op)) of
                None \<Rightarrow> Inr m
              | Some a \<Rightarrow>
                  rbind (legacy_cell_at a m) (\<lambda>c.
                    let c = (if le_client le e then c\<lparr>lc_playerData := filter (\<lambda>p. fst p \<noteq> i) (lc_playerData c)\<rparr>
                             else c\<lparr>lc_data := filter (\<lambda>p. fst p \<noteq> i) (lc_data c)\<rparr>)
                    in Inr ((put_cell a c m)\<lparr>lm_events := lm_events m @ [Removed e a]\<rparr>)))
         | LEGACY_DESTROY \<Rightarrow> Inr m)"

definition legacy_addTo :: "offset \<Rightarrow> nat \<Rightarrow> legacy_map \<Rightarrow> legacy_map" where
  "legacy_addTo p e m = m\<lparr>lm_ops := fst (cq_push bq_push \<lparr>lo_type = ADD_ENTITY_CREATE, lo_offset = p, lo_entity = e\<rparr> (lm_ops m))\<rparr>"

definition addTo2D :: "int32 \<Rightarrow> int32 \<Rightarrow> nat \<Rightarrow> legacy_map \<Rightarrow> legacy_map" where
  "addTo2D x y e m = legacy_addTo (legacy_offsetOf x y) e m"

definition drop_map_op :: "legacy_map \<Rightarrow> legacy_map" where
  "drop_map_op m = (case cq_pop bq_pop (lm_ops m) of None \<Rightarrow> m | Some (q, _) \<Rightarrow> m\<lparr>lm_ops := q\<rparr>)"

definition legacy_runScheduledOperations :: "legacy_env \<Rightarrow> legacy_map \<Rightarrow> legacy_fault + legacy_map" where
  "legacy_runScheduledOperations le m =
     rfold (\<lambda>op m. legacy_run_op le op (drop_map_op m)) (items (cq_queue (lm_ops m))) m"

end
