(* ===== verification/Legacy_Clusters.thy ===== *)
theory Legacy_Clusters
  imports Legacy_Map
begin

text \<open>
  The older map never faults: the invariant of its index, its clusters, its cache and its queues is kept by every operation, the
  rings of a cluster are walked to the end, and every queued merge is carried out.
\<close>

section \<open>The invariant\<close>

definition index_ok :: "legacy_map \<Rightarrow> bool" where
  "index_ok m \<longleftrightarrow> (\<forall>a c. lm_cells m a = Some c \<longrightarrow> a < lm_next m \<and> map_of (lm_index m) (offset_hash (lc_offset c)) = Some a)
     \<and> (\<forall>h a. map_of (lm_index m) h = Some a \<longrightarrow> (\<exists>c. lm_cells m a = Some c \<and> offset_hash (lc_offset c) = h))"

definition centers_ok :: "legacy_map \<Rightarrow> bool" where
  "centers_ok m \<longleftrightarrow> distinct (lm_unique m) \<and> (\<forall>k\<in>set (lm_unique m). lm_centers m k \<noteq> None)
     \<and> (\<forall>k ck. lm_centers m k = Some ck \<longrightarrow> k < lm_next m \<and> lm_cells m (cc_center ck) \<noteq> None)"

text \<open>Cached cells are alive, and the ring of radius 0 is empty.\<close>

definition cache_ok :: "legacy_map \<Rightarrow> bool" where
  "cache_ok m \<longleftrightarrow> (\<forall>a r ns. lm_cache m a r = Some ns \<longrightarrow> (\<forall>n. Some n \<in> set ns \<longrightarrow> lm_cells m n \<noteq> None) \<and> (r = 0 \<longrightarrow> ns = []))"

text \<open>Every cell has a cluster, the cells of \<open>U\<close> excepted.\<close>

definition clustered :: "nat set \<Rightarrow> legacy_map \<Rightarrow> bool" where
  "clustered U m \<longleftrightarrow> (\<forall>a c. lm_cells m a = Some c \<longrightarrow> (lc_cluster c = None \<longrightarrow> a \<in> U) \<and> (\<forall>k. lc_cluster c = Some k \<longrightarrow> lm_centers m k \<noteq> None))"

fun merge_of :: "legacy_cluster_op \<Rightarrow> (nat \<times> nat) list" where
  "merge_of (MERGE c1 c2) = [(c1, c2)]"
| "merge_of (RING_INVALIDATION k r) = []"

definition merges :: "legacy_cluster_op list \<Rightarrow> (nat \<times> nat) list" where
  "merges ops = concat (map merge_of ops)"

text \<open>Once a cluster has been merged away no later merge names it.\<close>

fun merge_order :: "(nat \<times> nat) list \<Rightarrow> bool" where
  "merge_order [] \<longleftrightarrow> True"
| "merge_order ((c1, c2) # ms) \<longleftrightarrow> c1 \<noteq> c2 \<and> c2 \<notin> fst ` set ms \<and> c2 \<notin> snd ` set ms \<and> merge_order ms"

abbreviation cluster_ops :: "legacy_map \<Rightarrow> legacy_cluster_op list" where
  "cluster_ops m \<equiv> items (cq_queue (lm_clusterOps m))"

definition signals_ok :: "legacy_map \<Rightarrow> bool" where
  "signals_ok m \<longleftrightarrow> cap (cq_queue (lm_clusterOps m)) = None \<and> merge_order (merges (cluster_ops m))
     \<and> (\<forall>c\<in>fst ` set (merges (cluster_ops m)) \<union> snd ` set (merges (cluster_ops m)). c \<in> set (lm_unique m))
     \<and> (\<forall>k r. RING_INVALIDATION k r \<in> set (cluster_ops m) \<longrightarrow> lm_centers m k \<noteq> None)
     \<and> (\<forall>k ck. lm_centers m k = Some ck \<longrightarrow>
          (cc_mergeSignaled ck \<longleftrightarrow> k \<in> snd ` set (merges (cluster_ops m)) \<or> k \<notin> set (lm_unique m)))"

definition wf_legacy :: "nat set \<Rightarrow> legacy_map \<Rightarrow> bool" where
  "wf_legacy U m \<longleftrightarrow> index_ok m \<and> centers_ok m \<and> cache_ok m \<and> clustered U m \<and> signals_ok m"

lemmas wf_legacy_defs = wf_legacy_def index_ok_def centers_ok_def cache_ok_def clustered_def signals_ok_def

lemma wf_new: "wf_legacy {} Legacy_Map_new"
  by (simp add: wf_legacy_defs Legacy_Map_new_def merges_def)

lemma wf_events [simp]: "wf_legacy U (m\<lparr>lm_events := es\<rparr>) = wf_legacy U m"
  "wf_legacy U (m\<lparr>lm_fetchCurrent := n\<rparr>) = wf_legacy U m" "wf_legacy U (m\<lparr>lm_ops := q\<rparr>) = wf_legacy U m"
  by (simp_all add: wf_legacy_defs)

lemma wf_cache: "wf_legacy U m \<Longrightarrow> cache_ok (m\<lparr>lm_cache := f\<rparr>) \<Longrightarrow> wf_legacy U (m\<lparr>lm_cache := f\<rparr>)"
  by (simp add: wf_legacy_defs)

lemma offset_hash_eq [simp]: "offset_hash p = offset_hash p' \<longleftrightarrow> p = p'"
  by (metis offset.expand offset_hash_high offset_hash_low)

lemma get_live:
  assumes "index_ok m"
  shows "legacy_get m q r = Some a \<longleftrightarrow> (\<exists>c. lm_cells m a = Some c \<and> lc_offset c = Offset q r)"
  using assms unfolding index_ok_def legacy_get_def by (metis offset_hash_eq)

section \<open>Walking the rings\<close>

lemma ring_nodes_live:
  assumes "index_ok m" and "Some n \<in> set (ring (legacy_get m) p radius)"
  shows "lm_cells m n \<noteq> None"
proof -
  obtain q r where "legacy_get m q r = Some n"
    using assms(2) by (auto simp: ring_eq_walk moved_def split_beta)
  then show ?thesis using get_live [OF assms(1)] by blast
qed

lemma ring_zero: "ring g p 0 = []"
  by (simp add: ring_eq_walk ring_walk_def side_def)

text \<open>A ring to be walked: alive, empty for radius 0; the state may only have a fuller cache.\<close>

lemma getRing_total:
  assumes "index_ok m" and "cache_ok m" and "lm_cells m a \<noteq> None"
  shows "\<exists>ns f. getRing a r False True m = Inr (ns, m\<lparr>lm_cache := f\<rparr>) \<and> cache_ok (m\<lparr>lm_cache := f\<rparr>)
    \<and> (\<forall>n. Some n \<in> set ns \<longrightarrow> lm_cells m n \<noteq> None) \<and> (r = 0 \<longrightarrow> ns = [])"
proof (cases "lm_cache m a r")
  case None
  obtain c where c: "lm_cells m a = Some c" using assms(3) by blast
  let ?ns = "ring (legacy_get m) (lc_offset c) r"
  let ?f = "(lm_cache m)(a := (lm_cache m a)(r := Some ?ns))"
  have live: "\<forall>n. Some n \<in> set ?ns \<longrightarrow> lm_cells m n \<noteq> None" using ring_nodes_live [OF assms(1)] by blast
  have "getRing a r False True m = Inr (?ns, m\<lparr>lm_cache := ?f\<rparr>)"
    using None c by (simp add: getRing_def legacy_ring_def legacy_cell_at_def)
  moreover have "cache_ok (m\<lparr>lm_cache := ?f\<rparr>)" using assms(2) live by (auto simp: cache_ok_def ring_zero)
  moreover have "r = 0 \<longrightarrow> ?ns = []" by (simp add: ring_zero)
  ultimately show ?thesis using live by blast
next
  case (Some ns)
  then have "getRing a r False True m = Inr (ns, m\<lparr>lm_cache := lm_cache m\<rparr>)" by (simp add: getRing_def)
  moreover have "cache_ok (m\<lparr>lm_cache := lm_cache m\<rparr>)" using assms(2) by simp
  moreover have "(\<forall>n. Some n \<in> set ns \<longrightarrow> lm_cells m n \<noteq> None) \<and> (r = 0 \<longrightarrow> ns = [])" using assms(2) Some unfolding cache_ok_def by blast
  ultimately show ?thesis by blast
qed

text \<open>
  A visitor that never faults on live cells and keeps \<open>P\<close>, where \<open>P\<close> implies the invariants of index and cache
  and does not depend on what is cached: the propagation returns and keeps \<open>P\<close>.
\<close>

locale visitor =
  fixes fnc :: visit and P :: "legacy_map \<Rightarrow> bool"
  assumes P_ok: "P m \<Longrightarrow> index_ok m \<and> cache_ok m"
    and P_cache: "P m \<Longrightarrow> cache_ok (m\<lparr>lm_cache := f\<rparr>) \<Longrightarrow> P (m\<lparr>lm_cache := f\<rparr>)"
    and visit: "P m \<Longrightarrow> lm_cells m a \<noteq> None \<Longrightarrow> \<exists>b m'. fnc a m = Inr (b, m') \<and> P m' \<and> dom (lm_cells m') = dom (lm_cells m)"
begin

lemma visit_nodes:
  assumes "P m" and "\<forall>n. Some n \<in> set ns \<longrightarrow> lm_cells m n \<noteq> None"
  shows "\<exists>c' m'. rfold (visit_node fnc) ns (c, m) = Inr (c', m') \<and> P m' \<and> dom (lm_cells m') = dom (lm_cells m) \<and> (ns = [] \<longrightarrow> c' = c)"
  using assms
proof (induction ns arbitrary: c m)
  case (Cons n ns)
  have "\<exists>d m1. visit_node fnc n (c, m) = Inr (d, m1) \<and> P m1 \<and> dom (lm_cells m1) = dom (lm_cells m)"
  proof (cases n)
    case (Some a)
    then have "lm_cells m a \<noteq> None" using Cons.prems(2) by simp
    then obtain b m1 where "fnc a m = Inr (b, m1)" "P m1" "dom (lm_cells m1) = dom (lm_cells m)"
      using visit [OF Cons.prems(1)] by blast
    then show ?thesis using Some by (simp add: visit_node_def)
  qed (use Cons.prems(1) in \<open>simp add: visit_node_def\<close>)
  then obtain d m1 where m1: "visit_node fnc n (c, m) = Inr (d, m1)" "P m1" "dom (lm_cells m1) = dom (lm_cells m)" by blast
  then have "\<forall>n. Some n \<in> set ns \<longrightarrow> lm_cells m1 n \<noteq> None" using Cons.prems(2) by (metis domIff list.set_intros(2))
  from Cons.IH [OF m1(2) this, of d] m1 show ?case by auto
qed simp

lemma rings_total:
  assumes "P m" and "lm_cells m a \<noteq> None" and "2 ^ 16 \<le> unat r + n" and "0 < n"
  shows "\<exists>r' m'. propagate_rings n a fnc r m = Inr (r', m') \<and> P m' \<and> dom (lm_cells m') = dom (lm_cells m)"
  using assms
proof (induction n arbitrary: r m)
  case (Suc n)
  obtain ns f where ring: "getRing a (r + 1) False True m = Inr (ns, m\<lparr>lm_cache := f\<rparr>)" "cache_ok (m\<lparr>lm_cache := f\<rparr>)"
      "\<forall>n. Some n \<in> set ns \<longrightarrow> lm_cells m n \<noteq> None" "r + 1 = 0 \<longrightarrow> ns = []"
    using getRing_total [of m a "r + 1"] P_ok [OF Suc.prems(1)] Suc.prems(2) by blast
  let ?m = "m\<lparr>lm_cache := f\<rparr>"
  obtain c m1 where m1: "rfold (visit_node fnc) ns (0, ?m) = Inr (c, m1)" "P m1" "dom (lm_cells m1) = dom (lm_cells m)" "ns = [] \<longrightarrow> c = 0"
    using visit_nodes [OF P_cache [OF Suc.prems(1) ring(2)], of ns 0] ring(3) by auto
  show ?case
  proof (cases "0 < c")
    case True
    then have "r + 1 \<noteq> 0" using ring(4) m1(4) by auto
    then have u: "unat (r + 1) = unat r + 1" using unatSuc [of r] by (simp add: add.commute)
    moreover have "unat (r + 1) < 2 ^ 16" using unsigned_less [of "r + 1", where ?'a = nat] by simp
    ultimately have "2 ^ 16 \<le> unat (r + 1) + n" "0 < n" using Suc.prems(3) by simp_all
    moreover have "lm_cells m1 a \<noteq> None" using Suc.prems(2) m1(3) by (metis domIff)
    ultimately show ?thesis using Suc.IH [OF m1(2)] m1 ring(1) True by auto
  next
    case False
    then show ?thesis using m1 ring(1) by auto
  qed
qed simp

lemma propagate_total:
  assumes "P m" and "lm_cells m a \<noteq> None"
  shows "\<exists>r m'. propagate a fnc m = Inr (r, m') \<and> P m' \<and> dom (lm_cells m') = dom (lm_cells m)"
proof -
  obtain b m1 where m1: "fnc a m = Inr (b, m1)" "P m1" "dom (lm_cells m1) = dom (lm_cells m)" using visit [OF assms] by blast
  moreover have "lm_cells m1 a \<noteq> None" using assms(2) m1(3) by (metis domIff)
  ultimately show ?thesis using rings_total [of m1 a 0 "2 ^ 16"] by (auto simp: propagate_def)
qed

end

section \<open>Primitive changes\<close>

lemma wf_mono: "wf_legacy U m \<Longrightarrow> U \<subseteq> V \<Longrightarrow> wf_legacy V m"
  by (auto simp: wf_legacy_def clustered_def)

text \<open>A cell is replaced by one with the same offset and an allocated cluster.\<close>

lemma index_put_cell:
  assumes "index_ok m" and "lm_cells m a = Some c" and "lc_offset c' = lc_offset c"
  shows "index_ok (put_cell a c' m)"
proof -
  have "\<exists>d. ((lm_cells m)(a \<mapsto> c')) b = Some d \<and> offset_hash (lc_offset d) = h" if "map_of (lm_index m) h = Some b" for h b
  proof -
    obtain d where "lm_cells m b = Some d" "offset_hash (lc_offset d) = h" using assms(1) \<open>map_of (lm_index m) h = Some b\<close> unfolding index_ok_def by blast
    then show ?thesis using assms(2,3) by (cases "b = a") auto
  qed
  then show ?thesis using assms unfolding index_ok_def put_cell_def by (auto split: if_splits)
qed

lemma wf_put_cell:
  assumes "wf_legacy U m" and "lm_cells m a = Some c" and "lc_offset c' = lc_offset c"
    and "lc_cluster c' = Some k \<and> lm_centers m k \<noteq> None \<and> V = U - {a} \<or> lc_cluster c' = lc_cluster c \<and> V = U"
  shows "wf_legacy V (put_cell a c' m)"
proof -
  have "index_ok (put_cell a c' m)" using assms(1-3) by (auto simp: wf_legacy_def intro: index_put_cell)
  moreover have "centers_ok (put_cell a c' m)" "cache_ok (put_cell a c' m)" "signals_ok (put_cell a c' m)"
    using assms(1) by (auto simp: wf_legacy_def centers_ok_def cache_ok_def signals_ok_def put_cell_def)
  moreover have "clustered V (put_cell a c' m)"
    using assms(1,2,4) by (auto simp: wf_legacy_def clustered_def put_cell_def split: if_splits)
  ultimately show ?thesis by (simp add: wf_legacy_def)
qed

lemma put_cell_sel [simp]:
  "lm_centers (put_cell a c m) = lm_centers m" "lm_unique (put_cell a c m) = lm_unique m" "lm_clusterOps (put_cell a c m) = lm_clusterOps m"
  "lm_cells (put_cell a c m) = (lm_cells m)(a \<mapsto> c)" "lm_next (put_cell a c m) = lm_next m"
  by (simp_all add: put_cell_def)

lemma cq_push_unbounded:
  "cap (cq_queue q) = None \<Longrightarrow> fst (cq_push bq_push x q) = q\<lparr>cq_queue := (cq_queue q)\<lparr>items := items (cq_queue q) @ [x]\<rparr>, cq_counter := cq_counter q + 1\<rparr>"
  by (simp add: cq_push_def bq_push_def bq_full_def)

lemma merges_append [simp]: "merges (xs @ ys) = merges xs @ merges ys"
  by (simp add: merges_def)

lemma merges_simps [simp]: "merges [] = []" "merges (MERGE c1 c2 # xs) = (c1, c2) # merges xs" "merges (RING_INVALIDATION k r # xs) = merges xs"
  by (simp_all add: merges_def)

lemma merge_order_snoc:
  "merge_order (ms @ [(j, k)]) \<longleftrightarrow> merge_order ms \<and> j \<noteq> k \<and> j \<notin> snd ` set ms \<and> k \<notin> snd ` set ms"
  by (induction ms rule: merge_order.induct) auto

lemma wf_push_ring:
  assumes "wf_legacy U m" and "lm_centers m k \<noteq> None"
  shows "wf_legacy U (push_cluster (RING_INVALIDATION k r) m)"
  using assms by (auto simp: wf_legacy_defs push_cluster_def cq_push_unbounded)

text \<open>A merge is signalled between two clusters that are not about to be merged away.\<close>

lemma wf_signal:
  assumes "wf_legacy U m" and "j \<noteq> k" and "k \<in> set (lm_unique m)" and "lm_centers m j = Some cj" and "lm_centers m k = Some ck"
    and "\<not> cc_mergeSignaled cj" and "\<not> cc_mergeSignaled ck"
  shows "wf_legacy U ((push_cluster (MERGE j k) m)\<lparr>lm_centers := (lm_centers m)(k \<mapsto> ck\<lparr>cc_mergeSignaled := True\<rparr>)\<rparr>)"
proof -
  have s: "signals_ok m" using assms(1) by (simp add: wf_legacy_def)
  then have j: "j \<in> set (lm_unique m)" "j \<notin> snd ` set (merges (cluster_ops m))" "k \<notin> snd ` set (merges (cluster_ops m))"
    using assms(4-7) unfolding signals_ok_def by blast+
  have "signals_ok ((push_cluster (MERGE j k) m)\<lparr>lm_centers := (lm_centers m)(k \<mapsto> ck\<lparr>cc_mergeSignaled := True\<rparr>)\<rparr>)"
    using s j assms(2,3) unfolding signals_ok_def by (auto simp: push_cluster_def cq_push_unbounded merge_order_snoc)
  then show ?thesis using assms(1,5) by (auto simp: wf_legacy_def index_ok_def centers_ok_def cache_ok_def clustered_def push_cluster_def)
qed

section \<open>The update\<close>

lemma update_node_total:
  assumes "wf_legacy {} m" and "k \<in> set (lm_unique m)" and "lm_cells m a \<noteq> None"
  shows "\<exists>b m'. update_node k a m = Inr (b, m') \<and> wf_legacy {} m' \<and> lm_unique m' = lm_unique m \<and> lm_cells m' = lm_cells m"
proof -
  obtain c where c: "lm_cells m a = Some c" using assms(3) by blast
  obtain j cj where j: "lc_cluster c = Some j" "lm_centers m j = Some cj"
    using assms(1) c unfolding wf_legacy_def clustered_def by (metis empty_iff not_None_eq)
  obtain ck where ck: "lm_centers m k = Some ck" using assms(1,2) by (auto simp: wf_legacy_def centers_ok_def)
  show ?thesis
  proof (cases "j = k")
    case True
    then show ?thesis using c j assms(1) by (intro exI [of _ True]) (simp add: update_node_def legacy_Cell_update_def legacy_cell_at_def)
  next
    case False
    then show ?thesis
      using c j ck assms(1,2) wf_signal [OF assms(1) False assms(2) j(2) ck]
      by (auto simp: update_node_def legacy_cell_at_def push_cluster_def)
  qed
qed

interpretation upd: visitor "update_node k" "\<lambda>m. wf_legacy {} m \<and> lm_unique m = u \<and> k \<in> set u" for k u
proof
  show "index_ok m \<and> cache_ok m" if "wf_legacy {} m \<and> lm_unique m = u \<and> k \<in> set u" for m
    using that by (simp add: wf_legacy_def)
  show "wf_legacy {} (m\<lparr>lm_cache := f\<rparr>) \<and> lm_unique (m\<lparr>lm_cache := f\<rparr>) = u \<and> k \<in> set u"
    if "wf_legacy {} m \<and> lm_unique m = u \<and> k \<in> set u" "cache_ok (m\<lparr>lm_cache := f\<rparr>)" for m f
    using that wf_cache by simp
  show "\<exists>b m'. update_node k a m = Inr (b, m') \<and> (wf_legacy {} m' \<and> lm_unique m' = u \<and> k \<in> set u) \<and> dom (lm_cells m') = dom (lm_cells m)"
    if "wf_legacy {} m \<and> lm_unique m = u \<and> k \<in> set u" "lm_cells m a \<noteq> None" for m a
    using update_node_total [of m k a] that by fastforce
qed

lemma update_cluster_total:
  assumes "wf_legacy {} m" and "k \<in> set (lm_unique m)"
  shows "\<exists>m'. update_cluster k m = Inr m' \<and> wf_legacy {} m' \<and> lm_unique m' = lm_unique m"
proof -
  obtain ck where ck: "lm_centers m k = Some ck" "lm_cells m (cc_center ck) \<noteq> None"
    using assms unfolding wf_legacy_def centers_ok_def by blast
  then show ?thesis using upd.propagate_total [of m "lm_unique m" k "cc_center ck"] assms by (auto simp: update_cluster_def)
qed

lemma legacy_update_total:
  assumes "wf_legacy {} m"
  shows "\<exists>m'. legacy_Cluster_update m = Inr m' \<and> wf_legacy {} m' \<and> lm_unique m' = lm_unique m"
proof -
  have "\<exists>m'. rfold update_cluster (lm_unique m) m = Inr m' \<and> wf_legacy {} m' \<and> lm_unique m' = lm_unique m"
  proof (rule rfold_total)
    show "\<exists>t. update_cluster k s = Inr t \<and> wf_legacy {} t \<and> lm_unique t = lm_unique m"
      if "k \<in> set (lm_unique m)" "wf_legacy {} s \<and> lm_unique s = lm_unique m" for k s
      using update_cluster_total [of s k] that by auto
  qed (use assms in simp)
  then show ?thesis by (auto simp: legacy_Cluster_update_def)
qed

section \<open>Merging\<close>

text \<open>What moving cells to another cluster does not change.\<close>

definition moving :: "legacy_map \<Rightarrow> legacy_map \<Rightarrow> bool" where
  "moving m0 m \<longleftrightarrow> index_ok m \<and> cache_ok m \<and> clustered {} m \<and> lm_centers m = lm_centers m0 \<and> lm_unique m = lm_unique m0
     \<and> lm_clusterOps m = lm_clusterOps m0 \<and> lm_next m = lm_next m0 \<and> dom (lm_cells m) = dom (lm_cells m0)"

lemma move_node_total:
  assumes "moving m0 m" and "lm_centers m0 c1 \<noteq> None" and "lm_cells m a \<noteq> None"
  shows "\<exists>b m'. move_node c2 c1 a m = Inr (b, m') \<and> moving m0 m'"
proof -
  obtain c where c: "lm_cells m a = Some c" using assms(3) by blast
  have "index_ok (put_cell a (c\<lparr>lc_cluster := Some c1\<rparr>) m)" using assms(1) c by (auto simp: moving_def intro: index_put_cell)
  then have "moving m0 (put_cell a (c\<lparr>lc_cluster := Some c1\<rparr>) m)"
    using assms c by (auto simp: moving_def clustered_def cache_ok_def put_cell_def)
  then have "move_node c2 c1 a m = Inr (True, put_cell a (c\<lparr>lc_cluster := Some c1\<rparr>) m) \<and> moving m0 (put_cell a (c\<lparr>lc_cluster := Some c1\<rparr>) m)
      \<or> move_node c2 c1 a m = Inr (False, m)"
    using c by (simp add: move_node_def legacy_cell_at_def)
  then show ?thesis using assms(1) by blast
qed

interpretation mov: visitor "move_node c2 c1" "\<lambda>m. moving m0 m \<and> lm_centers m0 c1 \<noteq> None" for c2 c1 m0
proof
  show "index_ok m \<and> cache_ok m" if "moving m0 m \<and> lm_centers m0 c1 \<noteq> None" for m
    using that by (simp add: moving_def)
  show "moving m0 (m\<lparr>lm_cache := f\<rparr>) \<and> lm_centers m0 c1 \<noteq> None"
    if "moving m0 m \<and> lm_centers m0 c1 \<noteq> None" "cache_ok (m\<lparr>lm_cache := f\<rparr>)" for m f
    using that by (auto simp: moving_def index_ok_def clustered_def)
  show "\<exists>b m'. move_node c2 c1 a m = Inr (b, m') \<and> (moving m0 m' \<and> lm_centers m0 c1 \<noteq> None) \<and> dom (lm_cells m') = dom (lm_cells m)"
    if "moving m0 m \<and> lm_centers m0 c1 \<noteq> None" "lm_cells m a \<noteq> None" for m a
    using move_node_total [of m0 m c1 a c2] that by (auto simp: moving_def)
qed

lemma cq_pop_Cons:
  "items (cq_queue q) = x # xs \<Longrightarrow> cq_pop bq_pop q = Some (q\<lparr>cq_queue := (cq_queue q)\<lparr>items := xs\<rparr>, cq_counter := cq_counter q - 1\<rparr>, x)"
  by (simp add: cq_pop_def bq_pop_def)

lemma remove1_filter: "distinct xs \<Longrightarrow> remove1 x xs = filter (\<lambda>k. k \<noteq> x) xs"
  by (simp add: distinct_remove1_removeAll removeAll_filter_not_eq) (metis (no_types))

lemma run_merge_total:
  assumes "wf_legacy {} m" and "cluster_ops m = MERGE c1 c2 # ops"
  shows "\<exists>m'. run_cluster_op (MERGE c1 c2) (drop_cluster_op m) = Inr m' \<and> wf_legacy {} m' \<and> cluster_ops m' = ops
    \<and> lm_unique m' = remove1 c2 (lm_unique m)"
proof -
  define m0 where "m0 = drop_cluster_op m"
  have m0: "cluster_ops m0 = ops" "cap (cq_queue (lm_clusterOps m0)) = cap (cq_queue (lm_clusterOps m))" "lm_cells m0 = lm_cells m"
      "lm_centers m0 = lm_centers m" "lm_unique m0 = lm_unique m" "lm_next m0 = lm_next m" "lm_index m0 = lm_index m" "lm_cache m0 = lm_cache m"
    using cq_pop_Cons [OF assms(2)] by (simp_all add: m0_def drop_cluster_op_def)
  have s: "signals_ok m" "centers_ok m" using assms(1) by (simp_all add: wf_legacy_def)
  then have c: "c1 \<noteq> c2" "c1 \<in> set (lm_unique m)" "c2 \<in> set (lm_unique m)" "c2 \<notin> fst ` set (merges ops)" "c2 \<notin> snd ` set (merges ops)"
      "merge_order (merges ops)"
    by (auto simp: signals_ok_def assms(2))
  obtain ck where ck: "lm_centers m c2 = Some ck" "lm_cells m (cc_center ck) \<noteq> None"
    using s(2) c(3) unfolding centers_ok_def by blast
  have live: "lm_centers m0 c1 \<noteq> None" using s(2) c(2) m0(4) unfolding centers_ok_def by auto
  have start: "moving m0 m0" using assms(1) m0 by (simp add: moving_def wf_legacy_def index_ok_def cache_ok_def clustered_def)
  obtain r m1 where m1: "propagate (cc_center ck) (move_node c2 c1) m0 = Inr (r, m1)" "moving m0 m1"
    using mov.propagate_total [of m0 m0 c1 "cc_center ck" c2] start live ck(2) m0(3) by auto
  let ?m = "m1\<lparr>lm_unique := remove1 c2 (lm_unique m1)\<rparr>"
  have e: "lm_centers m1 = lm_centers m" "lm_unique m1 = lm_unique m" "lm_clusterOps m1 = lm_clusterOps m0" "lm_next m1 = lm_next m"
      "dom (lm_cells m1) = dom (lm_cells m)"
    using m1(2) m0 by (simp_all add: moving_def)
  have d: "distinct (lm_unique m)" using s(2) by (simp add: centers_ok_def)
  have "centers_ok ?m" unfolding centers_ok_def
  proof (intro conjI ballI allI impI)
    fix k ck' assume "lm_centers ?m k = Some ck'"
    then have "k < lm_next m" "cc_center ck' \<in> dom (lm_cells m)" using s(2) e(1) unfolding centers_ok_def by auto
    then show "k < lm_next ?m" "lm_cells ?m (cc_center ck') \<noteq> None" using e(4,5) by auto
  next
    fix k assume "k \<in> set (lm_unique ?m)"
    then have "k \<in> set (lm_unique m)" using e(2) by (simp add: notin_set_remove1 set_remove1_eq d)
    then show "lm_centers ?m k \<noteq> None" using s(2) e(1) unfolding centers_ok_def by simp
  qed (use d e in simp)
  moreover have "signals_ok ?m"
  proof -
    have u: "set (remove1 c2 (lm_unique m)) = set (lm_unique m) - {c2}" using d by simp
    have "\<forall>c\<in>fst ` set (merges ops) \<union> snd ` set (merges ops). c \<in> set (lm_unique m) - {c2}"
      using s(1) c(4,5) by (auto simp: signals_ok_def assms(2))
    moreover have "\<forall>k r. RING_INVALIDATION k r \<in> set ops \<longrightarrow> lm_centers m k \<noteq> None" using s(1) by (auto simp: signals_ok_def assms(2))
    moreover have "\<forall>k ck. lm_centers m k = Some ck \<longrightarrow> (cc_mergeSignaled ck \<longleftrightarrow> k \<in> snd ` set (merges ops) \<or> k \<notin> set (lm_unique m) - {c2})"
      using s(1) unfolding signals_ok_def assms(2) by auto
    moreover have "cap (cq_queue (lm_clusterOps m)) = None" using s(1) by (simp add: signals_ok_def)
    ultimately show ?thesis using c(6) unfolding signals_ok_def by (simp add: e m0 u)
  qed
  ultimately have "wf_legacy {} ?m" using m1(2) by (auto simp: wf_legacy_def moving_def index_ok_def cache_ok_def clustered_def)
  moreover have "run_cluster_op (MERGE c1 c2) m0 = Inr ?m"
    using c(2,3) ck(1) m1(1) m0 by (simp add: run_cluster_op_def run_merge_def)
  ultimately show ?thesis using m0 e by (auto simp: m0_def [symmetric])
qed

lemma run_invalidation_total:
  assumes "wf_legacy {} m" and "cluster_ops m = RING_INVALIDATION k radius # ops"
  shows "\<exists>m'. run_cluster_op (RING_INVALIDATION k radius) (drop_cluster_op m) = Inr m' \<and> wf_legacy {} m' \<and> cluster_ops m' = ops
    \<and> lm_unique m' = lm_unique m"
proof -
  have "RING_INVALIDATION k radius \<in> set (cluster_ops m)" using assms(2) by simp
  then obtain ck where ck: "lm_centers m k = Some ck" using assms(1) unfolding wf_legacy_def signals_ok_def by blast
  show ?thesis
    using assms ck cq_pop_Cons [OF assms(2)]
    by (auto simp: run_cluster_op_def drop_cluster_op_def getRing_def wf_legacy_defs)
qed

text \<open>The run carries out every queued merge: exactly the clusters named second in one are gone.\<close>

lemma legacy_Cluster_run_total:
  assumes "wf_legacy {} m"
  shows "\<exists>m'. legacy_Cluster_run m = Inr m' \<and> wf_legacy {} m' \<and> cluster_ops m' = []
    \<and> lm_unique m' = filter (\<lambda>k. k \<notin> snd ` set (merges (cluster_ops m))) (lm_unique m)"
proof -
  have "\<exists>m'. rfold (\<lambda>op m. run_cluster_op op (drop_cluster_op m)) ops m = Inr m' \<and> wf_legacy {} m' \<and> cluster_ops m' = []
      \<and> lm_unique m' = filter (\<lambda>k. k \<notin> snd ` set (merges ops)) (lm_unique m)"
    if "cluster_ops m = ops" "wf_legacy {} m" for ops m
    using that
  proof (induction ops arbitrary: m)
    case Nil
    then show ?case by simp
  next
    case (Cons op ops)
    show ?case
    proof (cases op)
      case (MERGE c1 c2)
      obtain m1 where m1: "run_cluster_op op (drop_cluster_op m) = Inr m1" "wf_legacy {} m1" "cluster_ops m1 = ops" "lm_unique m1 = remove1 c2 (lm_unique m)"
        using run_merge_total [of m c1 c2 ops] Cons.prems MERGE by auto
      moreover have "distinct (lm_unique m)" using Cons.prems(2) by (simp add: wf_legacy_def centers_ok_def)
      then have "remove1 c2 (lm_unique m) = filter (\<lambda>k. k \<noteq> c2) (lm_unique m)" by (rule remove1_filter)
      ultimately show ?thesis using Cons.IH [OF m1(3,2)] MERGE by (auto intro!: filter_cong)
    next
      case (RING_INVALIDATION k r)
      obtain m1 where m1: "run_cluster_op op (drop_cluster_op m) = Inr m1" "wf_legacy {} m1" "cluster_ops m1 = ops" "lm_unique m1 = lm_unique m"
        using run_invalidation_total [of m k r ops] Cons.prems RING_INVALIDATION by auto
      then show ?thesis using Cons.IH [OF m1(3,2)] RING_INVALIDATION by auto
    qed
  qed
  then show ?thesis using assms by (simp add: legacy_Cluster_run_def)
qed

section \<open>Creating cells\<close>

text \<open>What creating cells keeps: cells, centers, clusters and their queue.\<close>

definition extends :: "legacy_map \<Rightarrow> legacy_map \<Rightarrow> bool" where
  "extends m m' \<longleftrightarrow> (\<forall>a c. lm_cells m a = Some c \<longrightarrow> lm_cells m' a = Some c)"

lemma create_cell_wf:
  assumes "wf_legacy U m" and "create_cell p m = (a, m')"
  shows "wf_legacy (insert a U) m' \<and> (\<exists>c. lm_cells m' a = Some c \<and> lc_offset c = p) \<and> extends m m'"
proof (cases "legacy_get m (off_q p) (off_r p)")
  case (Some b)
  then have "a = b" "m' = m" using assms(2) by (auto simp: create_cell_def)
  moreover have "index_ok m" using assms(1) by (simp add: wf_legacy_def)
  ultimately show ?thesis using get_live [of m "off_q p" "off_r p" b] Some wf_mono [OF assms(1), of "insert a U"] by (auto simp: extends_def)
next
  case None
  let ?c = "\<lparr>lc_offset = p, lc_siblingsDone = False, lc_data = [], lc_playerData = [], lc_cluster = None\<rparr>"
  have m': "a = lm_next m" "m' = m\<lparr>lm_cells := (lm_cells m)(a \<mapsto> ?c), lm_next := a + 1, lm_index := (offset_hash p, a) # lm_index m\<rparr>"
    using assms(2) None by (auto simp: create_cell_def Let_def)
  have ok: "index_ok m" "centers_ok m" using assms(1) by (simp_all add: wf_legacy_def)
  have fresh: "lm_cells m a = None" using ok(1) m'(1) unfolding index_ok_def by (metis less_irrefl not_None_eq)
  have new: "map_of (lm_index m) (offset_hash p) = None" using None by (simp add: legacy_get_def)
  have old: "offset_hash (lc_offset c) \<noteq> offset_hash p" "b \<noteq> a" "b < a + 1" if "lm_cells m b = Some c" for b c
    using ok(1) new that m'(1) fresh unfolding index_ok_def by fastforce+
  have "index_ok m'" unfolding index_ok_def
  proof (intro conjI allI impI)
    fix b c assume "lm_cells m' b = Some c"
    then show "b < lm_next m'" "map_of (lm_index m') (offset_hash (lc_offset c)) = Some b"
      using ok(1) old [of b c] unfolding m'(2) index_ok_def by (auto split: if_splits)
  next
    fix h b assume h: "map_of (lm_index m') h = Some b"
    show "\<exists>c. lm_cells m' b = Some c \<and> offset_hash (lc_offset c) = h"
    proof (cases "h = offset_hash p")
      case True
      then show ?thesis using h by (simp add: m'(2))
    next
      case False
      then have "map_of (lm_index m) h = Some b" using h by (simp add: m'(2))
      then obtain c where "lm_cells m b = Some c" "offset_hash (lc_offset c) = h" using ok(1) unfolding index_ok_def by blast
      then show ?thesis using fresh by (auto simp: m'(2))
    qed
  qed
  moreover have "centers_ok m'" using ok(2) m'(1) by (auto simp: centers_ok_def m'(2) less_Suc_eq)
  moreover have "cache_ok m'" "clustered (insert a U) m'" "signals_ok m'"
    using assms(1) unfolding m'(2) by (auto simp: wf_legacy_def cache_ok_def clustered_def signals_ok_def)
  ultimately show ?thesis using fresh by (auto simp: wf_legacy_def extends_def m'(2))
qed

lemma create_cells_wf:
  assumes "wf_legacy U m" and "create_cells ps m = (as, m')"
  shows "wf_legacy (U \<union> set as) m' \<and> (\<forall>a\<in>set as. lm_cells m' a \<noteq> None) \<and> extends m m'"
  using assms
proof (induction ps arbitrary: U m as)
  case Nil
  then show ?case by (simp add: extends_def)
next
  case (Cons p ps)
  obtain a m1 where m1: "create_cell p m = (a, m1)" by force
  obtain bs where bs: "create_cells ps m1 = (bs, m')" "as = a # bs" using Cons.prems(2) m1 by (auto simp: split_beta Let_def prod_eq_iff)
  note 1 = create_cell_wf [OF Cons.prems(1) m1]
  then have "wf_legacy (insert a U) m1" by blast
  from Cons.IH [OF this bs(1)] 1 show ?case by (fastforce simp: extends_def bs(2))
qed

lemma set_cluster_wf:
  assumes "wf_legacy U m" and "lm_cells m a \<noteq> None" and "lm_centers m k \<noteq> None"
  shows "\<exists>m'. set_cluster k a m = Inr m' \<and> wf_legacy (U - {a}) m' \<and> dom (lm_cells m') = dom (lm_cells m) \<and> lm_centers m' = lm_centers m"
proof -
  obtain c where c: "lm_cells m a = Some c" using assms(2) by blast
  then show ?thesis using wf_put_cell [OF assms(1) c, of "c\<lparr>lc_cluster := Some k\<rparr>" k "U - {a}"] assms(3)
    by (auto simp: set_cluster_def legacy_cell_at_def)
qed

lemma set_clusters_wf:
  assumes "wf_legacy U m" and "\<forall>a\<in>set as. lm_cells m a \<noteq> None" and "lm_centers m k \<noteq> None"
  shows "\<exists>m'. rfold (set_cluster k) as m = Inr m' \<and> wf_legacy (U - set as) m' \<and> dom (lm_cells m') = dom (lm_cells m) \<and> lm_centers m' = lm_centers m"
  using assms
proof (induction as arbitrary: U m)
  case (Cons a as)
  obtain m1 where m1: "set_cluster k a m = Inr m1" "wf_legacy (U - {a}) m1" "dom (lm_cells m1) = dom (lm_cells m)" "lm_centers m1 = lm_centers m"
    using set_cluster_wf [OF Cons.prems(1) _ Cons.prems(3), of a] Cons.prems(2) by auto
  have "\<forall>b\<in>set as. lm_cells m1 b \<noteq> None" using Cons.prems(2) m1(3) by (metis domIff list.set_intros(2))
  from Cons.IH [OF m1(2) this] m1 Cons.prems(3) show ?case by (auto simp: Diff_insert2 [symmetric])
qed simp

lemma wf_new_center:
  assumes "wf_legacy U m" and "lm_cells m a \<noteq> None"
  shows "wf_legacy U (m\<lparr>lm_centers := (lm_centers m)(lm_next m \<mapsto> \<lparr>cc_center = a, cc_mergeSignaled = False\<rparr>),
    lm_next := lm_next m + 1, lm_unique := lm_unique m @ [lm_next m]\<rparr>)"
proof -
  have s: "signals_ok m" "centers_ok m" using assms(1) by (simp_all add: wf_legacy_def)
  have fresh: "lm_centers m (lm_next m) = None" using s(2) unfolding centers_ok_def by (metis less_irrefl not_None_eq)
  have new: "lm_next m \<notin> set (lm_unique m)" using s(2) fresh unfolding centers_ok_def by auto
  then have "lm_next m \<notin> snd ` set (merges (cluster_ops m))" using s(1) unfolding signals_ok_def by blast
  then have "signals_ok (m\<lparr>lm_centers := (lm_centers m)(lm_next m \<mapsto> \<lparr>cc_center = a, cc_mergeSignaled = False\<rparr>),
      lm_next := lm_next m + 1, lm_unique := lm_unique m @ [lm_next m]\<rparr>)"
    using s(1) new fresh unfolding signals_ok_def by auto
  moreover have "index_ok (m\<lparr>lm_centers := (lm_centers m)(lm_next m \<mapsto> \<lparr>cc_center = a, cc_mergeSignaled = False\<rparr>),
      lm_next := lm_next m + 1, lm_unique := lm_unique m @ [lm_next m]\<rparr>)"
    using assms(1) unfolding wf_legacy_def index_ok_def by fastforce
  ultimately show ?thesis using assms new by (auto simp: wf_legacy_def centers_ok_def cache_ok_def clustered_def less_Suc_eq)
qed

lemma push_cluster_sel [simp]: "lm_cells (push_cluster op m) = lm_cells m" "lm_centers (push_cluster op m) = lm_centers m"
  by (simp_all add: push_cluster_def)

lemma legacy_Cluster_add_total:
  assumes "wf_legacy (insert a (set as)) m" and "lm_cells m a \<noteq> None" and "\<forall>b\<in>set as. lm_cells m b \<noteq> None"
  shows "\<exists>m'. legacy_Cluster_add a as m = Inr m' \<and> wf_legacy {} m' \<and> dom (lm_cells m') = dom (lm_cells m)"
proof -
  let ?k = "lm_next m"
  define m0 where "m0 = m\<lparr>lm_centers := (lm_centers m)(?k \<mapsto> \<lparr>cc_center = a, cc_mergeSignaled = False\<rparr>), lm_next := ?k + 1, lm_unique := lm_unique m @ [?k]\<rparr>"
  have m0: "wf_legacy (insert a (set as)) m0" "lm_cells m0 = lm_cells m" "lm_centers m0 ?k \<noteq> None"
    using wf_new_center [OF assms(1,2)] by (simp_all add: m0_def)
  obtain m1 where m1: "set_cluster ?k a m0 = Inr m1" "wf_legacy (insert a (set as) - {a}) m1" "dom (lm_cells m1) = dom (lm_cells m)" "lm_centers m1 = lm_centers m0"
    using set_cluster_wf [OF m0(1) _ m0(3), of a] assms(2) m0(2) by auto
  have live: "\<forall>b\<in>set as. lm_cells m1 b \<noteq> None" using assms(3) m1(3) by (metis domIff)
  have k: "lm_centers m1 ?k \<noteq> None" using m0(3) m1(4) by simp
  have none: "insert a (set as) - {a} - set as = {}" by auto
  obtain m2 where m2: "rfold (set_cluster ?k) as m1 = Inr m2" "wf_legacy {} m2" "dom (lm_cells m2) = dom (lm_cells m1)" "lm_centers m2 = lm_centers m1"
    using set_clusters_wf [OF m1(2) live k] unfolding none by blast
  note m2 = m2(1,2) m2(3) [unfolded m1(3)] k [folded m2(4)]
  obtain c where c: "lm_cells m2 a = Some c" using assms(2) m2(3) by blast
  show ?thesis
    using m1(1) m2 c unfolding legacy_Cluster_add_def Let_def m0_def [symmetric] by (simp add: legacy_cell_at_def wf_push_ring)
qed

lemma getOrCreate_total:
  assumes "wf_legacy {} m"
  shows "\<exists>a m'. legacy_getOrCreate p True m = Inr (a, m') \<and> wf_legacy {} m' \<and> lm_cells m' a \<noteq> None"
proof -
  obtain a m1 where m1: "create_cell p m = (a, m1)" by force
  then obtain c where c: "lm_cells m1 a = Some c" "wf_legacy {a} m1" using create_cell_wf [OF assms m1] by auto
  show ?thesis
  proof (cases "lc_siblingsDone c")
    case True
    then have "m1 = m" using m1 c(1) by (auto simp: create_cell_def Let_def split: option.splits)
    then show ?thesis using m1 c True assms by (simp add: legacy_getOrCreate_def legacy_cell_at_def)
  next
    case False
    obtain as m2 where m2: "create_cells (sibling_offsets (lc_offset c)) m1 = (as, m2)" by force
    have w: "wf_legacy ({a} \<union> set as) m2" "\<forall>b\<in>set as. lm_cells m2 b \<noteq> None" "lm_cells m2 a = Some c"
      using create_cells_wf [OF c(2) m2] c(1) by (auto simp: extends_def)
    then obtain m3 where m3: "legacy_Cluster_add a as m2 = Inr m3" "wf_legacy {} m3" "dom (lm_cells m3) = dom (lm_cells m2)"
      using legacy_Cluster_add_total [of a as m2] by auto
    obtain c3 where c3: "lm_cells m3 a = Some c3" using m3(3) w(3) by blast
    have "wf_legacy {} (put_cell a (c3\<lparr>lc_siblingsDone := True\<rparr>) m3)" using wf_put_cell [OF m3(2) c3, of "c3\<lparr>lc_siblingsDone := True\<rparr>"] by simp
    then show ?thesis using m1 c False m2 m3(1) c3 by (simp add: legacy_getOrCreate_def legacy_cell_at_def legacy_createSiblings_def)
  qed
qed

section \<open>Runs of the map\<close>

lemma legacy_run_op_total:
  assumes "wf_legacy {} m"
  shows "\<exists>m'. legacy_run_op le op m = Inr m' \<and> wf_legacy {} m'"
proof (cases "lo_type op")
  case ADD_ENTITY_CREATE
  obtain a m1 c where m1: "legacy_getOrCreate (lo_offset op) True m = Inr (a, m1)" "wf_legacy {} m1" "lm_cells m1 a = Some c"
    using getOrCreate_total [OF assms, of "lo_offset op"] by auto
  have "wf_legacy {} (put_cell a (c\<lparr>lc_playerData := xs\<rparr>) m1)" "wf_legacy {} (put_cell a (c\<lparr>lc_data := xs\<rparr>) m1)" for xs
    using wf_put_cell [OF m1(2,3)] by simp_all
  then show ?thesis using ADD_ENTITY_CREATE m1 by (simp add: legacy_run_op_def legacy_cell_at_def Let_def)
next
  case LEGACY_REMOVE_ENTITY
  show ?thesis
  proof (cases "legacy_get m (off_q (lo_offset op)) (off_r (lo_offset op))")
    case None
    then show ?thesis using LEGACY_REMOVE_ENTITY assms by (simp add: legacy_run_op_def Let_def)
  next
    case (Some a)
    then obtain c where c: "lm_cells m a = Some c" using get_live [of m] assms by (auto simp: wf_legacy_def)
    have "wf_legacy {} (put_cell a (c\<lparr>lc_playerData := xs\<rparr>) m)" "wf_legacy {} (put_cell a (c\<lparr>lc_data := xs\<rparr>) m)" for xs
      using wf_put_cell [OF assms c] by simp_all
    then show ?thesis using LEGACY_REMOVE_ENTITY Some c by (simp add: legacy_run_op_def legacy_cell_at_def Let_def)
  qed
qed (use assms in \<open>simp add: legacy_run_op_def Let_def\<close>)

lemma legacy_run_total:
  assumes "wf_legacy {} m"
  shows "\<exists>m'. legacy_runScheduledOperations le m = Inr m' \<and> wf_legacy {} m'"
  unfolding legacy_runScheduledOperations_def
proof (rule rfold_total)
  show "\<exists>t. legacy_run_op le op (drop_map_op s) = Inr t \<and> wf_legacy {} t" if "wf_legacy {} s" for op s
    by (rule legacy_run_op_total) (use that in \<open>simp add: drop_map_op_def split: option.split\<close>)
qed (rule assms)

text \<open>What can happen to a map: an operation is scheduled, or one of the three loops runs.\<close>

inductive legacy_step :: "legacy_env \<Rightarrow> legacy_map \<Rightarrow> legacy_map \<Rightarrow> bool" for le where
  add: "legacy_step le m (legacy_addTo p e m)"
| run: "legacy_runScheduledOperations le m = Inr m' \<Longrightarrow> legacy_step le m m'"
| update: "legacy_Cluster_update m = Inr m' \<Longrightarrow> legacy_step le m m'"
| cluster_run: "legacy_Cluster_run m = Inr m' \<Longrightarrow> legacy_step le m m'"

lemma legacy_step_wf: "legacy_step le m m' \<Longrightarrow> wf_legacy {} m \<Longrightarrow> wf_legacy {} m'"
proof (induction rule: legacy_step.induct)
  case (add m p e)
  then show ?case by (simp add: legacy_addTo_def)
next
  case (run m m')
  then show ?case using legacy_run_total [of m le] by auto
next
  case (update m m')
  then show ?case using legacy_update_total [of m] by auto
next
  case (cluster_run m m')
  then show ?case using legacy_Cluster_run_total [of m] by auto
qed

lemma legacy_reachable_wf: "(legacy_step le)\<^sup>*\<^sup>* Legacy_Map_new m \<Longrightarrow> wf_legacy {} m"
  by (induction rule: rtranclp_induct) (auto intro: wf_new legacy_step_wf)


lemma added_reachable: "(legacy_step le)\<^sup>*\<^sup>* Legacy_Map_new (legacy_addTo p e Legacy_Map_new)"
  by (rule r_into_rtranclp) (rule legacy_step.add)


text \<open>
  C18. The index by hash is equivalent to a search by coordinates: in every reachable map \<^verbatim>\<open>Map::get\<close> returns a cell
  exactly when a cell with these coordinates exists, and it is the only one.
\<close>

theorem legacy_get_equivalent:
  assumes "(legacy_step le)\<^sup>*\<^sup>* Legacy_Map_new m"
  shows "legacy_get m q r = Some a \<longleftrightarrow> {b. \<exists>c. lm_cells m b = Some c \<and> lc_offset c = Offset q r} = {a}"
proof -
  have ok: "index_ok m" using legacy_reachable_wf [OF assms] by (simp add: wf_legacy_def)
  then have "{b. \<exists>c. lm_cells m b = Some c \<and> lc_offset c = Offset q r} = {b. legacy_get m q r = Some b}" by (simp add: get_live)
  then show ?thesis by auto
qed

theorem legacy_get_equivalent_witness:
  "legacy_get (legacy_addTo (Offset 0 0) 1 Legacy_Map_new) 0 0 = Some 3 \<longleftrightarrow>
   {b. \<exists>c. lm_cells (legacy_addTo (Offset 0 0) 1 Legacy_Map_new) b = Some c \<and> lc_offset c = Offset 0 0} = {3}"
  by (rule legacy_get_equivalent [OF added_reachable [of "\<lparr>le_client = (\<lambda>_. False), le_id = word_of_nat\<rparr>" "Offset 0 0" 1]])

end
