(* ===== verification/Legacy_Stale.thy ===== *)
theory Legacy_Stale
  imports Legacy_Clusters
begin

text \<open>
  What the cache of the older map hides. \<^verbatim>\<open>Cluster::add\<close> forgets only rings around the node it adds, so a ring of another
  center that was cached while it was empty stays empty; an update of that cluster stops there. A run of the map in
  which an entity is never updated again after two clusters have been merged is evaluated step by step.
\<close>

section \<open>An update between cached rings\<close>

definition in_cluster :: "nat \<Rightarrow> legacy_map \<Rightarrow> nat \<Rightarrow> bool" where
  "in_cluster k m a \<longleftrightarrow> (\<exists>c. lm_cells m a = Some c \<and> lc_cluster c = Some k)"

definition residents :: "legacy_map \<Rightarrow> nat \<Rightarrow> nat list" where
  "residents m a = (case lm_cells m a of None \<Rightarrow> [] | Some c \<Rightarrow> map snd (lc_playerData c) @ map snd (lc_data c))"

abbreviation updated :: "legacy_map \<Rightarrow> nat list \<Rightarrow> legacy_event list" where
  "updated m as \<equiv> map Updated (concat (map (residents m) as))"

lemma in_cluster_events [simp]: "in_cluster k (m\<lparr>lm_events := es\<rparr>) = in_cluster k m" "in_cluster k (m\<lparr>lm_fetchCurrent := f\<rparr>) = in_cluster k m"
  by (simp_all add: in_cluster_def fun_eq_iff)

lemma residents_events [simp]: "residents (m\<lparr>lm_events := es\<rparr>) = residents m" "residents (m\<lparr>lm_fetchCurrent := f\<rparr>) = residents m"
  by (simp_all add: residents_def fun_eq_iff)

lemma update_node_own:
  "in_cluster k m a \<Longrightarrow> update_node k a m = Inr (True, m\<lparr>lm_events := lm_events m @ updated m [a]\<rparr>)"
  by (auto simp: in_cluster_def residents_def update_node_def legacy_Cell_update_def legacy_cell_at_def)

lemma visit_own:
  "\<forall>a\<in>set as. in_cluster k m a \<Longrightarrow>
   rfold (visit_node (update_node k)) (map Some as) (n, m) = Inr (n + length as, m\<lparr>lm_events := lm_events m @ updated m as\<rparr>)"
  by (induction as arbitrary: n m) (simp_all add: visit_node_def update_node_own)

lemma visit_nulls: "rfold (visit_node f) (replicate n None) st = Inr st"
  by (induction n) (simp_all add: visit_node_def)

text \<open>One cluster, its first ring cached with its cells and its second ring cached as empty.\<close>

definition settled :: "nat \<Rightarrow> nat list \<Rightarrow> legacy_map \<Rightarrow> bool" where
  "settled k as m \<longleftrightarrow> as \<noteq> [] \<and> lm_unique m = [k] \<and> (\<forall>a\<in>set as. in_cluster k m a) \<and> tl as \<noteq> []
     \<and> (\<exists>ck n. lm_centers m k = Some ck \<and> cc_center ck = hd as \<and> lm_cache m (hd as) 1 = Some (map Some (tl as))
          \<and> lm_cache m (hd as) 2 = Some (replicate n None))"

lemma settled_events [simp]: "settled k as (m\<lparr>lm_events := es\<rparr>) = settled k as m" "settled k as (m\<lparr>lm_fetchCurrent := f\<rparr>) = settled k as m"
  by (simp_all add: settled_def)

lemma settled_rings:
  assumes "settled k (a # as) m"
  shows "propagate_rings (Suc (Suc n)) a (update_node k) 0 m = Inr (2, m\<lparr>lm_events := lm_events m @ updated m as\<rparr>)"
  using assms by (auto simp: settled_def getRing_def visit_own visit_nulls)

lemma settled_walk:
  assumes "settled k (a # as) m"
  shows "propagate a (update_node k) m = Inr (2, m\<lparr>lm_events := lm_events m @ updated m (a # as)\<rparr>)"
proof -
  have "propagate a (update_node k) m = propagate_rings (Suc (Suc 65534)) a (update_node k) 0 (m\<lparr>lm_events := lm_events m @ updated m [a]\<rparr>)"
    using assms update_node_own [of k m a] by (simp add: propagate_def settled_def)
  then show ?thesis using settled_rings [of k a as "m\<lparr>lm_events := lm_events m @ updated m [a]\<rparr>" 65534] assms by simp
qed

lemma settled_update:
  assumes "settled k as m"
  shows "legacy_Cluster_update m = Inr (m\<lparr>lm_events := lm_events m @ updated m as, lm_fetchCurrent := lm_fetchCurrent m + 1\<rparr>)"
proof -
  obtain a bs where as: "as = a # bs" using assms by (cases as) (auto simp: settled_def)
  from assms [unfolded as] settled_walk [OF assms [unfolded as]] show ?thesis
    by (auto simp: settled_def legacy_Cluster_update_def update_cluster_def as)
qed

fun updates :: "nat \<Rightarrow> legacy_map \<Rightarrow> legacy_fault + legacy_map" where
  "updates 0 m = Inr m"
| "updates (Suc n) m = rbind (legacy_Cluster_update m) (updates n)"

lemma settled_updates:
  "settled k as m \<Longrightarrow> \<exists>m'. updates n m = Inr m' \<and> lm_events m' = lm_events m @ concat (replicate n (updated m as))"
proof (induction n arbitrary: m)
  case (Suc n)
  from Suc.prems Suc.IH [of "m\<lparr>lm_events := lm_events m @ updated m as, lm_fetchCurrent := lm_fetchCurrent m + 1\<rparr>"]
  show ?case by (simp add: settled_update)
qed simp

section \<open>The walk with a counter that evaluates\<close>

function propagate_walk :: "int \<Rightarrow> nat \<Rightarrow> visit \<Rightarrow> uint16 \<Rightarrow> legacy_map \<Rightarrow> legacy_fault + (uint16 \<times> legacy_map)" where
  "propagate_walk n ctr fnc radius m =
     (if n \<le> 0 then Inl OutOfRings
      else rbind (getRing ctr (radius + 1) False True m) (\<lambda>(nodes, m).
           rbind (rfold (visit_node fnc) nodes (0, m)) (\<lambda>(callCount, m).
             if 0 < callCount then propagate_walk (n - 1) ctr fnc (radius + 1) m else Inr (radius + 1, m))))"
  by pat_completeness auto
termination by (relation "measure (\<lambda>(n, _). nat n)") auto

declare propagate_walk.simps [simp del]

lemma propagate_rings_walk: "propagate_rings n ctr fnc r m = propagate_walk (int n) ctr fnc r m"
  by (induction n arbitrary: r m) (simp_all add: propagate_walk.simps [of "1 + int _"] propagate_walk.simps [of 0] cong: if_cong)

lemma propagate_code [code]: "propagate ctr fnc m = rbind (fnc ctr m) (\<lambda>(b, m). propagate_walk 65536 ctr fnc 0 m)"
  by (simp add: propagate_def propagate_rings_walk)

section \<open>Two entities three cells apart\<close>

datatype legacy_call = AddTo offset nat | RunMap | UpdateClusters | RunClusters

definition legacy_do :: "legacy_env \<Rightarrow> legacy_call \<Rightarrow> legacy_map \<Rightarrow> legacy_fault + legacy_map" where
  "legacy_do le c m =
     (case c of
        AddTo p e \<Rightarrow> Inr (legacy_addTo p e m)
      | RunMap \<Rightarrow> legacy_runScheduledOperations le m
      | UpdateClusters \<Rightarrow> legacy_Cluster_update m
      | RunClusters \<Rightarrow> legacy_Cluster_run m)"

definition mobs :: legacy_env where
  "mobs = \<lparr>le_client = (\<lambda>_. False), le_id = word_of_nat\<rparr>"

definition far_apart :: "legacy_call list" where
  "far_apart = [AddTo (Offset 0 0) 1, RunMap, RunClusters, UpdateClusters,
                AddTo (Offset 3 0) 2, RunMap, RunClusters, UpdateClusters, RunClusters]"

text \<open>Cell 0 is at (0, 0) with entity 1 and cluster 7; cell 8 is at (3, 0) with entity 2.\<close>

definition merged_but_hidden :: "legacy_map \<Rightarrow> bool" where
  "merged_but_hidden m \<longleftrightarrow>
     lm_unique m = [7] \<and> map_option cc_center (lm_centers m 7) = Some 0
     \<and> list_all (\<lambda>a. map_option lc_cluster (lm_cells m a) = Some (Some 7)) [0, 6, 1, 2, 3, 4, 5, 8]
     \<and> lm_cache m 0 1 = Some (map Some [6, 1, 2, 3, 4, 5]) \<and> lm_cache m 0 2 = Some (replicate 12 None)
     \<and> concat (map (residents m) [0, 6, 1, 2, 3, 4, 5]) = [1] \<and> residents m 8 = [2]"

lemma far_apart_merged: "case rfold (legacy_do mobs) far_apart Legacy_Map_new of Inl f \<Rightarrow> False | Inr m \<Rightarrow> merged_but_hidden m"
  by code_simp

lemma merged_settled:
  assumes "merged_but_hidden m"
  shows "settled 7 [0, 6, 1, 2, 3, 4, 5] m"
  using assms by (auto simp: merged_but_hidden_def settled_def in_cluster_def)

lemma concat_replicate_single: "concat (replicate n [x]) = replicate n x"
  by (induction n) simp_all

text \<open>
  C37. The cache of rings starves entities: entity 1 is added at (0, 0) and updated, entity 2 is added at (3, 0), the two clusters meet and are merged
  into one, which is then the only cluster and holds the cell of entity 2 as well; and yet no later update, however many there are, calls
  \<^verbatim>\<open>update\<close> for entity 2: each updates entity 1 and stops at the second ring, which was cached while it was empty.
\<close>

theorem stale_ring_starves:
  "\<exists>m. rfold (legacy_do mobs) far_apart Legacy_Map_new = Inr m \<and> lm_unique m = [7]
     \<and> in_cluster 7 m 8 \<and> residents m 8 = [2]
     \<and> (\<forall>n. \<exists>m'. updates n m = Inr m' \<and> lm_events m' = lm_events m @ replicate n (Updated 1))"
proof -
  obtain m where m: "rfold (legacy_do mobs) far_apart Legacy_Map_new = Inr m" "merged_but_hidden m"
    using far_apart_merged by (auto split: sum.splits)
  have "updated m [0, 6, 1, 2, 3, 4, 5] = [Updated 1]" using m(2) unfolding merged_but_hidden_def by (metis list.simps(8,9))
  then have "\<forall>n. \<exists>m'. updates n m = Inr m' \<and> lm_events m' = lm_events m @ replicate n (Updated 1)"
    using settled_updates [OF merged_settled [OF m(2)]] by (simp only: concat_replicate_single) simp
  moreover have "in_cluster 7 m 8" using m(2) by (auto simp: merged_but_hidden_def in_cluster_def)
  ultimately show ?thesis using m by (auto simp: merged_but_hidden_def)
qed

end
