(* ===== verification/Spec2Isabelle.thy ===== *)
theory Spec2Isabelle
  imports Hazards Status_Page Works Legacy_Stale
begin

text \<open>
  A verification library for the Shinzui game server.

  \<^bold>\<open>The program.\<close> Shinzui is a C++ library for multiplayer game servers (\<^verbatim>\<open>src/\<close>). The world is a
  hexagonal grid of cells that are created on demand. Entities (players and others) live in
  cells, move, collide and broadcast packets to the clients of the cells around them. A cluster decides
  which cells are updated in a round, groups them into connected components that threads update in
  parallel, and retires cells nobody keeps alive after two minutes. A server accepts clients, reads
  from their sockets, runs works, updates the map once per heart beat and deletes closed clients. A monitor
  counts what happens and draws a page on the terminal; database queries run on threads of their own.

  \<^bold>\<open>Modelling.\<close> Pure functions are HOL functions; stateful code passes an explicit state; a fault of the
  program (a null or dangling pointer, a failed assertion, an access outside a table or buffer, an
  exception) is the left value of a result, sequenced by \<open>rbind\<close> and looped by \<open>rfold\<close>. Integers
  keep their width as words and wrap around; a \<^verbatim>\<open>float\<close> or \<^verbatim>\<open>double\<close> is a rational number
  rounded after every operation. Objects that are shared live at addresses (partial maps from \<open>addr\<close>),
  so aliasing and use after deletion are visible. Unordered containers are lists. Memory that a
  constructor leaves uninitialised is an argument.

  \<^bold>\<open>Theories, in the order of their dependencies.\<close>
  \<^item> \<open>Prelude\<close>: word types, results, loops, unordered sets, and the queues of
    \<^verbatim>\<open>boost::lockfree\<close> with their contract as the locale \<open>boost_queue\<close>.
  \<^item> \<open>Float_Model\<close>: rounding to nearest even, with the locale \<open>rounding\<close> interpreted for single and
    double precision; two- and three-dimensional vectors.
  \<^item> \<open>Offset\<close> and \<open>Hex_Grid\<close> (\<^verbatim>\<open>map/offset.hpp\<close>, \<^verbatim>\<open>Cell::ring\<close>, \<^verbatim>\<open>Cell::inRadius\<close>, the
    neighbourhoods of \<^verbatim>\<open>Map\<close>): the hexagonal metric, the round trip between cells and positions with all
    roundings, completeness of the walks.
  \<^item> \<open>Reactive\<close> (\<^verbatim>\<open>debug/reactive.*\<close>, \<^verbatim>\<open>debug.hpp\<close>, \<^verbatim>\<open>queue_with_size.hpp\<close>): the counters and
    the log of the monitor, the counted queue.
  \<^item> \<open>Packet\<close> (\<^verbatim>\<open>io/packet.*\<close>, \<^verbatim>\<open>defs/intrusive.hpp\<close>): the buffer with its cursors, every reader and writer,
    the frame on the wire, reference counting. A writer and a reader of one kind are a \<open>codec\<close> (a locale,
    interpreted for every kind), from which the round trip of field lists follows.
  \<^item> \<open>Physics\<close> and \<open>Quadtree\<close> (\<^verbatim>\<open>physics/*\<close>, \<^verbatim>\<open>map/quadtree.hpp\<close>): bounding boxes, segments, the
    separating-axis test over the locale \<open>projectable\<close>, the tree of candidates.
  \<^item> \<open>Movement\<close> (\<^verbatim>\<open>movement/*\<close>): curves, the random generator, the motion master.
  \<^item> \<open>Executor\<close> (\<^verbatim>\<open>executor/*\<close>): queued works and timed tasks. What handlers do is a parameter; the loops
    take fuel, and more fuel than queued works and tasks is enough when the handlers schedule nothing.
  \<^item> \<open>World\<close>, \<open>Cell\<close>, \<open>Cluster\<close>, \<open>Game_Map\<close> (\<^verbatim>\<open>map/cell.*\<close>, \<^verbatim>\<open>map/map-cluster/*\<close>, \<^verbatim>\<open>map/map.*\<close>,
    \<^verbatim>\<open>map/map_aware_entity.*\<close>, \<^verbatim>\<open>Client::send\<close>): the state of the map and all its operations.
  \<^item> \<open>World_Steps\<close> and \<open>Map_Invariants\<close>: every operation of the map as a sequence of primitive steps of an
    inductive relation, one lemma per operation saying which kinds it takes; the invariant of the index of
    cells and of the queued destructions, kept by a whole round.
  \<^item> \<open>Components\<close>: what \<^verbatim>\<open>boost::connected_components\<close> promises (a locale) and an algorithm that
    keeps it. \<open>Activation\<close>, \<open>Entering\<close>, \<open>Rounds\<close>: in calm worlds creating, entering, leaving and
    keeping cells never faults and does what it should; every active cell is updated once per round.
  \<^item> \<open>Delivery\<close>: the two broadcast queues of a cell refine one first-in first-out channel (locale
    \<open>double_buffer\<close>), and an update delivers every pending packet once to every client.
  \<^item> \<open>Hazards\<close>: the clock of stalled cells, and the states in which the map uses null or dangling
    pointers.
  \<^item> \<open>Server\<close> (\<^verbatim>\<open>server/client.*\<close>, \<^verbatim>\<open>server/server.*\<close>, \<^verbatim>\<open>defs/atomic_autoincrement.hpp\<close>): clients,
    asynchronous operations, the queue of server operations, the update. \<open>Client_Lifecycle\<close>: the
    invariant of clients as a transition system. \<open>Sessions\<close>: its consequences for runs, closing, receiving and
    the heart beat.
  \<^item> \<open>C_Strings\<close>: decimal numbers, lines of a file and buffers as the C library has them. \<open>Process_Usage\<close>
    (\<^verbatim>\<open>debug/cpu.cpp\<close>): reading the memory usage back, the range of the processor usage.
  \<^item> \<open>Terminal\<close> (\<^verbatim>\<open>dep/rxterm\<close>): styles, images, line breaking, components and the virtual terminal.
    \<open>Rendering\<close>: when line breaking ends and what it keeps, and where it does not end; its loop is a
    \<open>partial_function\<close>, so that not ending is a value. \<open>Layout\<close>: images are only accessed inside their
    bounds, and what a page shows.
  \<^item> \<open>Status_Page\<close> (\<^verbatim>\<open>Reactive::update_impl\<close>): the page of the monitor, composed from the server, the process usage
    and the terminal; it is drawn without a fault in live states, and what a clock set back does to it.
  \<^item> \<open>Database\<close> (\<^verbatim>\<open>database/*\<close>): the worker threads of the database and the calls of \<^verbatim>\<open>query\<close>, interleaved at
    every access to what they share: the queue, the mutex, the condition variable and the stop flag.
  \<^item> \<open>Works\<close> (\<^verbatim>\<open>executor/abstract_work.*\<close>): the kinds of works on top of the executor, the packets and the database: every packet a work owns is
    destroyed once, and a work that waits for a query is called after the query has run.
  \<^item> \<open>Legacy_Map\<close> (\<^verbatim>\<open>map-slow-radius/*\<close>): the older map, which the build does not compile: clusters that spread ring by ring,
    a cache of rings, merging. \<open>Legacy_Clusters\<close>: its invariant, kept by every operation (the walk over the rings is proved once in the
    locale \<open>visitor\<close>, interpreted for updating and for merging), so that no reachable state faults; \<open>2^16\<close> rings are enough because the
    radius wraps around to the empty ring. \<open>Legacy_Stale\<close>: the entities a stale ring hides.

  \<^bold>\<open>Parameters.\<close> The record \<open>env\<close> holds what the map takes from outside: the build (assertions on or off),
  the \<^verbatim>\<open>glm\<close> submodule, the virtual packets of entities, uninitialised memory, the algorithm of the connected
  components, random draws, the clock and the fuel of the executors. The record \<open>server_env\<close> holds the pure
  virtual functions of the server and the works. Where a theorem needs something of them it is a named hypothesis
  (\<open>connected_components\<close>, \<open>packet_fits\<close>, \<open>program_within\<close>, \<open>entities_ok\<close>, \<open>app_ok\<close>, \<open>polite\<close>).

  \<^bold>\<open>Concurrency.\<close> Components are processed one after the other and a completion handler of a socket runs as
  one step between other steps. Interleavings inside an operation of the map or the server, of pool threads with each
  other or with the thread of the sockets, are not modelled; those of the database threads are. A cancelled asynchronous operation completes with an error. A work of an
  entity's executor acts on the map only.

  \<^bold>\<open>Not modelled.\<close> The contents of log lines, which the callers format; the Windows branch of \<^verbatim>\<open>debug/cpu.cpp\<close>;
  \<^verbatim>\<open>threadpool/threadpool.hpp\<close>, which has no operation (the pool in use is a submodule);
  \<^verbatim>\<open>main.cpp\<close> and the tests; the forwarding headers in \<^verbatim>\<open>src/boost\<close> and the type-level helpers of
  \<^verbatim>\<open>defs\<close>. Infinities and NaNs are values only where the page divides by the heart beat.
\<close>

end
